(* ===== verification/Prelude.thy ===== *)
theory Prelude
  imports Main "HOL-Library.AList" "HOL-Library.List_Lexorder" "HOL-Library.Char_ord"
begin

text \<open>
  Shared vocabulary of the development.

  Go values and how they are written here:
  \<^item> \<open>int\<close>, \<open>int64\<close> and \<open>time.Duration\<close> are HOL integers; where a computation of the source can
    leave the 64-bit range the wrap-around is written out with \<open>wrap64\<close>, and \<open>int64\<close> is the
    predicate "fits in 64 bits";
  \<^item> \<open>time.Time\<close> is the number of nanoseconds since Go's zero time, so \<open>IsZero\<close> is comparison with 0;
  \<^item> a Go map is an association list with distinct keys (\<open>gomap\<close>): \<open>map_of\<close> reads it,
    \<open>AList.update\<close> stores, and the list order is one possible iteration order;
  \<^item> \<open>error\<close> is the datatype \<open>go_error\<close>, a fallible call returns \<open>go_error + 'a\<close>.
\<close>

named_theorems gomap_simps \<open>reading and updating association lists that stand for Go maps\<close>
named_theorems dedup_simps \<open>first-occurrence de-duplication\<close>


subsection \<open>64-bit integers, durations and times\<close>

type_synonym duration = int
type_synonym time = int

definition int64 :: "int \<Rightarrow> bool" where
  "int64 x \<longleftrightarrow> - (2 ^ 63) \<le> x \<and> x < 2 ^ 63"

definition wrap64 :: "int \<Rightarrow> int" where
  "wrap64 x = (x + 2 ^ 63) mod 2 ^ 64 - 2 ^ 63"

lemma wrap64_id [simp]: "int64 x \<Longrightarrow> wrap64 x = x"
  by (simp add: wrap64_def int64_def)

lemma wrap64_high: "2 ^ 63 \<le> x \<Longrightarrow> x < 2 ^ 64 + 2 ^ 63 \<Longrightarrow> wrap64 x = x - 2 ^ 64"
proof -
  assume x: "2 ^ 63 \<le> x" "x < 2 ^ 64 + 2 ^ 63"
  have "(x + 2 ^ 63) mod 2 ^ 64 = (x - 2 ^ 63 + 2 ^ 64) mod 2 ^ 64"
    by (simp add: algebra_simps)
  also have "\<dots> = (x - 2 ^ 63) mod 2 ^ 64" by (rule mod_add_self2)
  also have "\<dots> = x - 2 ^ 63" using x by (intro mod_pos_pos_trivial) simp_all
  finally show ?thesis by (simp add: wrap64_def)
qed

lemma int64_wrap64 [simp]: "int64 (wrap64 x)"
proof -
  have "0 \<le> (x + 2 ^ 63) mod 2 ^ 64" "(x + 2 ^ 63) mod 2 ^ 64 < 2 ^ 64"
    by simp_all
  then show ?thesis by (simp add: wrap64_def int64_def)
qed

text \<open>Go's integer division truncates towards zero.\<close>

definition go_div :: "int \<Rightarrow> int \<Rightarrow> int" where
  "go_div a b = sgn a * sgn b * (\<bar>a\<bar> div \<bar>b\<bar>)"

lemma go_div_nonneg: "0 \<le> a \<Longrightarrow> 0 < b \<Longrightarrow> go_div a b = a div b"
  by (cases "a = 0") (simp_all add: go_div_def)

lemma go_div_ge_0: "0 \<le> a \<Longrightarrow> 0 < b \<Longrightarrow> 0 \<le> go_div a b"
  by (simp add: go_div_nonneg pos_imp_zdiv_nonneg_iff)

definition second :: duration where "second = 1000000000"
definition millisecond :: duration where "millisecond = 1000000"

text \<open>\<open>Time.Sub\<close> saturates at the ends of the \<open>Duration\<close> range.\<close>

definition time_sub :: "time \<Rightarrow> time \<Rightarrow> duration" where
  "time_sub a b = max (- (2 ^ 63)) (min (2 ^ 63 - 1) (a - b))"

lemma int64_time_sub: "int64 (time_sub a b)"
  by (simp add: time_sub_def int64_def)

lemma time_sub_mono: "a \<le> a' \<Longrightarrow> time_sub a b \<le> time_sub a' b"
  by (simp add: time_sub_def)


subsection \<open>Errors\<close>

text \<open>
  The sentinel errors of the program, the two context errors, errors of code outside the
  repository (\<open>ErrOther\<close> with its text), \<open>fmt.Errorf\<close> with a \<open>%w\<close> operand (\<open>Wrapped\<close>),
  the start-up errors of \<open>cmd/app/main.go\<close> (\<open>StageFailed\<close>) and \<open>errors.Join\<close> (\<open>Joined\<close>).
\<close>

datatype go_error =
    ErrNotFound | ErrNotRunning | ErrAlreadyRunning | ErrRunNotFound
  | ErrSupervisorClosed | ErrWriterClosed
  | ErrInvalidRange | ErrInvalidBucket | ErrInvalidPage
  | CtxCanceled | CtxDeadlineExceeded
  | ErrOther string
  | Wrapped string go_error
  | StageFailed string go_error
  | Joined "go_error list"

type_synonym 'a result = "go_error + 'a"

fun errors_is :: "go_error \<Rightarrow> go_error \<Rightarrow> bool" where
  "errors_is (Wrapped m e) t = (Wrapped m e = t \<or> errors_is e t)"
| "errors_is (StageFailed m e) t = (StageFailed m e = t \<or> errors_is e t)"
| "errors_is (Joined es) t = (Joined es = t \<or> (\<exists>e \<in> set es. errors_is e t))"
| "errors_is e t = (e = t)"

text \<open>\<open>err.Error()\<close>; a wrapping format of the source is its text, a colon and the wrapped error.\<close>

fun err_text :: "go_error \<Rightarrow> string" where
  "err_text ErrNotFound = ''session not found''"
| "err_text ErrNotRunning = ''session is not running''"
| "err_text ErrAlreadyRunning = ''session is already running''"
| "err_text ErrRunNotFound = ''variation run not found''"
| "err_text ErrSupervisorClosed = ''sampling supervisor is closed''"
| "err_text ErrWriterClosed = ''clickhouse writer closed''"
| "err_text ErrInvalidRange = ''invalid time range''"
| "err_text ErrInvalidBucket = ''invalid series bucket''"
| "err_text ErrInvalidPage = ''invalid sample page''"
| "err_text CtxCanceled = ''context canceled''"
| "err_text CtxDeadlineExceeded = ''context deadline exceeded''"
| "err_text (ErrOther s) = s"
| "err_text (Wrapped m e) = m @ '': '' @ err_text e"
| "err_text (StageFailed m e) = m @ '' failed''"
| "err_text (Joined []) = []"
| "err_text (Joined [e]) = err_text e"
| "err_text (Joined (e # e' # es)) = err_text e @ [CHR 0x0A] @ err_text (Joined (e' # es))"

definition err_is :: "go_error option \<Rightarrow> go_error \<Rightarrow> bool" where
  "err_is e t = (case e of None \<Rightarrow> False | Some e' \<Rightarrow> errors_is e' t)"

lemma err_is_simps [simp]: "\<not> err_is None t" "err_is (Some e) t = errors_is e t"
  by (simp_all add: err_is_def)

text \<open>\<open>errors.Join\<close> drops nil errors and is nil when nothing is left.\<close>

definition errors_join :: "go_error option list \<Rightarrow> go_error option" where
  "errors_join es =
     (case List.map_filter id es of [] \<Rightarrow> None | es' \<Rightarrow> Some (Joined es'))"

lemma map_filter_id_Nil_iff: "List.map_filter id es = [] \<longleftrightarrow> (\<forall>e \<in> set es. e = None)"
  by (induction es) (auto split: option.splits)

lemma errors_join_None_iff: "errors_join es = None \<longleftrightarrow> (\<forall>e \<in> set es. e = None)"
proof -
  have "errors_join es = None \<longleftrightarrow> List.map_filter id es = []"
    by (simp add: errors_join_def split: list.splits)
  then show ?thesis by (simp only: map_filter_id_Nil_iff)
qed


subsection \<open>Go maps as association lists\<close>

type_synonym ('k, 'v) gomap = "('k \<times> 'v) list"

definition gomap :: "('k, 'v) gomap \<Rightarrow> bool" where
  "gomap m \<longleftrightarrow> distinct (map fst m)"

lemma gomap_Nil [simp]: "gomap []"
  by (simp add: gomap_def)

lemma gomap_update [simp]: "gomap m \<Longrightarrow> gomap (AList.update k v m)"
  by (simp add: gomap_def AList.distinct_update)

lemma map_of_update_same [gomap_simps]: "map_of (AList.update k v m) k = Some v"
  by (simp add: AList.update_conv')

lemma map_of_update_other [gomap_simps]: "k \<noteq> k' \<Longrightarrow> map_of (AList.update k v m) k' = map_of m k'"
  by (simp add: AList.update_conv')

lemma keys_update: "fst ` set (AList.update k v m) = insert k (fst ` set m)"
  by (simp add: AList.dom_update)

lemma map_of_is_SomeI_gomap: "gomap m \<Longrightarrow> (k, v) \<in> set m \<Longrightarrow> map_of m k = Some v"
  by (simp add: gomap_def)

lemma length_update:
  "length (AList.update k v m) = (if k \<in> fst ` set m then length m else Suc (length m))"
  by (induction m) auto

lemma update_new: "k \<notin> fst ` set m \<Longrightarrow> AList.update k v m = m @ [(k, v)]"
  by (induction m) auto

lemma map_fst_update:
  "map fst (AList.update k v m) = (if k \<in> fst ` set m then map fst m else map fst m @ [k])"
  by (induction m) auto

lemma gomap_length: "gomap m \<Longrightarrow> length m = card (fst ` set m)"
  using distinct_card [of "map fst m"] by (simp add: gomap_def)

text \<open>Adding to a counter: \<open>m[k] += w\<close>, a missing key counting as zero.\<close>

definition bump :: "'k \<Rightarrow> int \<Rightarrow> ('k, int) gomap \<Rightarrow> ('k, int) gomap" where
  "bump k w m = AList.update k (case map_of m k of None \<Rightarrow> w | Some c \<Rightarrow> c + w) m"

definition count_of :: "('k, int) gomap \<Rightarrow> 'k \<Rightarrow> int" where
  "count_of m k = (case map_of m k of None \<Rightarrow> 0 | Some c \<Rightarrow> c)"

lemma gomap_bump [simp]: "gomap m \<Longrightarrow> gomap (bump k w m)"
  by (simp add: bump_def)

lemma keys_bump [simp]: "fst ` set (bump k w m) = insert k (fst ` set m)"
  by (simp add: bump_def keys_update)

lemma count_of_Nil [simp]: "count_of [] k = 0"
  by (simp add: count_of_def)

lemma count_of_bump: "count_of (bump k w m) j = count_of m j + (if j = k then w else 0)"
  by (auto simp: bump_def count_of_def AList.update_conv' split: option.splits)


subsection \<open>First-occurrence de-duplication\<close>

text \<open>
  The source removes duplicates with a \<open>seen\<close> set and an output slice in several places;
  \<open>dedup_from seen xs\<close> is that loop.
\<close>

fun dedup_from :: "'a list \<Rightarrow> 'a list \<Rightarrow> 'a list" where
  "dedup_from seen [] = []"
| "dedup_from seen (x # xs) =
     (if x \<in> set seen then dedup_from seen xs else x # dedup_from (x # seen) xs)"

lemma set_dedup_from [dedup_simps]: "set (dedup_from seen xs) = set xs - set seen"
  by (induction xs arbitrary: seen) auto

lemma distinct_dedup_from [dedup_simps]: "distinct (dedup_from seen xs)"
  by (induction xs arbitrary: seen) (auto simp: set_dedup_from)

lemma dedup_from_distinct: "distinct xs \<Longrightarrow> set xs \<inter> set seen = {} \<Longrightarrow> dedup_from seen xs = xs"
  by (induction xs arbitrary: seen) auto

lemma length_dedup_from: "length (dedup_from [] xs) = card (set xs)"
  using distinct_card [OF distinct_dedup_from [of "[]" xs]] by (simp add: set_dedup_from)


subsection \<open>Loops that may fail\<close>

text \<open>A \<open>for\<close> loop that returns at the first error.\<close>

fun foldM :: "('s \<Rightarrow> 'a \<Rightarrow> 's result) \<Rightarrow> 's \<Rightarrow> 'a list \<Rightarrow> 's result" where
  "foldM f s [] = Inr s"
| "foldM f s (x # xs) = (case f s x of Inl e \<Rightarrow> Inl e | Inr s' \<Rightarrow> foldM f s' xs)"

lemma foldM_append:
  "foldM f s (xs @ ys) = (case foldM f s xs of Inl e \<Rightarrow> Inl e | Inr s' \<Rightarrow> foldM f s' ys)"
  by (induction xs arbitrary: s) (auto split: sum.splits)

lemma foldM_invariant:
  assumes "foldM f s xs = Inr t" and "P s"
    and "\<And>s x s'. x \<in> set xs \<Longrightarrow> P s \<Longrightarrow> f s x = Inr s' \<Longrightarrow> P s'"
  shows "P t"
  using assms
proof (induction xs arbitrary: s)
  case (Cons x xs)
  obtain s' where s': "f s x = Inr s'" and rest: "foldM f s' xs = Inr t"
    using Cons.prems(1) by (cases "f s x") simp_all
  have ps: "P s'" by (rule Cons.prems(3) [OF _ Cons.prems(2) s']) simp
  show ?case
    by (rule Cons.IH [OF rest ps]) (rule Cons.prems(3), simp_all)
qed simp


subsection \<open>Sums and maxima over lists\<close>

lemma sum_list_le_member: "(\<And>y. y \<in> set xs \<Longrightarrow> (0::int) \<le> y) \<Longrightarrow> x \<in> set xs \<Longrightarrow> x \<le> sum_list xs"
proof (induction xs)
  case (Cons a xs)
  have nn: "0 \<le> sum_list xs" by (rule sum_list_nonneg) (simp add: Cons.prems(1))
  show ?case
  proof (cases "x = a")
    case True with nn show ?thesis by simp
  next
    case False
    with Cons.prems have "x \<le> sum_list xs" by (intro Cons.IH) simp_all
    moreover have "0 \<le> a" using Cons.prems(1) by simp
    ultimately show ?thesis by simp
  qed
qed simp

lemma sorted_nth_le_last: "sorted xs \<Longrightarrow> i < length xs \<Longrightarrow> xs ! 0 \<le> xs ! i \<and> xs ! i \<le> xs ! (length xs - 1)"
  by (auto intro: sorted_nth_mono)

end
