(* ===== verification/GoStrings.thy ===== *)
theory GoStrings
  imports Prelude "HOL-Library.Sublist"
begin

text \<open>
  The parts of Go's \<open>strings\<close>, \<open>strconv\<close> and \<open>unicode/utf8\<close> the program calls. A Go string is a
  sequence of bytes, so it is an HOL \<open>string\<close> whose characters are bytes; \<open>len\<close> is \<open>length\<close> and
  \<open>sort.Strings\<close> is \<open>sort\<close> at the bytewise lexicographic order. The Unicode tables (\<open>ToLower\<close>
  outside ASCII, letters, simple folding) are not code of the repository: functions that consult
  them take them as parameters and keep the ASCII behaviour written out.
\<close>

abbreviation byte :: "char \<Rightarrow> nat" where "byte c \<equiv> of_char c"

definition is_ascii :: "string \<Rightarrow> bool" where
  "is_ascii s \<longleftrightarrow> (\<forall>c \<in> set s. byte c < 128)"


subsection \<open>UTF-8\<close>

text \<open>A continuation byte in a given range.\<close>

definition in_range :: "nat \<Rightarrow> nat \<Rightarrow> char \<Rightarrow> bool" where
  "in_range lo hi c \<longleftrightarrow> lo \<le> byte c \<and> byte c \<le> hi"

text \<open>
  \<open>decode_valid s\<close> is the code point and width of a valid UTF-8 encoding at the start of \<open>s\<close>, or
  None; the ranges of the second byte are those of \<open>unicode/utf8\<close> (no overlong forms, no
  surrogates, nothing above U+10FFFF).
\<close>

fun decode_valid :: "string \<Rightarrow> (nat \<times> nat) option" where
  "decode_valid [] = None"
| "decode_valid (c # s) =
    (let b = byte c in
     if b < 128 then Some (b, 1)
     else if b < 194 then None
     else if b < 224 then
       (case s of c1 # _ \<Rightarrow>
          if in_range 128 191 c1 then Some ((b - 192) * 64 + (byte c1 - 128), 2) else None
        | _ \<Rightarrow> None)
     else if b < 240 then
       (case s of c1 # c2 # _ \<Rightarrow>
          if in_range (if b = 224 then 160 else 128) (if b = 237 then 159 else 191) c1
             \<and> in_range 128 191 c2
          then Some ((b - 224) * 4096 + (byte c1 - 128) * 64 + (byte c2 - 128), 3) else None
        | _ \<Rightarrow> None)
     else if b < 245 then
       (case s of c1 # c2 # c3 # _ \<Rightarrow>
          if in_range (if b = 240 then 144 else 128) (if b = 244 then 143 else 191) c1
             \<and> in_range 128 191 c2 \<and> in_range 128 191 c3
          then Some ((b - 240) * 262144 + (byte c1 - 128) * 4096 + (byte c2 - 128) * 64
                     + (byte c3 - 128), 4) else None
        | _ \<Rightarrow> None)
     else None)"

lemma decode_valid_width:
  "decode_valid s = Some (r, w) \<Longrightarrow> 0 < w \<and> w \<le> length s"
  by (cases s) (auto simp: Let_def split: if_splits list.splits)

lemma decode_valid_take:
  "decode_valid s = Some (r, w) \<Longrightarrow> decode_valid (take w s @ t) = Some (r, w)"
  by (cases s) (auto simp: Let_def split: if_splits list.splits)

text \<open>\<open>for _, r := range s\<close>: an invalid byte yields U+FFFD and is one byte wide.\<close>

definition rune_error :: nat where "rune_error = 65533"

definition decode_rune :: "string \<Rightarrow> nat \<times> nat" where
  "decode_rune s = (case decode_valid s of Some rw \<Rightarrow> rw | None \<Rightarrow> (rune_error, 1))"

lemma decode_rune_width: "0 < snd (decode_rune s)"
  using decode_valid_width by (auto simp: decode_rune_def split: option.splits)

lemma decode_rune_pos: "decode_rune s = (r, w) \<Longrightarrow> 0 < w"
  using decode_rune_width [of s] by simp

function runes_of :: "string \<Rightarrow> nat list" where
  "runes_of s = (if s = [] then [] else
     (case decode_rune s of (r, w) \<Rightarrow> r # runes_of (drop w s)))"
  by pat_completeness auto
termination
  by (relation "measure length") (auto, metis decode_rune_width diff_less length_greater_0_conv snd_conv)

declare runes_of.simps [simp del]

definition rune_count :: "string \<Rightarrow> nat" where
  "rune_count s = length (runes_of s)"

function valid_utf8 :: "string \<Rightarrow> bool" where
  "valid_utf8 s = (if s = [] then True else
     (case decode_valid s of None \<Rightarrow> False | Some (r, w) \<Rightarrow> valid_utf8 (drop w s)))"
  by pat_completeness auto
termination
  by (relation "measure length") (auto dest!: decode_valid_width)

declare valid_utf8.simps [simp del]

lemma valid_utf8_Nil [simp]: "valid_utf8 []"
  by (subst valid_utf8.simps) simp

text \<open>
  \<open>strings.ToValidUTF8(s, repl)\<close>: every maximal run of invalid bytes becomes one \<open>repl\<close>.
  The flag is the source's \<open>invalid\<close> variable.
\<close>

function to_valid_utf8_from :: "bool \<Rightarrow> string \<Rightarrow> string \<Rightarrow> string" where
  "to_valid_utf8_from invalid repl s = (if s = [] then [] else
     (case decode_valid s of
        None \<Rightarrow> (if invalid then [] else repl) @ to_valid_utf8_from True repl (tl s)
      | Some (r, w) \<Rightarrow> take w s @ to_valid_utf8_from False repl (drop w s)))"
  by pat_completeness auto
termination
  by (relation "measure (\<lambda>(_, _, s). length s)") (auto dest!: decode_valid_width)

declare to_valid_utf8_from.simps [simp del]

definition to_valid_utf8 :: "string \<Rightarrow> string \<Rightarrow> string" where
  "to_valid_utf8 s repl = to_valid_utf8_from False repl s"

lemma valid_utf8_step:
  assumes "decode_valid s = Some (r, w)"
  shows "valid_utf8 (take w s @ t) \<longleftrightarrow> valid_utf8 t"
proof -
  from decode_valid_width [OF assms] have w: "0 < w" "w \<le> length s" by auto
  then have ne: "take w s @ t \<noteq> []" by (cases s) auto
  from decode_valid_take [OF assms] have "decode_valid (take w s @ t) = Some (r, w)" .
  moreover have "drop w (take w s @ t) = t" using w by simp
  ultimately show ?thesis using ne by (subst valid_utf8.simps) auto
qed

lemma valid_utf8_append: "valid_utf8 s \<Longrightarrow> valid_utf8 (s @ t) \<longleftrightarrow> valid_utf8 t"
proof (induction s rule: valid_utf8.induct)
  case (1 s)
  show ?case
  proof (cases "s = []")
    case False
    with "1.prems" obtain r w where d: "decode_valid s = Some (r, w)" and v: "valid_utf8 (drop w s)"
      by (subst (asm) valid_utf8.simps) (auto split: option.splits)
    have "valid_utf8 (take w s @ (drop w s @ t)) \<longleftrightarrow> valid_utf8 (drop w s @ t)"
      by (rule valid_utf8_step [OF d])
    moreover have "valid_utf8 (drop w s @ t) \<longleftrightarrow> valid_utf8 t"
      using "1.IH" [OF False d] v by simp
    ultimately show ?thesis by (metis append_assoc append_take_drop_id)
  qed simp
qed

lemma valid_to_valid_utf8_from:
  "valid_utf8 repl \<Longrightarrow> valid_utf8 (to_valid_utf8_from b repl s)"
proof (induction b repl s rule: to_valid_utf8_from.induct)
  case (1 b repl s)
  show ?case
  proof (cases "s = []")
    case True then show ?thesis by (simp add: to_valid_utf8_from.simps)
  next
    case False
    show ?thesis
    proof (cases "decode_valid s")
      case None
      with False "1.IH"(1) "1.prems" show ?thesis
        by (subst to_valid_utf8_from.simps) (simp add: valid_utf8_append)
    next
      case (Some rw)
      obtain r w where rw: "rw = (r, w)" by (cases rw)
      with False Some "1.IH"(2) [OF False Some rw [symmetric]] "1.prems" show ?thesis
        by (subst to_valid_utf8_from.simps) (simp add: valid_utf8_step)
    qed
  qed
qed

lemma valid_to_valid_utf8: "valid_utf8 repl \<Longrightarrow> valid_utf8 (to_valid_utf8 s repl)"
  by (simp add: to_valid_utf8_def valid_to_valid_utf8_from)


subsection \<open>White space\<close>

text \<open>
  \<open>strings.TrimSpace\<close> drops leading and trailing runes with \<open>unicode.IsSpace\<close>. These are the
  encodings of those runes: six ASCII bytes, U+0085, U+00A0, U+1680, U+2000 to U+200A, U+2028,
  U+2029, U+202F, U+205F and U+3000. No encoding is a prefix or a suffix of another one, so removing
  an encoding at either end is what the decoding loop of the library does.
\<close>

definition space_encodings :: "string list" where
  "space_encodings =
     map (\<lambda>b. [char_of b]) [9, 10, 11, 12, 13, 32 :: nat]
     @ map (map char_of) [[0xC2, 0x85], [0xC2, 0xA0], [0xE1, 0x9A, 0x80 :: nat]]
     @ map (\<lambda>b. [char_of (0xE2 :: nat), char_of (0x80 :: nat), char_of b])
         ([0x80, 0x81, 0x82, 0x83, 0x84, 0x85, 0x86, 0x87, 0x88, 0x89, 0x8A, 0xA8, 0xA9, 0xAF] :: nat list)
     @ map (map char_of) [[0xE2, 0x81, 0x9F], [0xE3, 0x80, 0x80 :: nat]]"

definition space_prefix :: "string \<Rightarrow> string option" where
  "space_prefix s = find (\<lambda>e. prefix e s) space_encodings"

lemma space_encodings_nonempty: "\<forall>e \<in> set space_encodings. e \<noteq> []"
  by (simp add: space_encodings_def)

lemma space_prefix_Some: "space_prefix s = Some e \<Longrightarrow> prefix e s \<and> e \<noteq> []"
  unfolding space_prefix_def find_Some_iff
  using space_encodings_nonempty by (metis nth_mem)

function trim_left_space :: "string \<Rightarrow> string" where
  "trim_left_space s =
     (case space_prefix s of None \<Rightarrow> s | Some e \<Rightarrow> trim_left_space (drop (length e) s))"
  by pat_completeness auto
termination
proof (relation "measure length", goal_cases)
  case (2 s e)
  from space_prefix_Some [OF 2] have "0 < length e" "length e \<le> length s"
    by (auto dest: prefix_length_le)
  then have "length s - length e < length s" by linarith
  then show ?case by simp
qed simp

declare trim_left_space.simps [simp del]

definition space_suffix :: "string \<Rightarrow> string option" where
  "space_suffix s = find (\<lambda>e. suffix e s) space_encodings"

lemma space_suffix_Some: "space_suffix s = Some e \<Longrightarrow> suffix e s \<and> e \<noteq> []"
  unfolding space_suffix_def find_Some_iff
  using space_encodings_nonempty by (metis nth_mem)

function trim_right_space :: "string \<Rightarrow> string" where
  "trim_right_space s =
     (case space_suffix s of None \<Rightarrow> s
      | Some e \<Rightarrow> trim_right_space (take (length s - length e) s))"
  by pat_completeness auto
termination
proof (relation "measure length", goal_cases)
  case (2 s e)
  from space_suffix_Some [OF 2] have "0 < length e" "length e \<le> length s"
    by (auto dest: suffix_length_le)
  then have "length s - length e < length s" by linarith
  then show ?case by simp
qed simp

declare trim_right_space.simps [simp del]

definition trim_space :: "string \<Rightarrow> string" where
  "trim_space s = trim_right_space (trim_left_space s)"

text \<open>A string whose first and last bytes are visible ASCII is left alone.\<close>

definition visible :: "char \<Rightarrow> bool" where
  "visible c \<longleftrightarrow> 33 \<le> byte c \<and> byte c < 128"

lemma space_encodings_ends: "\<forall>e \<in> set space_encodings. \<not> visible (hd e) \<and> \<not> visible (last e)"
  by (simp add: space_encodings_def visible_def)

lemma trim_left_visible: "visible (hd s) \<Longrightarrow> trim_left_space s = s"
proof -
  assume v: "visible (hd s)"
  have "space_prefix s = None"
  proof (rule ccontr)
    assume "space_prefix s \<noteq> None"
    then obtain e where e: "space_prefix s = Some e" by auto
    then have "e \<in> set space_encodings"
      by (auto simp: space_prefix_def find_Some_iff)
    moreover from space_prefix_Some [OF e] have "hd e = hd s"
      by (auto simp: prefix_def)
    ultimately show False using v space_encodings_ends by metis
  qed
  then show ?thesis by (subst trim_left_space.simps) simp
qed

lemma trim_right_visible: "visible (last s) \<Longrightarrow> trim_right_space s = s"
proof -
  assume v: "visible (last s)"
  have "space_suffix s = None"
  proof (rule ccontr)
    assume "space_suffix s \<noteq> None"
    then obtain e where e: "space_suffix s = Some e" by auto
    then have "e \<in> set space_encodings"
      by (auto simp: space_suffix_def find_Some_iff)
    moreover from space_suffix_Some [OF e] have "last e = last s"
      by (auto simp: suffix_def)
    ultimately show False using v space_encodings_ends by metis
  qed
  then show ?thesis by (subst trim_right_space.simps) simp
qed

lemma trim_space_visible: "visible (hd s) \<Longrightarrow> visible (last s) \<Longrightarrow> trim_space s = s"
  by (simp add: trim_space_def trim_left_visible trim_right_visible)

lemma trim_space_Nil [simp]: "trim_space [] = []"
proof -
  have "space_prefix [] = None" "space_suffix [] = None"
    using space_encodings_nonempty
    by (auto simp: space_prefix_def space_suffix_def find_None_iff)
  then show ?thesis
    by (simp add: trim_space_def trim_left_space.simps trim_right_space.simps)
qed

lemma length_trim_left_space: "length (trim_left_space s) \<le> length s"
proof (induction s rule: trim_left_space.induct)
  case (1 s)
  then show ?case
    by (subst trim_left_space.simps) (fastforce split: option.splits)
qed

lemma length_trim_right_space: "length (trim_right_space s) \<le> length s"
proof (induction s rule: trim_right_space.induct)
  case (1 s)
  then show ?case
    by (subst trim_right_space.simps) (fastforce split: option.splits)
qed

lemma length_trim_space: "length (trim_space s) \<le> length s"
  unfolding trim_space_def
  by (rule order_trans [OF length_trim_right_space length_trim_left_space])


subsection \<open>Case and searching\<close>

definition ascii_lower :: "char \<Rightarrow> char" where
  "ascii_lower c = (if 65 \<le> byte c \<and> byte c \<le> 90 then char_of (byte c + 32) else c)"

definition ascii_upper :: "char \<Rightarrow> char" where
  "ascii_upper c = (if 97 \<le> byte c \<and> byte c \<le> 122 then char_of (byte c - 32) else c)"

text \<open>\<open>strings.ToLower\<close>: the ASCII fast path, and \<open>uni\<close> for every other string.\<close>

definition to_lower :: "(string \<Rightarrow> string) \<Rightarrow> string \<Rightarrow> string" where
  "to_lower uni s = (if is_ascii s then map ascii_lower s else uni s)"

text \<open>
  \<open>strings.EqualFold\<close>: bytes are compared up to ASCII case until a byte outside ASCII is met on
  either side; from there \<open>uni\<close> compares the remaining strings by Unicode simple folding.
\<close>

fun equal_fold :: "(string \<Rightarrow> string \<Rightarrow> bool) \<Rightarrow> string \<Rightarrow> string \<Rightarrow> bool" where
  "equal_fold uni (a # s) (b # t) =
     (if 128 \<le> byte a \<or> 128 \<le> byte b then uni (a # s) (b # t)
      else ascii_lower a = ascii_lower b \<and> equal_fold uni s t)"
| "equal_fold uni s t = (s = t)"

lemma equal_fold_ascii:
  "is_ascii s \<Longrightarrow> is_ascii t \<Longrightarrow> equal_fold uni s t \<longleftrightarrow> map ascii_lower s = map ascii_lower t"
  by (induction uni s t rule: equal_fold.induct) (auto simp: is_ascii_def not_le)

definition contains_str :: "string \<Rightarrow> string \<Rightarrow> bool" where
  "contains_str s sub \<longleftrightarrow> (\<exists>t \<in> set (suffixes s). prefix sub t)"

lemma contains_str_sublist: "contains_str s sub \<longleftrightarrow> sublist sub s"
  unfolding contains_str_def sublist_altdef' set_suffixes_eq by blast

fun join_str :: "string \<Rightarrow> string list \<Rightarrow> string" where
  "join_str sep [] = []"
| "join_str sep [s] = s"
| "join_str sep (s # t # ts) = s @ sep @ join_str sep (t # ts)"


subsection \<open>Decimal numbers\<close>

definition digit_char :: "nat \<Rightarrow> char" where
  "digit_char d = char_of (48 + d)"

fun nat_str :: "nat \<Rightarrow> string" where
  "nat_str n = (if n < 10 then [digit_char n] else nat_str (n div 10) @ [digit_char (n mod 10)])"

declare nat_str.simps [simp del]

definition itoa :: "int \<Rightarrow> string" where
  "itoa n = (if n < 0 then ''-'' @ nat_str (nat (- n)) else nat_str (nat n))"

definition str_nat :: "string \<Rightarrow> nat" where
  "str_nat s = foldl (\<lambda>a c. a * 10 + (byte c - 48)) 0 s"

lemma byte_digit_char: "d < 10 \<Longrightarrow> byte (digit_char d) = 48 + d"
  by (simp add: digit_char_def)

lemma str_nat_nat_str: "str_nat (nat_str n) = n"
proof (induction n rule: nat_str.induct)
  case (1 n)
  then show ?case
    by (cases "n < 10") (simp_all add: nat_str.simps [of n] str_nat_def byte_digit_char)
qed

lemma nat_str_inj: "nat_str a = nat_str b \<longleftrightarrow> a = b"
  by (metis str_nat_nat_str)

lemma nat_str_digits: "c \<in> set (nat_str n) \<Longrightarrow> 48 \<le> byte c \<and> byte c \<le> 57"
proof (induction n rule: nat_str.induct)
  case (1 n)
  then show ?case
    by (cases "n < 10") (auto simp: nat_str.simps [of n] byte_digit_char)
qed

lemma nat_str_no_minus: "CHR ''-'' \<notin> set (nat_str n)"
  using nat_str_digits [of "CHR ''-''" n] by auto

lemma itoa_inj: "itoa a = itoa b \<longleftrightarrow> a = b"
proof
  assume eq: "itoa a = itoa b"
  show "a = b"
  proof (cases "a < 0"; cases "b < 0")
    assume "a < 0" "b < 0"
    with eq have "nat (- a) = nat (- b)" by (simp add: itoa_def nat_str_inj)
    with \<open>a < 0\<close> \<open>b < 0\<close> show ?thesis by simp
  next
    assume ab: "a < 0" "\<not> b < 0"
    with eq have "CHR ''-'' \<in> set (nat_str (nat b))" by (auto simp: itoa_def) (metis list.set_intros(1))
    then show ?thesis by (simp add: nat_str_no_minus)
  next
    assume ab: "\<not> a < 0" "b < 0"
    with eq have "CHR ''-'' \<in> set (nat_str (nat a))" by (auto simp: itoa_def)
    then show ?thesis by (simp add: nat_str_no_minus)
  next
    assume "\<not> a < 0" "\<not> b < 0"
    with eq show ?thesis by (simp add: itoa_def nat_str_inj)
  qed
qed simp


text \<open>\<open>strconv.Atoi\<close>: an optional sign and decimal digits whose value fits in 64 bits.\<close>

definition atoi :: "string \<Rightarrow> int option" where
  "atoi s =
     (let digits = (if s \<noteq> [] \<and> hd s \<in> {CHR ''-'', CHR ''+''} then tl s else s);
          n = (if s \<noteq> [] \<and> hd s = CHR ''-'' then - int (str_nat digits) else int (str_nat digits))
      in if digits \<noteq> [] \<and> list_all (\<lambda>c. 48 \<le> byte c \<and> byte c \<le> 57) digits \<and> - (2 ^ 63) \<le> n \<and> n < 2 ^ 63
         then Some n else None)"


subsection \<open>JSON text of a string map\<close>

text \<open>
  \<open>json.Marshal\<close> of a \<open>map[string]string\<close>: an object with sorted keys, the strings escaped as
  \<open>encoding/json\<close> does with HTML escaping on. It cannot fail.
\<close>

definition hex_digit :: "nat \<Rightarrow> char" where
  "hex_digit d = (if d < 10 then char_of (48 + d) else char_of (87 + d))"

definition json_byte :: "char \<Rightarrow> string" where
  "json_byte c =
     (let b = byte c in
      if b = 34 \<or> b = 92 then [CHR 0x5C, c]
      else if b = 8 then [CHR 0x5C, CHR ''b'']
      else if b = 12 then [CHR 0x5C, CHR ''f'']
      else if b = 10 then [CHR 0x5C, CHR ''n'']
      else if b = 13 then [CHR 0x5C, CHR ''r'']
      else if b = 9 then [CHR 0x5C, CHR ''t'']
      else if b < 32 \<or> b = 60 \<or> b = 62 \<or> b = 38
      then [CHR 0x5C, CHR ''u'', CHR ''0'', CHR ''0'', hex_digit (b div 16), hex_digit (b mod 16)]
      else [c])"

function json_body :: "string \<Rightarrow> string" where
  "json_body s = (if s = [] then [] else
     (case decode_valid s of
        None \<Rightarrow> CHR 0x5C # ''ufffd'' @ json_body (tl s)
      | Some (r, w) \<Rightarrow>
          (if w = 1 then json_byte (hd s)
           else if r = 0x2028 then CHR 0x5C # ''u2028''
           else if r = 0x2029 then CHR 0x5C # ''u2029''
           else take w s) @ json_body (drop w s)))"
  by pat_completeness auto
termination
  by (relation "measure length") (auto dest!: decode_valid_width)

declare json_body.simps [simp del]

definition json_string :: "string \<Rightarrow> string" where
  "json_string s = CHR 0x22 # json_body s @ [CHR 0x22]"

definition json_object :: "(string, string) gomap \<Rightarrow> string" where
  "json_object m =
     ''{'' @ join_str '','' (map (\<lambda>(k, v). json_string k @ '':'' @ json_string v) (sort_key fst m)) @ ''}''"

end
