(* ===== verification/Template.thy ===== *)
theory Template
  imports GoStrings
begin

text \<open>
  \<open>internal/variation/template.go\<close>: proxy-URL templates with \<open>{name}\<close> placeholders.

  \<open>find_all_from\<close> is the placeholder regular expression \<open>\{([^{}]*)\}\<close> scanned over the raw
  text, with byte offsets as \<open>FindAllStringSubmatchIndex\<close> reports them; \<open>ParseTemplate\<close> and
  \<open>Render\<close> follow the source's loops over those matches. The specification side is a token list:
  \<open>tokenize\<close> splits the text into literal bytes and holes and \<open>subst_tokens\<close> substitutes.
\<close>

datatype variation_error =
    TemplateEmpty | EmptyPlaceholder
  | NoValue string | RenderTooLarge
  | NoAxis string | NoPlaceholder string
  | ListNoValues string | RangeFromTo string | RangeLimit string int
  | RandomCount string | RandomLength string | RandomSpace string int int
  | UnknownKind string string | VariantsLimit int | NoVariants
  | NotFixedAxis string | DrawFailed int | RandomSource go_error

type_synonym 'a vresult = "variation_error + 'a"

definition MaxRenderedBytes :: nat where
  "MaxRenderedBytes = 8192"

record template =
  tpl_raw :: string
  tpl_names :: "string list"


subsection \<open>Placeholder matching\<close>

definition brace :: "char \<Rightarrow> bool" where
  "brace c \<longleftrightarrow> c = CHR ''{'' \<or> c = CHR ''}''"

definition slice :: "nat \<Rightarrow> nat \<Rightarrow> 'a list \<Rightarrow> 'a list" where
  "slice i j s = take (j - i) (drop i s)"

text \<open>A match at the start of the text: its group 1 and the text after it.\<close>

fun match_at :: "string \<Rightarrow> (string \<times> string) option" where
  "match_at [] = None"
| "match_at (c # s) =
     (if c = CHR ''{''
      then (case dropWhile (\<lambda>x. \<not> brace x) s of
              [] \<Rightarrow> None
            | d # r \<Rightarrow> if d = CHR ''}'' then Some (takeWhile (\<lambda>x. \<not> brace x) s, r) else None)
      else None)"

lemma match_at_Some:
  assumes "match_at s = Some (n, r)"
  shows "s = CHR ''{'' # n @ CHR ''}'' # r"
proof (cases s)
  case (Cons c t)
  have t: "takeWhile (\<lambda>x. \<not> brace x) t @ dropWhile (\<lambda>x. \<not> brace x) t = t" by simp
  from assms Cons have "c = CHR ''{''" and n: "n = takeWhile (\<lambda>x. \<not> brace x) t"
    and "dropWhile (\<lambda>x. \<not> brace x) t = CHR ''}'' # r"
    by (auto split: if_splits list.splits)
  with t Cons show ?thesis by simp
qed (use assms in simp)

declare match_at.simps(2) [simp del]

lemma match_at_length: "match_at s = Some (n, r) \<Longrightarrow> length r < length s"
  by (drule match_at_Some) simp

function find_all_from :: "nat \<Rightarrow> string \<Rightarrow> (nat \<times> nat \<times> nat \<times> nat) list" where
  "find_all_from i s = (case s of
     [] \<Rightarrow> []
   | c # s' \<Rightarrow> (case match_at s of
        None \<Rightarrow> find_all_from (Suc i) s'
      | Some (n, r) \<Rightarrow>
          (i, i + length n + 2, i + 1, i + 1 + length n) # find_all_from (i + length n + 2) r))"
  by pat_completeness auto
termination
  by (relation "measure (\<lambda>(i, s). length s)") (auto dest: match_at_length)

declare find_all_from.simps [simp del]

lemma find_all_from_Nil [simp]: "find_all_from i [] = []"
  by (simp add: find_all_from.simps)

lemma find_all_from_None:
  "match_at (c # s) = None \<Longrightarrow> find_all_from i (c # s) = find_all_from (Suc i) s"
  by (simp add: find_all_from.simps [of i "c # s"])

lemma find_all_from_Some:
  "match_at s = Some (n, r) \<Longrightarrow> find_all_from i s =
     (i, i + length n + 2, i + 1, i + 1 + length n) # find_all_from (i + length n + 2) r"
  by (subst find_all_from.simps) (cases s; simp)

definition find_all_index :: "string \<Rightarrow> (nat \<times> nat \<times> nat \<times> nat) list" where
  "find_all_index s = find_all_from 0 s"


subsection \<open>ParseTemplate and Placeholders\<close>

fun parse_names :: "string list \<Rightarrow> string list \<Rightarrow> string list vresult" where
  "parse_names seen [] = Inr []"
| "parse_names seen (m # ms) =
     (let name = trim_space m in
      if name = [] then Inl EmptyPlaceholder
      else if name \<in> set seen then parse_names seen ms
      else (case parse_names (name # seen) ms of
              Inl e \<Rightarrow> Inl e | Inr names \<Rightarrow> Inr (name # names)))"

definition ParseTemplate :: "string \<Rightarrow> template vresult" where
  "ParseTemplate raw =
     (if trim_space raw = [] then Inl TemplateEmpty
      else (case parse_names [] (map (\<lambda>(_, _, ns, ne). slice ns ne raw) (find_all_index raw)) of
              Inl e \<Rightarrow> Inl e
            | Inr names \<Rightarrow> Inr \<lparr>tpl_raw = raw, tpl_names = sort names\<rparr>))"

definition Placeholders :: "template \<Rightarrow> string list" where
  "Placeholders t = tpl_names t"


subsection \<open>Render\<close>

fun render_loop ::
  "string \<Rightarrow> (string, string) gomap \<Rightarrow> string \<Rightarrow> nat \<Rightarrow> (nat \<times> nat \<times> nat \<times> nat) list \<Rightarrow> string vresult"
where
  "render_loop raw values b lst [] =
     (let b' = b @ drop lst raw in
      if MaxRenderedBytes < length b' then Inl RenderTooLarge else Inr b')"
| "render_loop raw values b lst ((start, en, ns, ne) # ms) =
     (let b1 = b @ slice lst start raw;
          name = trim_space (slice ns ne raw)
      in case map_of values name of
           None \<Rightarrow> Inl (NoValue name)
         | Some v \<Rightarrow>
             (let b2 = b1 @ v in
              if MaxRenderedBytes < length b2 then Inl RenderTooLarge
              else render_loop raw values b2 en ms))"

definition Render :: "template \<Rightarrow> (string, string) gomap \<Rightarrow> string vresult" where
  "Render t values = render_loop (tpl_raw t) values [] 0 (find_all_index (tpl_raw t))"


subsection \<open>Specification: tokens\<close>

datatype token = Lit char | Hole string

function tokenize :: "string \<Rightarrow> token list" where
  "tokenize s = (case s of
     [] \<Rightarrow> []
   | c # s' \<Rightarrow> (case match_at s of
        None \<Rightarrow> Lit c # tokenize s'
      | Some (n, r) \<Rightarrow> Hole n # tokenize r))"
  by pat_completeness auto
termination
  by (relation "measure length") (auto dest: match_at_length)

declare tokenize.simps [simp del]

lemma tokenize_Nil [simp]: "tokenize [] = []"
  by (simp add: tokenize.simps)

lemma tokenize_None: "match_at (c # s) = None \<Longrightarrow> tokenize (c # s) = Lit c # tokenize s"
  by (simp add: tokenize.simps [of "c # s"])

lemma tokenize_Some: "match_at s = Some (n, r) \<Longrightarrow> tokenize s = Hole n # tokenize r"
  by (subst tokenize.simps) (cases s; simp)

text \<open>Scanning induction: the text is empty, starts with a byte outside a match, or with a match.\<close>

lemma scan_induct [case_names Nil Lit Hole]:
  assumes "P []"
    and "\<And>c s. match_at (c # s) = None \<Longrightarrow> P s \<Longrightarrow> P (c # s)"
    and "\<And>s n r. match_at s = Some (n, r) \<Longrightarrow> s = CHR ''{'' # n @ CHR ''}'' # r \<Longrightarrow> P r \<Longrightarrow> P s"
  shows "P s"
proof (induction s rule: length_induct)
  case (1 s)
  then have IH: "length t < length s \<Longrightarrow> P t" for t by blast
  show ?case
  proof (cases s)
    case Nil with assms(1) show ?thesis by simp
  next
    case (Cons c s')
    show ?thesis
    proof (cases "match_at s")
      case None
      with Cons IH [of s'] show ?thesis by (simp add: assms(2))
    next
      case (Some nr)
      then have m: "match_at s = Some (fst nr, snd nr)" by simp
      have "P (snd nr)" by (rule IH) (rule match_at_length [OF m])
      with m show ?thesis by (intro assms(3) [OF m match_at_Some [OF m]])
    qed
  qed
qed

fun token_text :: "token \<Rightarrow> string" where
  "token_text (Lit c) = [c]"
| "token_text (Hole n) = ''{'' @ n @ ''}''"

fun hole_names :: "token list \<Rightarrow> string list" where
  "hole_names [] = []"
| "hole_names (Lit c # ts) = hole_names ts"
| "hole_names (Hole n # ts) = trim_space n # hole_names ts"

fun subst_tokens :: "(string, string) gomap \<Rightarrow> token list \<Rightarrow> string" where
  "subst_tokens values [] = []"
| "subst_tokens values (Lit c # ts) = c # subst_tokens values ts"
| "subst_tokens values (Hole n # ts) =
     (case map_of values (trim_space n) of None \<Rightarrow> [] | Some v \<Rightarrow> v) @ subst_tokens values ts"

definition template_names :: "string \<Rightarrow> string list" where
  "template_names raw = hole_names (tokenize raw)"

lemma tokenize_text: "concat (map token_text (tokenize s)) = s"
  by (induction s rule: scan_induct) (simp_all add: tokenize_None tokenize_Some)

text \<open>
  The names the match loop reads are the names of the holes. The position of the scan is the
  length of the text \<open>pre\<close> already passed.
\<close>

lemma slice_hole: "slice (Suc (length pre)) (Suc (length pre + length n)) (pre @ c # n @ r) = n"
  by (simp add: slice_def)

lemma find_all_names:
  "map (\<lambda>(_, _, ns, ne). trim_space (slice ns ne (pre @ s))) (find_all_from (length pre) s)
     = hole_names (tokenize s)"
proof (induction s arbitrary: pre rule: scan_induct)
  case (Lit c s)
  from Lit(2) [of "pre @ [c]"] Lit(1) show ?case
    by (simp add: find_all_from_None tokenize_None)
next
  case (Hole s n r)
  let ?pre = "pre @ CHR ''{'' # n @ [CHR ''}'']"
  have "pre @ s = ?pre @ r" and "slice (length pre + 1) (length pre + 1 + length n) (pre @ s) = n"
    using Hole(2) by (simp_all add: slice_hole)
  moreover have "length ?pre = length pre + length n + 2" by simp
  ultimately show ?case using Hole(3) [of ?pre]
    by (simp only: find_all_from_Some [OF Hole(1)] tokenize_Some [OF Hole(1)] list.map split_conv
        hole_names.simps)
qed simp

lemma parse_names_spec:
  "parse_names seen ms =
     (if [] \<in> set (map trim_space ms) then Inl EmptyPlaceholder
      else Inr (dedup_from seen (map trim_space ms)))"
  by (induction seen ms rule: parse_names.induct) (auto simp: Let_def)

lemma sort_dedup: "sort (dedup_from [] xs) = sorted_list_of_set (set xs)"
  by (rule sorted_distinct_set_unique) (simp_all add: dedup_simps)


subsection \<open>Correctness of parsing\<close>

lemma match_texts:
  "map trim_space (map (\<lambda>(_, _, ns, ne). slice ns ne raw) (find_all_index raw)) = template_names raw"
  using find_all_names [of "[]" raw]
  by (simp add: find_all_index_def template_names_def comp_def case_prod_unfold)

text \<open>
  parsing is total and decided by the text alone: a blank text is refused as empty, a text with
  a blank placeholder is refused as such, and any other text parses to itself together with the
  sorted list, without duplicates, of exactly the (trimmed) names between its braces.
\<close>

theorem ParseTemplate_characterised:
  "ParseTemplate raw =
     (if trim_space raw = [] then Inl TemplateEmpty
      else if [] \<in> set (template_names raw) then Inl EmptyPlaceholder
      else Inr \<lparr>tpl_raw = raw, tpl_names = sorted_list_of_set (set (template_names raw))\<rparr>)"
  by (simp only: ParseTemplate_def parse_names_spec match_texts)
    (simp add: sort_dedup)

lemma ParseTemplate_names:
  assumes "ParseTemplate raw = Inr t"
  shows "tpl_raw t = raw" "sorted (tpl_names t)" "distinct (tpl_names t)"
    "set (tpl_names t) = set (template_names raw)"
  using assms unfolding ParseTemplate_def parse_names_spec match_texts
  by (auto simp: sort_dedup split: if_splits)


subsection \<open>Correctness of rendering\<close>

definition renders_to :: "string \<Rightarrow> (string, string) gomap \<Rightarrow> string \<Rightarrow> bool" where
  "renders_to raw values out \<longleftrightarrow>
     set (template_names raw) \<subseteq> fst ` set values
     \<and> out = subst_tokens values (tokenize raw)
     \<and> length out \<le> MaxRenderedBytes"

lemma dom_alist: "(map_of m k \<noteq> None) = (k \<in> fst ` set m)"
  by (simp add: map_of_eq_None_iff)

lemma render_loop_hole:
  "slice ns ne raw = n \<Longrightarrow> map_of values (trim_space n) = Some v \<Longrightarrow>
   render_loop raw values b lst ((start, en, ns, ne) # ms) =
     (if MaxRenderedBytes < length (b @ slice lst start raw @ v) then Inl RenderTooLarge
      else render_loop raw values (b @ slice lst start raw @ v) en ms)"
  by simp

text \<open>
  The loop invariant: the builder holds the rendering of the text before the last match, and
  \<open>drop lst pre\<close> is the literal text since then. Aborting early on the size is sound because the
  builder only grows.
\<close>

lemma render_loop_iff:
  "lst \<le> length pre \<Longrightarrow>
   render_loop (pre @ s) values b lst (find_all_from (length pre) s) = Inr out \<longleftrightarrow>
     set (hole_names (tokenize s)) \<subseteq> fst ` set values
     \<and> out = b @ drop lst pre @ subst_tokens values (tokenize s)
     \<and> length out \<le> MaxRenderedBytes"
proof (induction s arbitrary: pre b lst rule: scan_induct)
  case Nil
  then show ?case by (auto simp: Let_def)
next
  case (Lit c s)
  have "render_loop ((pre @ [c]) @ s) values b lst (find_all_from (length (pre @ [c])) s) = Inr out \<longleftrightarrow>
     set (hole_names (tokenize s)) \<subseteq> fst ` set values
     \<and> out = b @ drop lst (pre @ [c]) @ subst_tokens values (tokenize s)
     \<and> length out \<le> MaxRenderedBytes"
    by (rule Lit(2)) (use Lit(3) in simp)
  then show ?case using Lit(3) by (simp add: find_all_from_None [OF Lit(1)] tokenize_None [OF Lit(1)])
next
  case (Hole s n r)
  let ?pre = "pre @ CHR ''{'' # n @ [CHR ''}'']"
  let ?lit = "slice lst (length pre) (pre @ s)"
  have pre_s: "pre @ s = ?pre @ r"
    and name: "slice (length pre + 1) (length pre + 1 + length n) (pre @ s) = n"
    and len: "length ?pre = length pre + length n + 2"
    using Hole(2) by (simp_all add: slice_hole)
  have lit: "?lit = drop lst pre" using Hole(4) by (simp add: slice_def)
  have find: "find_all_from (length pre) s =
      (length pre, length ?pre, length pre + 1, length pre + 1 + length n) # find_all_from (length ?pre) r"
    by (simp add: find_all_from_Some [OF Hole(1)])
  show ?case
  proof (cases "map_of values (trim_space n)")
    case None
    then have "trim_space n \<notin> fst ` set values" by (simp add: map_of_eq_None_iff)
    with None show ?thesis
      unfolding find tokenize_Some [OF Hole(1)] by (simp add: name [simplified])
  next
    case (Some v)
    then have mem: "trim_space n \<in> fst ` set values" using dom_alist by fastforce
    have IH: "render_loop (pre @ s) values (b @ ?lit @ v) (length ?pre) (find_all_from (length ?pre) r) = Inr out \<longleftrightarrow>
       set (hole_names (tokenize r)) \<subseteq> fst ` set values
       \<and> out = (b @ ?lit @ v) @ drop (length ?pre) ?pre @ subst_tokens values (tokenize r)
       \<and> length out \<le> MaxRenderedBytes"
      unfolding pre_s by (rule Hole(3)) simp
    have step: "render_loop (pre @ s) values b lst (find_all_from (length pre) s) =
       (if MaxRenderedBytes < length (b @ ?lit @ v) then Inl RenderTooLarge
        else render_loop (pre @ s) values (b @ ?lit @ v) (length ?pre) (find_all_from (length ?pre) r))"
      unfolding find by (rule render_loop_hole [OF name Some])
    show ?thesis
      unfolding step tokenize_Some [OF Hole(1)] using IH mem Some lit by auto
  qed
qed

lemma Render_spec: "Render t values = Inr out \<longleftrightarrow> renders_to (tpl_raw t) values out"
  using render_loop_iff [of 0 "[]" "tpl_raw t" "values" "[]" out]
  by (simp add: Render_def find_all_index_def renders_to_def template_names_def)

lemma Render_bound: "Render t values = Inr out \<Longrightarrow> length out \<le> MaxRenderedBytes"
  by (auto simp: Render_spec renders_to_def)

text \<open>
  the incremental renderer, which aborts in the middle when the output grows too long, succeeds
  on exactly the inputs on which plain substitution does, and with the same result: every hole has a
  value and the substituted text is at most 8192 bytes.
\<close>

theorem Render_iff_subst:
  "Render t values = Inr out \<longleftrightarrow> renders_to (tpl_raw t) values out"
  by (rule Render_spec)

end
