(* ===== verification/Expand.thy ===== *)
theory Expand
  imports Template "HOL-Library.Word" "HOL-Library.Multiset"
begin

text \<open>
  \<open>internal/variation/axis.go\<close> and \<open>expand.go\<close>: parameter axes and the expansion of a template
  over them. Range bounds are Go \<open>int\<close>s, kept as 64-bit words because the source reasons about the
  wrap-around of \<open>To - From\<close> and of the range loop; counts, lengths and the variant limit are
  integers with the wrap of the running products written out. The random source \<open>rnd\<close> is a function
  on an explicit generator state \<open>'r\<close>.
\<close>

subsection \<open>Axes\<close>

definition AxisList :: string where "AxisList = ''list''"
definition AxisRange :: string where "AxisRange = ''range''"
definition AxisRandom :: string where "AxisRandom = ''random''"

lemma axis_kinds_distinct [simp]:
  "AxisList \<noteq> AxisRange" "AxisList \<noteq> AxisRandom" "AxisRange \<noteq> AxisRandom"
  "AxisRange \<noteq> AxisList" "AxisRandom \<noteq> AxisList" "AxisRandom \<noteq> AxisRange"
  by (simp_all add: AxisList_def AxisRange_def AxisRandom_def)

record axis_spec =
  ax_kind :: string
  ax_values :: "string list"
  ax_from :: "64 word"
  ax_to :: "64 word"
  ax_count :: int
  ax_length :: int

definition zero_axis :: axis_spec where
  "zero_axis = \<lparr>ax_kind = [], ax_values = [], ax_from = 0, ax_to = 0, ax_count = 0, ax_length = 0\<rparr>"

type_synonym axes = "(string, axis_spec) gomap"

text \<open>\<open>axes[name]\<close> with Go's zero value for a missing key.\<close>

definition axis_of :: "axes \<Rightarrow> string \<Rightarrow> axis_spec" where
  "axis_of axes name = (case map_of axes name of None \<Rightarrow> zero_axis | Some s \<Rightarrow> s)"

type_synonym 'r rand_string = "int \<Rightarrow> 'r \<Rightarrow> string vresult \<times> 'r"

definition randAlphabet :: string where
  "randAlphabet = ''abcdefghijklmnopqrstuvwxyz0123456789''"

definition MaxRandomLength :: int where "MaxRandomLength = 64"
definition defaultRandomLength :: int where "defaultRandomLength = 8"

text \<open>
  \<open>DefaultRandString\<close>: the length clamped to [1, 64], then one alphabet byte per draw. The draw
  \<open>rand_int\<close> is \<open>crypto/rand.Int\<close> below 36, which may fail.
\<close>

fun draw_bytes :: "('r \<Rightarrow> nat vresult \<times> 'r) \<Rightarrow> nat \<Rightarrow> 'r \<Rightarrow> string vresult \<times> 'r" where
  "draw_bytes rand_int 0 r = (Inr [], r)"
| "draw_bytes rand_int (Suc k) r =
     (case rand_int r of
        (Inl e, r') \<Rightarrow> (Inl e, r')
      | (Inr n, r') \<Rightarrow>
          (case draw_bytes rand_int k r' of
             (Inl e, r'') \<Rightarrow> (Inl e, r'')
           | (Inr s, r'') \<Rightarrow> (Inr (randAlphabet ! n # s), r'')))"

definition DefaultRandString :: "('r \<Rightarrow> nat vresult \<times> 'r) \<Rightarrow> 'r rand_string" where
  "DefaultRandString rand_int len r =
     (let length1 = (if len \<le> 0 then 8 else len);
          length2 = (if length1 > MaxRandomLength then MaxRandomLength else length1)
      in draw_bytes rand_int (nat length2) r)"


subsection \<open>Counting variants before expanding\<close>

text \<open>\<open>randomSpace\<close>: the loop over \<open>length\<close> with the running power of 36.\<close>

fun random_space_loop :: "nat \<Rightarrow> int \<Rightarrow> int \<Rightarrow> bool" where
  "random_space_loop 0 space cnt = (space \<ge> cnt)"
| "random_space_loop (Suc k) space cnt =
     (let space' = wrap64 (space * 36) in
      if space' \<ge> cnt then True else random_space_loop k space' cnt)"

definition randomSpace :: "int \<Rightarrow> int \<Rightarrow> bool" where
  "randomSpace len cnt = random_space_loop (nat len) 1 cnt"

text \<open>The size of one axis: the \<open>switch\<close> of \<open>plannedCount\<close>.\<close>

definition axis_size :: "string \<Rightarrow> axis_spec \<Rightarrow> int \<Rightarrow> int vresult" where
  "axis_size name spec maxVariants =
     (if ax_kind spec = AxisList then
        (if ax_values spec = [] then Inl (ListNoValues name) else Inr (int (length (ax_values spec))))
      else if ax_kind spec = AxisRange then
        (if sint (ax_to spec) < sint (ax_from spec) then Inl (RangeFromTo name)
         else if sint (ax_to spec - ax_from spec) < 0 \<or> sint (ax_to spec - ax_from spec) \<ge> maxVariants
         then Inl (RangeLimit name maxVariants)
         else Inr (sint (ax_to spec - ax_from spec + 1)))
      else if ax_kind spec = AxisRandom then
        (if ax_count spec < 1 then Inl (RandomCount name)
         else if ax_length spec < 0 \<or> ax_length spec > MaxRandomLength then Inl (RandomLength name)
         else (let len = (if ax_length spec \<le> 0 then defaultRandomLength else ax_length spec) in
               if \<not> randomSpace len (ax_count spec)
               then Inl (RandomSpace name (ax_count spec) len)
               else Inr (ax_count spec)))
      else Inl (UnknownKind name (ax_kind spec)))"

fun planned_loop :: "axes \<Rightarrow> int \<Rightarrow> int \<Rightarrow> string list \<Rightarrow> int vresult" where
  "planned_loop axes maxVariants tot [] = Inr tot"
| "planned_loop axes maxVariants tot (name # names) =
     (case axis_size name (axis_of axes name) maxVariants of
        Inl e \<Rightarrow> Inl e
      | Inr sz \<Rightarrow>
          if sz > maxVariants \<or> tot > go_div maxVariants sz
          then Inl (VariantsLimit maxVariants)
          else planned_loop axes maxVariants (wrap64 (tot * sz)) names)"

definition plannedCount :: "string list \<Rightarrow> axes \<Rightarrow> int \<Rightarrow> int vresult" where
  "plannedCount placeholders axes maxVariants =
     (case planned_loop axes maxVariants 1 placeholders of
        Inl e \<Rightarrow> Inl e
      | Inr tot \<Rightarrow> if tot \<le> 0 then Inl NoVariants else Inr tot)"


subsection \<open>Axis values and their product\<close>

text \<open>The range loop: append, stop at \<open>To\<close>, otherwise increment (with 64-bit wrap).\<close>

function range_values :: "64 word \<Rightarrow> 64 word \<Rightarrow> string list" where
  "range_values n hi = itoa (sint n) # (if n = hi then [] else range_values (n + 1) hi)"
  by pat_completeness auto
termination
proof (relation "measure (\<lambda>(n, hi). unat (hi - n))", goal_cases)
  case (2 n hi)
  then have "hi - n \<noteq> 0" by simp
  then have "unat (hi - n - 1) < unat (hi - n)"
    by (metis measure_unat)
  then show ?case by (simp add: algebra_simps)
qed simp

declare range_values.simps [simp del]

fun fixedAxisValues :: "string list \<Rightarrow> axes \<Rightarrow> (string, string list) gomap \<Rightarrow> (string, string list) gomap vresult" where
  "fixedAxisValues [] axes vals = Inr vals"
| "fixedAxisValues (name # names) axes vals =
     (let spec = axis_of axes name in
      if ax_kind spec = AxisList then
        (if ax_values spec = [] then Inl (ListNoValues name)
         else fixedAxisValues names axes (AList.update name (ax_values spec) vals))
      else if ax_kind spec = AxisRange then
        (if sint (ax_to spec) < sint (ax_from spec) then Inl (RangeFromTo name)
         else fixedAxisValues names axes
                (AList.update name (range_values (ax_from spec) (ax_to spec)) vals))
      else Inl (NotFixedAxis name))"

type_synonym params = "(string, string) gomap"

text \<open>\<open>values[name]\<close> of a missing name is the nil slice.\<close>

definition values_of :: "(string, string list) gomap \<Rightarrow> string \<Rightarrow> string list" where
  "values_of vals name = (case map_of vals name of None \<Rightarrow> [] | Some vs \<Rightarrow> vs)"

fun cartesian_loop :: "(string, string list) gomap \<Rightarrow> params list \<Rightarrow> string list \<Rightarrow> params list" where
  "cartesian_loop vals combos [] = combos"
| "cartesian_loop vals combos (name # names) =
     cartesian_loop vals
       (concat (map (\<lambda>base. map (\<lambda>v. AList.update name v base) (values_of vals name)) combos)) names"

definition cartesian :: "string list \<Rightarrow> (string, string list) gomap \<Rightarrow> params list" where
  "cartesian names vals = cartesian_loop vals [[]] names"


subsection \<open>Random axes\<close>

fun draw_distinct_loop ::
  "'r rand_string \<Rightarrow> int \<Rightarrow> string list \<Rightarrow> nat \<Rightarrow> 'r \<Rightarrow> string vresult \<times> 'r" where
  "draw_distinct_loop rnd len seen 0 r = (Inl (DrawFailed len), r)"
| "draw_distinct_loop rnd len seen (Suc k) r =
     (case rnd len r of
        (Inl e, r') \<Rightarrow> (Inl e, r')
      | (Inr v, r') \<Rightarrow>
          if v \<notin> set seen then (Inr v, r') else draw_distinct_loop rnd len seen k r')"

definition drawDistinct ::
  "'r rand_string \<Rightarrow> int \<Rightarrow> string list \<Rightarrow> int \<Rightarrow> 'r \<Rightarrow> string vresult \<times> 'r" where
  "drawDistinct rnd len seen maxAttempts r = draw_distinct_loop rnd len seen (nat maxAttempts) r"

text \<open>The \<open>spec.Count\<close> draws for one base combination; \<open>seen\<close> holds the values drawn so far.\<close>

fun draw_values ::
  "'r rand_string \<Rightarrow> int \<Rightarrow> int \<Rightarrow> string list \<Rightarrow> nat \<Rightarrow> 'r \<Rightarrow> string list vresult \<times> 'r" where
  "draw_values rnd len maxAttempts seen 0 r = (Inr [], r)"
| "draw_values rnd len maxAttempts seen (Suc k) r =
     (case drawDistinct rnd len seen maxAttempts r of
        (Inl e, r') \<Rightarrow> (Inl e, r')
      | (Inr v, r') \<Rightarrow>
          (case draw_values rnd len maxAttempts (v # seen) k r' of
             (Inl e, r'') \<Rightarrow> (Inl e, r'')
           | (Inr vs, r'') \<Rightarrow> (Inr (v # vs), r'')))"

fun random_bases ::
  "'r rand_string \<Rightarrow> string \<Rightarrow> axis_spec \<Rightarrow> params list \<Rightarrow> 'r \<Rightarrow> params list vresult \<times> 'r" where
  "random_bases rnd name spec [] r = (Inr [], r)"
| "random_bases rnd name spec (base # bases) r =
     (let len = (if ax_length spec \<le> 0 then defaultRandomLength else ax_length spec) in
      case draw_values rnd len (wrap64 (32 * ax_count spec)) [] (nat (ax_count spec)) r of
        (Inl e, r') \<Rightarrow> (Inl e, r')
      | (Inr vs, r') \<Rightarrow>
          (case random_bases rnd name spec bases r' of
             (Inl e, r'') \<Rightarrow> (Inl e, r'')
           | (Inr next, r'') \<Rightarrow> (Inr (map (\<lambda>v. AList.update name v base) vs @ next), r'')))"

fun random_cartesian_loop ::
  "'r rand_string \<Rightarrow> axes \<Rightarrow> params list \<Rightarrow> string list \<Rightarrow> 'r \<Rightarrow> params list vresult \<times> 'r" where
  "random_cartesian_loop rnd axes combos [] r = (Inr combos, r)"
| "random_cartesian_loop rnd axes combos (name # names) r =
     (case random_bases rnd name (axis_of axes name) combos r of
        (Inl e, r') \<Rightarrow> (Inl e, r')
      | (Inr combos', r') \<Rightarrow> random_cartesian_loop rnd axes combos' names r')"

definition randomCartesian ::
  "string list \<Rightarrow> axes \<Rightarrow> 'r rand_string \<Rightarrow> 'r \<Rightarrow> params list vresult \<times> 'r" where
  "randomCartesian names axes rnd r = random_cartesian_loop rnd axes [[]] names r"


subsection \<open>Expand\<close>

definition canonicalKey :: "params \<Rightarrow> string" where
  "canonicalKey ps = json_object ps"

record variant =
  v_params :: params
  v_cell_key :: string
  v_url :: string

text \<open>\<open>for k, v := range src { dst[k] = v }\<close>.\<close>

fun copy_into :: "('k, 'v) gomap \<Rightarrow> ('k, 'v) gomap \<Rightarrow> ('k, 'v) gomap" where
  "copy_into dst [] = dst"
| "copy_into dst ((k, v) # src) = copy_into (AList.update k v dst) src"

fun expand_combos :: "template \<Rightarrow> params \<Rightarrow> string \<Rightarrow> params list \<Rightarrow> variant list vresult" where
  "expand_combos t cell cellKey [] = Inr []"
| "expand_combos t cell cellKey (combo # combos) =
     (let ps = copy_into (copy_into [] cell) combo in
      case Render t ps of
        Inl e \<Rightarrow> Inl e
      | Inr url \<Rightarrow>
          (case expand_combos t cell cellKey combos of
             Inl e \<Rightarrow> Inl e
           | Inr vs \<Rightarrow> Inr (\<lparr>v_params = ps, v_cell_key = cellKey, v_url = url\<rparr> # vs)))"

fun expand_cells ::
  "template \<Rightarrow> axes \<Rightarrow> 'r rand_string \<Rightarrow> string list \<Rightarrow> params list \<Rightarrow> 'r \<Rightarrow> variant list vresult \<times> 'r" where
  "expand_cells t axes rnd randomNames [] r = (Inr [], r)"
| "expand_cells t axes rnd randomNames (cell # cells) r =
     (case randomCartesian randomNames axes rnd r of
        (Inl e, r') \<Rightarrow> (Inl e, r')
      | (Inr combos, r') \<Rightarrow>
          (case expand_combos t cell (canonicalKey cell) combos of
             Inl e \<Rightarrow> (Inl e, r')
           | Inr vs \<Rightarrow>
               (case expand_cells t axes rnd randomNames cells r' of
                  (Inl e, r'') \<Rightarrow> (Inl e, r'')
                | (Inr ws, r'') \<Rightarrow> (Inr (vs @ ws), r''))))"

definition fixed_names :: "template \<Rightarrow> axes \<Rightarrow> string list" where
  "fixed_names t axes = sort (filter (\<lambda>n. ax_kind (axis_of axes n) \<noteq> AxisRandom) (Placeholders t))"

definition random_names :: "template \<Rightarrow> axes \<Rightarrow> string list" where
  "random_names t axes = sort (filter (\<lambda>n. ax_kind (axis_of axes n) = AxisRandom) (Placeholders t))"

definition Expand ::
  "template \<Rightarrow> axes \<Rightarrow> 'r rand_string \<Rightarrow> int \<Rightarrow> 'r \<Rightarrow> variant list vresult \<times> 'r" where
  "Expand t axes rnd maxVariants r =
     (case find (\<lambda>n. n \<notin> fst ` set axes) (Placeholders t) of
        Some name \<Rightarrow> (Inl (NoAxis name), r)
      | None \<Rightarrow>
     (case find (\<lambda>n. n \<notin> set (Placeholders t)) (map fst axes) of
        Some name \<Rightarrow> (Inl (NoPlaceholder name), r)
      | None \<Rightarrow>
     (case plannedCount (Placeholders t) axes maxVariants of
        Inl e \<Rightarrow> (Inl e, r)
      | Inr _ \<Rightarrow>
     (case fixedAxisValues (fixed_names t axes) axes [] of
        Inl e \<Rightarrow> (Inl e, r)
      | Inr fixedValues \<Rightarrow>
          expand_cells t axes rnd (random_names t axes)
            (cartesian (fixed_names t axes) fixedValues) r))))"


subsection \<open>Sizes\<close>

text \<open>What the axis stands for: the number of values it contributes.\<close>

definition axis_count :: "axis_spec \<Rightarrow> int" where
  "axis_count spec =
     (if ax_kind spec = AxisList then int (length (ax_values spec))
      else if ax_kind spec = AxisRange then sint (ax_to spec) - sint (ax_from spec) + 1
      else ax_count spec)"

lemma sint64_bounds: "- (2 ^ 63) \<le> sint (w :: 64 word)" "sint (w :: 64 word) < 2 ^ 63"
  using sint_ge [of w] sint_lt [of w] by simp_all

lemma sint_minus64:
  fixes a b :: "64 word"
  shows "sint (a - b) = wrap64 (sint a - sint b)"
  by (simp add: sint_word_ariths wrap64_def signed_take_bit_eq_take_bit_shift take_bit_eq_mod)

lemma sint_plus64:
  fixes a b :: "64 word"
  shows "sint (a + b) = wrap64 (sint a + sint b)"
  by (simp add: sint_word_ariths wrap64_def signed_take_bit_eq_take_bit_shift take_bit_eq_mod)

lemma range_width:
  fixes a b :: "64 word"
  assumes "sint a \<le> sint b" and "0 \<le> sint (b - a)"
  shows "sint (b - a) = sint b - sint a"
proof (cases "sint b - sint a < 2 ^ 63")
  case True
  with assms(1) have "int64 (sint b - sint a)" by (simp add: int64_def)
  then show ?thesis by (simp add: sint_minus64)
next
  case False
  with sint64_bounds [of a] sint64_bounds [of b] have "sint (b - a) = sint b - sint a - 2 ^ 64"
    unfolding sint_minus64 by (intro wrap64_high) simp_all
  with assms(2) sint64_bounds [of a] sint64_bounds [of b] show ?thesis by simp
qed

lemma axis_size_ok:
  assumes "axis_size name spec maxVariants = Inr n" and "int64 maxVariants"
  shows "n = axis_count spec" and "1 \<le> n"
    and "ax_kind spec \<in> {AxisList, AxisRange, AxisRandom}"
    and "ax_kind spec = AxisRandom \<longrightarrow> 0 \<le> ax_length spec \<and> ax_length spec \<le> MaxRandomLength"
proof -
  show "ax_kind spec \<in> {AxisList, AxisRange, AxisRandom}"
    using assms by (auto simp: axis_size_def split: if_splits)
  show "ax_kind spec = AxisRandom \<longrightarrow> 0 \<le> ax_length spec \<and> ax_length spec \<le> MaxRandomLength"
    using assms by (auto simp: axis_size_def Let_def split: if_splits)
  have "n = axis_count spec \<and> 1 \<le> n"
  proof (cases "ax_kind spec = AxisRange")
    case True
    with assms have le: "sint (ax_from spec) \<le> sint (ax_to spec)"
      and d: "0 \<le> sint (ax_to spec - ax_from spec)" "sint (ax_to spec - ax_from spec) < maxVariants"
      and n: "n = sint (ax_to spec - ax_from spec + 1)"
      by (auto simp: axis_size_def split: if_splits)
    have "sint (ax_to spec - ax_from spec) + 1 = wrap64 (sint (ax_to spec - ax_from spec) + 1)"
      using d assms(2) by (intro wrap64_id [symmetric]) (simp add: int64_def)
    with n have "n = sint (ax_to spec - ax_from spec) + 1" by (simp add: sint_plus64)
    with range_width [OF le d(1)] d True show ?thesis by (simp add: axis_count_def)
  next
    case False
    with assms show ?thesis
      by (auto simp: axis_size_def axis_count_def Let_def Suc_le_eq split: if_splits)
  qed
  then show "n = axis_count spec" "1 \<le> n" by simp_all
qed

lemma planned_loop_ok:
  assumes "planned_loop axes maxVariants tot names = Inr n" and "int64 maxVariants"
    and "1 \<le> tot" and "tot \<le> maxVariants"
  shows "n = tot * prod_list (map (\<lambda>m. axis_count (axis_of axes m)) names)
     \<and> 1 \<le> n \<and> n \<le> maxVariants
     \<and> (\<forall>m \<in> set names. axis_size m (axis_of axes m) maxVariants = Inr (axis_count (axis_of axes m)))"
  using assms
proof (induction names arbitrary: tot)
  case (Cons m names)
  from Cons.prems(1) obtain sz where sz: "axis_size m (axis_of axes m) maxVariants = Inr sz"
    and small: "sz \<le> maxVariants" "tot \<le> go_div maxVariants sz"
    and rest: "planned_loop axes maxVariants (wrap64 (tot * sz)) names = Inr n"
    by (auto split: sum.splits if_splits)
  note sz_ok = axis_size_ok(1,2) [OF sz Cons.prems(2)]
  have "tot \<le> maxVariants div sz" using small sz_ok Cons.prems by (simp add: go_div_nonneg)
  then have "tot * sz \<le> maxVariants div sz * sz" using sz_ok by (intro mult_right_mono) simp_all
  also have "\<dots> \<le> maxVariants"
    using sz_ok by (metis add.commute le_add_same_cancel1 mult.commute mult_div_mod_eq
        pos_mod_sign zero_less_one order_less_le_trans)
  finally have le: "tot * sz \<le> maxVariants" .
  have ge: "1 \<le> tot * sz" using mult_mono [of 1 tot 1 sz] Cons.prems(3) sz_ok(2) by simp
  have w: "wrap64 (tot * sz) = tot * sz"
    using le ge Cons.prems(2) by (intro wrap64_id) (simp add: int64_def)
  from Cons.IH [OF rest [unfolded w] Cons.prems(2) ge le] sz sz_ok(1) show ?case
    by (simp add: mult.assoc)
qed simp

lemma plannedCount_ok:
  assumes "plannedCount names axes maxVariants = Inr n" and "int64 maxVariants" and "1 \<le> maxVariants"
  shows "n = prod_list (map (\<lambda>m. axis_count (axis_of axes m)) names)" "1 \<le> n" "n \<le> maxVariants"
    "\<forall>m \<in> set names. axis_size m (axis_of axes m) maxVariants = Inr (axis_count (axis_of axes m))"
  using assms planned_loop_ok [of axes maxVariants 1 names n]
  by (auto simp: plannedCount_def split: sum.splits if_splits)


subsection \<open>Ranges and random spaces\<close>

lemma sint_plus1:
  fixes n :: "64 word"
  assumes "sint n < 2 ^ 63 - 1"
  shows "sint (n + 1) = sint n + 1"
  using assms sint64_bounds(1) [of n] by (simp add: sint_plus64 int64_def)

lemma range_values_upto:
  "sint n \<le> sint hi \<Longrightarrow> range_values n hi = map itoa [sint n..sint hi]"
proof (induction n hi rule: range_values.induct)
  case (1 n hi)
  show ?case
  proof (cases "n = hi")
    case True then show ?thesis by (simp add: range_values.simps [of hi hi])
  next
    case False
    then have "sint n \<noteq> sint hi" using signed_word_eqI by blast
    with "1.prems" have lt: "sint n < sint hi" by simp
    with sint64_bounds(2) [of hi] have s: "sint (n + 1) = sint n + 1" by (intro sint_plus1) simp
    with lt False "1.IH" have "range_values (n + 1) hi = map itoa [sint n + 1..sint hi]" by simp
    with False lt show ?thesis by (simp add: range_values.simps [of n hi] upto_rec1)
  qed
qed

text \<open>
  a range axis with \<open>From \<le> To\<close> yields exactly the decimal numbers from \<open>From\<close> to \<open>To\<close>, in order;
  the loop ends even at the largest 64-bit integer, where incrementing past \<open>To\<close> would wrap.
\<close>

theorem range_values_exact:
  assumes "sint lo \<le> sint hi"
  shows "range_values lo hi = map itoa [sint lo..sint hi]
     \<and> int (length (range_values lo hi)) = sint hi - sint lo + 1
     \<and> distinct (range_values lo hi)"
  using assms by (simp add: range_values_upto distinct_map inj_on_def itoa_inj)

theorem range_values_exact_witness:
  "range_values 9223372036854775806 9223372036854775807 =
     [itoa 9223372036854775806, itoa 9223372036854775807]"
proof -
  have "sint (9223372036854775806 :: 64 word) \<le> sint (9223372036854775807 :: 64 word)" by simp
  from range_values_exact [OF this] show ?thesis by (simp add: upto_rec1)
qed

lemma random_space_loop_exact:
  assumes "0 < space" and "space \<le> cnt" and "cnt * 36 < 2 ^ 63"
  shows "random_space_loop k space cnt \<longleftrightarrow> cnt \<le> space * 36 ^ k"
  using assms
proof (induction k arbitrary: space)
  case (Suc k)
  have w: "wrap64 (space * 36) = space * 36"
    using Suc.prems by (intro wrap64_id) (simp add: int64_def)
  show ?case
  proof (cases "space * 36 \<ge> cnt")
    case True
    have "space * 36 * 1 \<le> space * 36 * 36 ^ k"
      using Suc.prems(1) by (intro mult_left_mono) simp_all
    with True w show ?thesis by (simp add: mult.assoc)
  next
    case False
    with w Suc.prems show ?thesis
      using Suc.IH [of "space * 36"] by (simp add: mult.assoc)
  qed
qed simp

lemma randomSpace_exact:
  "1 \<le> cnt \<Longrightarrow> cnt * 36 < 2 ^ 63 \<Longrightarrow> randomSpace len cnt \<longleftrightarrow> cnt \<le> 36 ^ nat len"
  by (simp add: randomSpace_def random_space_loop_exact)


subsection \<open>The shape of the combinations\<close>

text \<open>
  Every list of combinations the expansion builds has the same keys in the same order; \<open>combos_ok\<close>
  says so, and that no combination occurs twice.
\<close>

definition combos_ok :: "string list \<Rightarrow> params list \<Rightarrow> bool" where
  "combos_ok ks combos \<longleftrightarrow> (\<forall>c \<in> set combos. map fst c = ks) \<and> distinct combos"

lemma combos_ok_single [simp]: "combos_ok [] [[]]"
  by (simp add: combos_ok_def)

lemma update_fresh: "map fst c = ks \<Longrightarrow> k \<notin> set ks \<Longrightarrow> AList.update k v c = c @ [(k, v)]"
  by (rule update_new) (simp flip: set_map)

text \<open>One axis step: each base is extended by its own list of distinct values.\<close>

definition extend_with :: "string \<Rightarrow> (params \<times> string list) list \<Rightarrow> params list" where
  "extend_with k bs = concat (map (\<lambda>(b, vs). map (\<lambda>v. AList.update k v b) vs) bs)"

lemma extend_with_Nil [simp]: "extend_with k [] = []"
  by (simp add: extend_with_def)

lemma extend_with_Cons [simp]:
  "extend_with k ((b, vs) # bs) = map (\<lambda>v. AList.update k v b) vs @ extend_with k bs"
  by (simp add: extend_with_def)

lemma extend_with_members:
  "\<forall>b \<in> set (map fst bs). map fst b = ks \<Longrightarrow> k \<notin> set ks \<Longrightarrow>
   set (extend_with k bs) = (\<Union>(b, vs) \<in> set bs. (\<lambda>v. b @ [(k, v)]) ` set vs)"
proof (induction bs)
  case (Cons bv bs)
  obtain b vs where bv: "bv = (b, vs)" by (cases bv)
  with Cons.prems have "(\<lambda>v. AList.update k v b) ` set vs = (\<lambda>v. b @ [(k, v)]) ` set vs"
    by (intro image_cong) (simp_all add: update_fresh)
  with Cons bv show ?case by simp
qed simp

lemma combos_ok_extend:
  assumes "combos_ok ks (map fst bs)" and "k \<notin> set ks" and "\<forall>(b, vs) \<in> set bs. distinct vs"
  shows "combos_ok (ks @ [k]) (extend_with k bs)"
  using assms
proof (induction bs)
  case (Cons bv bs)
  obtain b vs where bv: "bv = (b, vs)" by (cases bv)
  from Cons.prems have keys: "\<forall>b \<in> set (map fst bs). map fst b = ks" and b: "map fst b = ks"
    and new: "b \<notin> set (map fst bs)" and vs: "distinct vs"
    by (auto simp: combos_ok_def bv)
  from Cons have IH: "combos_ok (ks @ [k]) (extend_with k bs)" by (simp add: combos_ok_def)
  have mem: "set (extend_with k bs) = (\<Union>(b, vs) \<in> set bs. (\<lambda>v. b @ [(k, v)]) ` set vs)"
    by (rule extend_with_members [OF keys Cons.prems(2)])
  have upd: "map (\<lambda>v. AList.update k v b) vs = map (\<lambda>v. b @ [(k, v)]) vs"
    using b Cons.prems(2) by (simp add: update_fresh)
  have "set (map (\<lambda>v. b @ [(k, v)]) vs) \<inter> set (extend_with k bs) = {}"
    using new unfolding mem by force
  moreover have "distinct (map (\<lambda>v. b @ [(k, v)]) vs)" using vs by (simp add: distinct_map inj_on_def)
  ultimately show ?case using IH b by (auto simp: bv upd combos_ok_def)
qed (simp add: combos_ok_def)

lemma length_extend_with: "length (extend_with k bs) = sum_list (map (length \<circ> snd) bs)"
  by (induction bs) auto

lemma length_extend_const:
  "\<forall>(b, vs) \<in> set bs. length vs = n \<Longrightarrow> length (extend_with k bs) = length bs * n"
  by (induction bs) auto

lemma cartesian_step:
  "concat (map (\<lambda>base. map (\<lambda>v. AList.update k v base) vs) combos) = extend_with k (map (\<lambda>b. (b, vs)) combos)"
  by (simp add: extend_with_def comp_def)

lemma cartesian_loop_ok:
  assumes "combos_ok ks combos" and "distinct (ks @ names)"
    and "\<forall>n \<in> set names. distinct (values_of vals n)"
  shows "combos_ok (ks @ names) (cartesian_loop vals combos names)"
  using assms
proof (induction names arbitrary: ks combos)
  case (Cons n names)
  have "combos_ok (ks @ [n]) (extend_with n (map (\<lambda>b. (b, values_of vals n)) combos))"
    using Cons.prems by (intro combos_ok_extend) (auto simp: comp_def)
  from Cons.IH [OF this] Cons.prems show ?case by (simp add: cartesian_step)
qed simp

lemma cartesian_loop_length:
  "length (cartesian_loop vals combos names)
     = length combos * prod_list (map (\<lambda>n. length (values_of vals n)) names)"
proof (induction names arbitrary: combos)
  case (Cons n names)
  have "length (extend_with n (map (\<lambda>b. (b, values_of vals n)) combos))
      = length combos * length (values_of vals n)"
    by (subst length_extend_const [of _ "length (values_of vals n)"]) auto
  then show ?case by (simp add: Cons.IH cartesian_step)
qed simp

lemma cartesian_loop_values:
  assumes "\<forall>c \<in> set combos. map fst c = ks \<and> (\<forall>(k, v) \<in> set c. v \<in> set (values_of vals k))"
    and "distinct (ks @ names)"
  shows "\<forall>c \<in> set (cartesian_loop vals combos names).
     map fst c = ks @ names \<and> (\<forall>(k, v) \<in> set c. v \<in> set (values_of vals k))"
  using assms
proof (induction names arbitrary: ks combos)
  case (Cons n names)
  let ?c = "extend_with n (map (\<lambda>b. (b, values_of vals n)) combos)"
  have "set ?c = (\<Union>(b, vs) \<in> set (map (\<lambda>b. (b, values_of vals n)) combos). (\<lambda>v. b @ [(n, v)]) ` set vs)"
    by (rule extend_with_members [of _ ks]) (use Cons.prems in auto)
  then have "\<forall>c \<in> set ?c. map fst c = ks @ [n] \<and> (\<forall>(k, v) \<in> set c. v \<in> set (values_of vals k))"
    using Cons.prems(1) by auto
  from Cons.IH [OF this] Cons.prems(2) show ?case by (simp add: cartesian_step)
qed simp


subsection \<open>Fixed axis values\<close>

definition axis_values :: "axis_spec \<Rightarrow> string list" where
  "axis_values spec =
     (if ax_kind spec = AxisList then ax_values spec
      else range_values (ax_from spec) (ax_to spec))"

lemma fixedAxisValues_ok:
  assumes "fixedAxisValues names axes vals = Inr res"
  shows "map_of res n = (if n \<in> set names then Some (axis_values (axis_of axes n)) else map_of vals n)"
    and "n \<in> set names \<Longrightarrow> ax_kind (axis_of axes n) = AxisRange \<Longrightarrow>
           sint (ax_from (axis_of axes n)) \<le> sint (ax_to (axis_of axes n))"
proof -
  have "map_of res n = (if n \<in> set names then Some (axis_values (axis_of axes n)) else map_of vals n)
      \<and> (n \<in> set names \<longrightarrow> ax_kind (axis_of axes n) = AxisRange \<longrightarrow>
           sint (ax_from (axis_of axes n)) \<le> sint (ax_to (axis_of axes n)))"
    using assms
    by (induction names axes vals rule: fixedAxisValues.induct)
      (auto simp: Let_def axis_values_def AList.update_conv' split: if_splits)
  then show "map_of res n = (if n \<in> set names then Some (axis_values (axis_of axes n)) else map_of vals n)"
    and "n \<in> set names \<Longrightarrow> ax_kind (axis_of axes n) = AxisRange \<Longrightarrow>
           sint (ax_from (axis_of axes n)) \<le> sint (ax_to (axis_of axes n))"
    by blast+
qed

lemma length_axis_values:
  assumes "axis_size name spec maxVariants = Inr (axis_count spec)" and "ax_kind spec \<noteq> AxisRandom"
  shows "int (length (axis_values spec)) = axis_count spec"
  using assms
  by (auto simp: axis_size_def axis_count_def axis_values_def range_values_upto split: if_splits)

lemma distinct_axis_values:
  assumes "axis_size name spec maxVariants = Inr n"
    and "ax_kind spec = AxisList \<longrightarrow> distinct (ax_values spec)" and "ax_kind spec \<noteq> AxisRandom"
  shows "distinct (axis_values spec)"
  using assms
  by (auto simp: axis_size_def axis_values_def range_values_upto distinct_map inj_on_def itoa_inj
      split: if_splits)


subsection \<open>Random draws\<close>

lemma draw_distinct_loop_ok: "draw_distinct_loop rnd len seen k r = (Inr v, r') \<Longrightarrow> v \<notin> set seen"
  by (induction k arbitrary: r) (auto split: prod.splits sum.splits if_splits)

lemma drawDistinct_ok: "drawDistinct rnd len seen maxAttempts r = (Inr v, r') \<Longrightarrow> v \<notin> set seen"
  unfolding drawDistinct_def by (rule draw_distinct_loop_ok)

lemma draw_values_ok:
  "draw_values rnd len maxAttempts seen k r = (Inr vs, r') \<Longrightarrow>
   length vs = k \<and> distinct vs \<and> set vs \<inter> set seen = {}"
proof (induction rnd len maxAttempts seen k r arbitrary: vs r' rule: draw_values.induct)
  case (2 rnd len maxAttempts seen k r)
  from "2.prems" obtain v r1 ws where d: "drawDistinct rnd len seen maxAttempts r = (Inr v, r1)"
    and rest: "draw_values rnd len maxAttempts (v # seen) k r1 = (Inr ws, r')" and vs: "vs = v # ws"
    by (auto split: prod.splits sum.splits)
  from "2.IH" [OF d [symmetric] refl rest] drawDistinct_ok [OF d] vs show ?case by auto
qed auto

lemma random_bases_ok:
  "random_bases rnd name spec bases r = (Inr combos, r') \<Longrightarrow>
   \<exists>bs. map fst bs = bases \<and> (\<forall>(b, vs) \<in> set bs. distinct vs \<and> length vs = nat (ax_count spec))
        \<and> combos = extend_with name bs"
proof (induction rnd name spec bases r arbitrary: combos r' rule: random_bases.induct)
  case (2 rnd name spec base bases r)
  let ?len = "if ax_length spec \<le> 0 then defaultRandomLength else ax_length spec"
  from "2.prems" obtain vs r1 nxt
    where d: "draw_values rnd ?len (wrap64 (32 * ax_count spec)) [] (nat (ax_count spec)) r = (Inr vs, r1)"
    and rest: "random_bases rnd name spec bases r1 = (Inr nxt, r')"
    and c: "combos = map (\<lambda>v. AList.update name v base) vs @ nxt"
    by (auto simp: Let_def split: prod.splits sum.splits)
  from "2.IH" [OF refl d [symmetric] refl rest] obtain bs where
    bs: "map fst bs = bases" "\<forall>(b, vs) \<in> set bs. distinct vs \<and> length vs = nat (ax_count spec)"
      "nxt = extend_with name bs" by blast
  from draw_values_ok [OF d] bs c show ?case
    by (intro exI [of _ "(base, vs) # bs"]) auto
qed simp

lemma random_cartesian_loop_ok:
  assumes "random_cartesian_loop rnd axes combos names r = (Inr res, r')"
    and "combos_ok ks combos" and "distinct (ks @ names)"
  shows "combos_ok (ks @ names) res
     \<and> length res = length combos * prod_list (map (\<lambda>n. nat (ax_count (axis_of axes n))) names)"
  using assms
proof (induction names arbitrary: combos ks r)
  case (Cons n names)
  from Cons.prems(1) obtain c1 r1 where b: "random_bases rnd n (axis_of axes n) combos r = (Inr c1, r1)"
    and rest: "random_cartesian_loop rnd axes c1 names r1 = (Inr res, r')"
    by (auto split: prod.splits sum.splits)
  from random_bases_ok [OF b] obtain bs where bs: "map fst bs = combos"
    and vs: "\<forall>(b, vs) \<in> set bs. distinct vs \<and> length vs = nat (ax_count (axis_of axes n))"
    and c1: "c1 = extend_with n bs" by blast
  have "combos_ok (ks @ [n]) c1"
    unfolding c1 using bs vs Cons.prems by (intro combos_ok_extend) auto
  moreover have "length c1 = length combos * nat (ax_count (axis_of axes n))"
    unfolding c1 using vs bs [symmetric] by (subst length_extend_const) auto
  ultimately show ?case using Cons.IH [OF rest, of "ks @ [n]"] Cons.prems by simp
qed simp


subsection \<open>Putting cells and combinations together\<close>

lemma copy_into_fresh: "distinct (map fst (dst @ src)) \<Longrightarrow> copy_into dst src = dst @ src"
  by (induction dst src rule: copy_into.induct) (auto simp: update_new)

lemma expand_combos_ok:
  assumes "expand_combos t cell key combos = Inr vs"
  shows "map v_params vs = map (copy_into (copy_into [] cell)) combos
     \<and> (\<forall>v \<in> set vs. v_cell_key v = key \<and> Render t (v_params v) = Inr (v_url v))"
  using assms
  by (induction combos arbitrary: vs) (auto simp: Let_def split: sum.splits)

definition variant_of :: "template \<Rightarrow> string list \<Rightarrow> params \<Rightarrow> variant \<Rightarrow> bool" where
  "variant_of t rn cell v \<longleftrightarrow>
     v_cell_key v = canonicalKey cell \<and> Render t (v_params v) = Inr (v_url v)
     \<and> (\<exists>combo. map fst combo = rn \<and> v_params v = cell @ combo)"

lemma cell_variants_ok:
  assumes combos: "combos_ok rn combos" and cell: "map fst cell = fx" and d: "distinct (fx @ rn)"
    and e: "expand_combos t cell (canonicalKey cell) combos = Inr vs"
  shows "map v_params vs = map ((@) cell) combos \<and> (\<forall>v \<in> set vs. variant_of t rn cell v)"
proof -
  have copy: "copy_into (copy_into [] cell) c = cell @ c" if "c \<in> set combos" for c
    using that combos cell d by (simp add: copy_into_fresh combos_ok_def)
  from expand_combos_ok [OF e] have ps: "map v_params vs = map ((@) cell) combos"
    and vs: "\<forall>v \<in> set vs. v_cell_key v = canonicalKey cell \<and> Render t (v_params v) = Inr (v_url v)"
    using copy by (simp_all cong: map_cong)
  have "v_params v \<in> (@) cell ` set combos" if "v \<in> set vs" for v
    using ps that by (metis image_eqI list.set_map)
  then have "\<exists>combo. map fst combo = rn \<and> v_params v = cell @ combo" if "v \<in> set vs" for v
    using that combos by (force simp: combos_ok_def)
  with ps vs show ?thesis by (simp add: variant_of_def)
qed

text \<open>
  Without any assumption on the values of the list axes (which may repeat), only the number of
  variants and the shape of each one are known; with distinct cells the variants are distinct.
\<close>

lemma randomCartesian_ok:
  assumes "randomCartesian rn axes rnd r = (Inr combos, r')" and "distinct rn"
  shows "combos_ok rn combos" and "length combos = prod_list (map (\<lambda>n. nat (ax_count (axis_of axes n))) rn)"
  using random_cartesian_loop_ok [of rnd axes "[[]]" rn r combos r' "[]"] assms
  by (simp_all add: randomCartesian_def)

lemma random_cartesian_loop_length:
  "random_cartesian_loop rnd axes combos names r = (Inr res, r') \<Longrightarrow>
   length res = length combos * prod_list (map (\<lambda>n. nat (ax_count (axis_of axes n))) names)"
proof (induction names arbitrary: combos r)
  case (Cons n names)
  from Cons.prems obtain c1 r1 where b: "random_bases rnd n (axis_of axes n) combos r = (Inr c1, r1)"
    and rest: "random_cartesian_loop rnd axes c1 names r1 = (Inr res, r')"
    by (auto split: prod.splits sum.splits)
  from random_bases_ok [OF b] obtain bs where bs: "map fst bs = combos"
    and vs: "\<forall>(b, vs) \<in> set bs. length vs = nat (ax_count (axis_of axes n))"
    and c1: "c1 = extend_with n bs" by blast
  have "length c1 = length combos * nat (ax_count (axis_of axes n))"
    unfolding c1 using vs bs [symmetric] by (subst length_extend_const) auto
  with Cons.IH [OF rest] show ?case by simp
qed simp

lemma expand_cells_length:
  "expand_cells t axes rnd rn cells r = (Inr vs, r') \<Longrightarrow>
   length vs = length cells * prod_list (map (\<lambda>n. nat (ax_count (axis_of axes n))) rn)"
proof (induction cells arbitrary: r vs)
  case (Cons cell cells)
  from Cons.prems obtain combos r1 vs1 ws
    where rc: "randomCartesian rn axes rnd r = (Inr combos, r1)"
    and e: "expand_combos t cell (canonicalKey cell) combos = Inr vs1"
    and rest: "expand_cells t axes rnd rn cells r1 = (Inr ws, r')" and vs: "vs = vs1 @ ws"
    by (auto split: prod.splits sum.splits)
  have "length vs1 = length combos" using expand_combos_ok [OF e] by (metis length_map)
  moreover have "length combos = prod_list (map (\<lambda>n. nat (ax_count (axis_of axes n))) rn)"
    using random_cartesian_loop_length [of rnd axes "[[]]" rn r] rc by (simp add: randomCartesian_def)
  ultimately show ?case using Cons.IH [OF rest] vs by simp
qed simp

lemma expand_cells_variants:
  assumes "expand_cells t axes rnd rn cells r = (Inr vs, r')"
    and "\<forall>c \<in> set cells. map fst c = fx" and "distinct (fx @ rn)"
  shows "\<forall>v \<in> set vs. \<exists>cell \<in> set cells. variant_of t rn cell v"
  using assms
proof (induction cells arbitrary: r vs)
  case (Cons cell cells)
  from Cons.prems(1) obtain combos r1 vs1 ws
    where rc: "randomCartesian rn axes rnd r = (Inr combos, r1)"
    and e: "expand_combos t cell (canonicalKey cell) combos = Inr vs1"
    and rest: "expand_cells t axes rnd rn cells r1 = (Inr ws, r')" and vs: "vs = vs1 @ ws"
    by (auto split: prod.splits sum.splits)
  have "combos_ok rn combos" using rc Cons.prems(3) by (intro randomCartesian_ok(1)) auto
  from cell_variants_ok [OF this _ Cons.prems(3) e] Cons.prems(2) Cons.IH [OF rest _ Cons.prems(3)]
  show ?case by (auto simp: vs)
qed simp

lemma expand_cells_distinct:
  assumes "expand_cells t axes rnd rn cells r = (Inr vs, r')"
    and "combos_ok fx cells" and "distinct (fx @ rn)"
  shows "distinct (map v_params vs)"
  using assms
proof (induction cells arbitrary: r vs)
  case (Cons cell cells)
  from Cons.prems(1) obtain combos r1 vs1 ws
    where rc: "randomCartesian rn axes rnd r = (Inr combos, r1)"
    and e: "expand_combos t cell (canonicalKey cell) combos = Inr vs1"
    and rest: "expand_cells t axes rnd rn cells r1 = (Inr ws, r')" and vs: "vs = vs1 @ ws"
    by (auto split: prod.splits sum.splits)
  have cell: "map fst cell = fx" and new: "cell \<notin> set cells" and tl: "combos_ok fx cells"
    using Cons.prems(2) by (auto simp: combos_ok_def)
  have c: "combos_ok rn combos" using rc Cons.prems(3) by (intro randomCartesian_ok(1)) auto
  note here = cell_variants_ok [OF c cell Cons.prems(3) e]
  have later: "\<forall>v \<in> set ws. \<exists>cell \<in> set cells. variant_of t rn cell v"
    using tl by (intro expand_cells_variants [OF rest _ Cons.prems(3)]) (simp add: combos_ok_def)
  have d1: "distinct (map v_params vs1)" using here c by (simp add: combos_ok_def distinct_map inj_on_def)
  have "v_params v \<noteq> v_params w" if v: "v \<in> set vs1" and w: "w \<in> set ws" for v w
  proof
    assume eq: "v_params v = v_params w"
    from here v obtain c1 where c1: "v_params v = cell @ c1" by (auto simp: variant_of_def)
    from later w obtain cell' c2 where cell': "cell' \<in> set cells" "v_params w = cell' @ c2"
      by (auto simp: variant_of_def)
    with tl cell have "length cell = length cell'" by (metis combos_ok_def length_map)
    with eq c1 cell' have "cell = cell'" by simp
    with new cell' show False by simp
  qed
  with d1 Cons.IH [OF rest tl Cons.prems(3)] show ?case by (auto simp: vs)
qed simp


subsection \<open>Correctness of the expansion\<close>

text \<open>The intermediate values of a successful expansion.\<close>

lemma Expand_steps:
  assumes "Expand t axes rnd maxVariants r = (Inr vs, r')"
  obtains n fixedValues where "set (Placeholders t) = fst ` set axes"
    and "plannedCount (Placeholders t) axes maxVariants = Inr n"
    and "fixedAxisValues (fixed_names t axes) axes [] = Inr fixedValues"
    and "expand_cells t axes rnd (random_names t axes) (cartesian (fixed_names t axes) fixedValues) r = (Inr vs, r')"
proof -
  from assms have "\<forall>n \<in> set (Placeholders t). n \<in> fst ` set axes"
    and "\<forall>n \<in> fst ` set axes. n \<in> set (Placeholders t)"
    by (auto simp: Expand_def find_None_iff find_Some_iff split: option.splits)
  then have names: "set (Placeholders t) = fst ` set axes" by blast
  from assms obtain n fv where
    "plannedCount (Placeholders t) axes maxVariants = Inr n"
    and "fixedAxisValues (fixed_names t axes) axes [] = Inr fv"
    and "expand_cells t axes rnd (random_names t axes) (cartesian (fixed_names t axes) fv) r = (Inr vs, r')"
    by (auto simp: Expand_def split: option.splits sum.splits)
  from that [OF names this] show thesis .
qed

lemma names_partition:
  "set (fixed_names t axes) = {n \<in> set (Placeholders t). ax_kind (axis_of axes n) \<noteq> AxisRandom}"
  "set (random_names t axes) = {n \<in> set (Placeholders t). ax_kind (axis_of axes n) = AxisRandom}"
  "distinct (Placeholders t) \<Longrightarrow> distinct (fixed_names t axes @ random_names t axes)"
  "set (fixed_names t axes @ random_names t axes) = set (Placeholders t)"
  by (auto simp: fixed_names_def random_names_def)

lemma prod_list_mset: "mset xs = mset ys \<Longrightarrow> prod_list (map f xs) = prod_list (map (f :: _ \<Rightarrow> int) ys)"
  by (metis mset_map prod_mset_prod_list)

lemma prod_names:
  "prod_list (map (f :: _ \<Rightarrow> int) (fixed_names t axes)) * prod_list (map f (random_names t axes))
     = prod_list (map f (Placeholders t))"
proof -
  have "mset (fixed_names t axes @ random_names t axes) = mset (Placeholders t)"
    using multiset_partition [of "mset (Placeholders t)" "\<lambda>n. ax_kind (axis_of axes n) \<noteq> AxisRandom"]
    by (simp add: fixed_names_def random_names_def)
  from prod_list_mset [OF this, of f] show ?thesis by simp
qed

lemma int_prod_list: "int (prod_list xs) = prod_list (map int xs)"
  by (induction xs) simp_all

lemma Expand_cartesian:
  assumes e: "Expand t axes rnd maxVariants r = (Inr vs, r')" and d: "distinct (Placeholders t)"
    and m: "int64 maxVariants" "1 \<le> maxVariants"
    and f: "fixedAxisValues (fixed_names t axes) axes [] = Inr fv"
  shows "int (length (cartesian (fixed_names t axes) fv))
           = prod_list (map (\<lambda>n. axis_count (axis_of axes n)) (fixed_names t axes))"
    and "\<forall>n \<in> set (fixed_names t axes). values_of fv n = axis_values (axis_of axes n)"
    and "\<forall>c \<in> set (cartesian (fixed_names t axes) fv). map fst c = fixed_names t axes
           \<and> (\<forall>(k, v) \<in> set c. v \<in> set (axis_values (axis_of axes k)))"
proof -
  from Expand_steps [OF e] obtain n where
    "plannedCount (Placeholders t) axes maxVariants = Inr n" by blast
  note sizes = plannedCount_ok(4) [OF this m]
  show vals: "\<forall>n \<in> set (fixed_names t axes). values_of fv n = axis_values (axis_of axes n)"
    by (simp add: values_of_def fixedAxisValues_ok(1) [OF f])
  have "int (length (values_of fv n)) = axis_count (axis_of axes n)" if "n \<in> set (fixed_names t axes)" for n
    using vals that sizes by (auto simp: names_partition intro!: length_axis_values)
  then show "int (length (cartesian (fixed_names t axes) fv))
           = prod_list (map (\<lambda>n. axis_count (axis_of axes n)) (fixed_names t axes))"
    by (simp add: cartesian_def cartesian_loop_length int_prod_list comp_def cong: map_cong)
  have df: "distinct (fixed_names t axes)" using names_partition(3) [OF d] by simp
  from cartesian_loop_values [of "[[]]" "[]" fv "fixed_names t axes"] df
  have "\<forall>c \<in> set (cartesian (fixed_names t axes) fv). map fst c = fixed_names t axes
           \<and> (\<forall>(k, v) \<in> set c. v \<in> set (values_of fv k))" by (simp add: cartesian_def)
  then show "\<forall>c \<in> set (cartesian (fixed_names t axes) fv). map fst c = fixed_names t axes
           \<and> (\<forall>(k, v) \<in> set c. v \<in> set (axis_values (axis_of axes k)))"
  proof (intro ballI conjI)
    fix c kv
    assume all: "\<forall>c \<in> set (cartesian (fixed_names t axes) fv). map fst c = fixed_names t axes
           \<and> (\<forall>(k, v) \<in> set c. v \<in> set (values_of fv k))"
      and c: "c \<in> set (cartesian (fixed_names t axes) fv)"
    then show keys: "map fst c = fixed_names t axes" by blast
    assume kv: "kv \<in> set c"
    then have "fst kv \<in> set (fixed_names t axes)" unfolding keys [symmetric] by simp
    with all c kv vals show "case kv of (k, v) \<Rightarrow> v \<in> set (axis_values (axis_of axes k))" by fastforce
  qed
qed


text \<open>
  a successful expansion produces exactly the product of the axis sizes, never nothing and never
  more than the variant limit; the running product cannot overflow 64 bits on the way.
\<close>

theorem Expand_counts:
  assumes "ParseTemplate raw = Inr t" and "Expand t axes rnd maxVariants r = (Inr vs, r')"
    and "int64 maxVariants" and "1 \<le> maxVariants"
  shows "int (length vs) = prod_list (map (\<lambda>n. axis_count (axis_of axes n)) (Placeholders t))
     \<and> 1 \<le> length vs \<and> int (length vs) \<le> maxVariants"
proof -
  have d: "distinct (Placeholders t)" using ParseTemplate_names(3) [OF assms(1)] by (simp add: Placeholders_def)
  from Expand_steps [OF assms(2)] obtain n fv where
    n: "plannedCount (Placeholders t) axes maxVariants = Inr n"
    and f: "fixedAxisValues (fixed_names t axes) axes [] = Inr fv"
    and c: "expand_cells t axes rnd (random_names t axes) (cartesian (fixed_names t axes) fv) r = (Inr vs, r')" .
  note sizes = plannedCount_ok [OF n assms(3,4)]
  have "length vs = length (cartesian (fixed_names t axes) fv)
      * prod_list (map (\<lambda>n. nat (ax_count (axis_of axes n))) (random_names t axes))"
    by (rule expand_cells_length [OF c])
  moreover have "int (nat (ax_count (axis_of axes m))) = axis_count (axis_of axes m)"
    if "m \<in> set (random_names t axes)" for m
  proof -
    from that have "m \<in> set (Placeholders t)" and k: "ax_kind (axis_of axes m) = AxisRandom"
      by (simp_all add: names_partition)
    with sizes(4) have "axis_size m (axis_of axes m) maxVariants = Inr (axis_count (axis_of axes m))" by blast
    from axis_size_ok(2) [OF this assms(3)] k show ?thesis by (simp add: axis_count_def)
  qed
  ultimately have "int (length vs) = prod_list (map (\<lambda>n. axis_count (axis_of axes n)) (fixed_names t axes))
      * prod_list (map (\<lambda>n. axis_count (axis_of axes n)) (random_names t axes))"
    by (simp add: Expand_cartesian(1) [OF assms(2) d assms(3,4) f] int_prod_list comp_def cong: map_cong)
  then have "int (length vs) = n" by (simp add: prod_names sizes(1))
  with sizes show ?thesis by simp
qed

text \<open>
  C37: every variant assigns a value to exactly the placeholders of the template; its URL is the
  template with those values substituted; a value of a list or range axis is one of the axis's
  values; and its cell key is the canonical JSON of its non-random parameters.
\<close>

theorem Expand_variants:
  assumes "ParseTemplate raw = Inr t" and "Expand t axes rnd maxVariants r = (Inr vs, r')"
    and "int64 maxVariants" and "1 \<le> maxVariants" and "v \<in> set vs"
  shows "fst ` set (v_params v) = set (Placeholders t) \<and> gomap (v_params v)
     \<and> renders_to raw (v_params v) (v_url v)
     \<and> (\<exists>cell combo. v_params v = cell @ combo \<and> v_cell_key v = canonicalKey cell
          \<and> map fst cell = fixed_names t axes
          \<and> (\<forall>(k, x) \<in> set cell. x \<in> set (axis_values (axis_of axes k))))"
proof -
  have d: "distinct (Placeholders t)" using ParseTemplate_names(3) [OF assms(1)] by (simp add: Placeholders_def)
  from Expand_steps [OF assms(2)] obtain n fv where
    f: "fixedAxisValues (fixed_names t axes) axes [] = Inr fv"
    and c: "expand_cells t axes rnd (random_names t axes) (cartesian (fixed_names t axes) fv) r = (Inr vs, r')" .
  note cells = Expand_cartesian(3) [OF assms(2) d assms(3,4) f]
  from expand_cells_variants [OF c _ names_partition(3) [OF d]] cells assms(5)
  obtain cell where cell: "cell \<in> set (cartesian (fixed_names t axes) fv)"
    and v: "variant_of t (random_names t axes) cell v" by blast
  then obtain combo where ps: "v_params v = cell @ combo" and combo: "map fst combo = random_names t axes"
    by (auto simp: variant_of_def)
  have keys: "map fst (v_params v) = fixed_names t axes @ random_names t axes"
    using ps combo cells cell by simp
  have "fst ` set (v_params v) = set (Placeholders t)"
    unfolding names_partition(4) [symmetric, of t axes] keys [symmetric] by simp
  moreover have "gomap (v_params v)"
    unfolding gomap_def keys by (rule names_partition(3) [OF d])
  moreover have "renders_to raw (v_params v) (v_url v)"
    using v ParseTemplate_names(1) [OF assms(1)] by (simp add: variant_of_def Render_spec)
  ultimately show ?thesis using ps v cells cell unfolding variant_of_def by blast
qed

text \<open>
  when no list axis repeats a value, the variants are pairwise different assignments of the
  placeholders, so one run never holds two sessions with the same parameters.
\<close>

theorem Expand_distinct:
  assumes "ParseTemplate raw = Inr t" and "Expand t axes rnd maxVariants r = (Inr vs, r')"
    and "int64 maxVariants" and "1 \<le> maxVariants"
    and "\<forall>(n, spec) \<in> set axes. ax_kind spec = AxisList \<longrightarrow> distinct (ax_values spec)"
  shows "distinct (map v_params vs)"
proof -
  have d: "distinct (Placeholders t)" using ParseTemplate_names(3) [OF assms(1)] by (simp add: Placeholders_def)
  from Expand_steps [OF assms(2)] obtain n fv where
    n: "plannedCount (Placeholders t) axes maxVariants = Inr n"
    and f: "fixedAxisValues (fixed_names t axes) axes [] = Inr fv"
    and c: "expand_cells t axes rnd (random_names t axes) (cartesian (fixed_names t axes) fv) r = (Inr vs, r')" .
  have "distinct (values_of fv m)" if m: "m \<in> set (fixed_names t axes)" for m
  proof -
    have lists: "ax_kind (axis_of axes m) = AxisList \<longrightarrow> distinct (ax_values (axis_of axes m))"
      using assms(5) by (auto simp: axis_of_def zero_axis_def split: option.splits dest!: map_of_SomeD)
    from m plannedCount_ok(4) [OF n assms(3,4)]
    have "distinct (axis_values (axis_of axes m))"
      by (intro distinct_axis_values [OF _ lists]) (auto simp: names_partition)
    with Expand_cartesian(2) [OF assms(2) d assms(3,4) f] m show ?thesis by simp
  qed
  then have "combos_ok (fixed_names t axes) (cartesian (fixed_names t axes) fv)"
    using cartesian_loop_ok [of "[]" "[[]]" "fixed_names t axes" fv] names_partition(3) [OF d, of axes]
    by (simp add: cartesian_def)
  from expand_cells_distinct [OF c this names_partition(3) [OF d]] show ?thesis .
qed

subsection \<open>A concrete expansion\<close>

definition demo_axes :: axes where
  "demo_axes = [(''a'', zero_axis\<lparr>ax_kind := AxisList, ax_values := [''x'', ''y'']\<rparr>)]"

definition demo_rand :: "nat rand_string" where
  "demo_rand len r = (Inr (itoa (int r)), Suc r)"

lemma demo_parse: "ParseTemplate ''h{a}'' = Inr \<lparr>tpl_raw = ''h{a}'', tpl_names = [''a'']\<rparr>"
  by (simp add: ParseTemplate_def trim_space_visible visible_def find_all_index_def find_all_from.simps match_at.simps
      brace_def Template.slice_def)

lemma demo_expand:
  "Expand \<lparr>tpl_raw = ''h{a}'', tpl_names = [''a'']\<rparr> demo_axes demo_rand 5 0 =
     (Inr [\<lparr>v_params = [(''a'', ''x'')], v_cell_key = canonicalKey [(''a'', ''x'')], v_url = ''hx''\<rparr>,
           \<lparr>v_params = [(''a'', ''y'')], v_cell_key = canonicalKey [(''a'', ''y'')], v_url = ''hy''\<rparr>], 0)"
  by (simp add: Expand_def demo_axes_def Placeholders_def plannedCount_def axis_size_def axis_of_def
      go_div_def int64_def cartesian_def values_of_def fixed_names_def random_names_def Let_def
      randomCartesian_def Render_def trim_space_visible visible_def find_all_index_def find_all_from.simps match_at.simps
      brace_def Template.slice_def MaxRenderedBytes_def)

theorem Expand_counts_witness: "(2::int) = prod_list (map (\<lambda>n. axis_count (axis_of demo_axes n)) [''a''])"
  using Expand_counts [OF demo_parse demo_expand] by (simp add: int64_def Placeholders_def)

theorem Expand_variants_witness: "renders_to ''h{a}'' [(''a'', ''y'')] ''hy''"
proof -
  let ?v = "\<lparr>v_params = [(''a'', ''y'')], v_cell_key = canonicalKey [(''a'', ''y'')], v_url = ''hy''\<rparr>"
  have "int64 5" "(1::int) \<le> 5" by (simp_all add: int64_def)
  from Expand_variants [OF demo_parse demo_expand this, of ?v] show ?thesis by simp
qed

theorem Expand_distinct_witness: "distinct [[(''a'', ''x'')], [(''a'', ''y'')]]"
proof -
  have "int64 5" "(1::int) \<le> 5" by (simp_all add: int64_def)
  from Expand_distinct [OF demo_parse demo_expand this] show ?thesis by (simp add: demo_axes_def)
qed

end
