(* ===== verification/GoNet.thy ===== *)
theory GoNet
  imports GoStrings "HOL-Library.Word"
begin

text \<open>
  \<open>net/netip.Addr\<close> as the program uses it: comparable addresses (map keys and database keys), the
  total order of \<open>Addr.Compare\<close>, \<open>Unmap\<close>, the textual form of \<open>Addr.String\<close>, and \<open>ParseAddr\<close>. \<open>NoAddr\<close> is the
  zero \<open>Addr\<close>; a zone-less IPv6 address has the zone \<open>[]\<close>.
\<close>

subsection \<open>Addresses and their order\<close>

datatype addr = NoAddr | V4 "32 word" | V6 "128 word" string

fun bit_len :: "addr \<Rightarrow> nat" where
  "bit_len NoAddr = 0"
| "bit_len (V4 w) = 32"
| "bit_len (V6 w z) = 128"

definition is_valid :: "addr \<Rightarrow> bool" where
  "is_valid a \<longleftrightarrow> a \<noteq> NoAddr"

text \<open>The key \<open>Addr.Compare\<close> orders by: bit length, then the number, then the zone bytewise.\<close>

fun addr_key :: "addr \<Rightarrow> nat list" where
  "addr_key NoAddr = [0, 0]"
| "addr_key (V4 w) = [32, unat w]"
| "addr_key (V6 w z) = 128 # unat w # map of_char z"

lemma addr_key_inj [simp]: "addr_key a = addr_key b \<longleftrightarrow> a = b"
proof -
  have z: "map (of_char :: char \<Rightarrow> nat) x = map of_char y \<longleftrightarrow> x = y" for x y
    by (rule inj_map_eq_map) (simp add: inj_on_def)
  show ?thesis by (cases a; cases b) (auto simp: z intro: unsigned_word_eqI)
qed

instantiation addr :: linorder
begin

definition less_eq_addr :: "addr \<Rightarrow> addr \<Rightarrow> bool" where
  "less_eq_addr a b \<longleftrightarrow> addr_key a \<le> addr_key b"

definition less_addr :: "addr \<Rightarrow> addr \<Rightarrow> bool" where
  "less_addr a b \<longleftrightarrow> addr_key a < addr_key b"

instance
  by standard (auto simp: less_eq_addr_def less_addr_def order.strict_iff_not)

end

lemma addr_less_bit_len: "bit_len a < bit_len b \<Longrightarrow> a < b"
  by (cases a; cases b) (simp_all add: less_addr_def)


subsection \<open>IPv4-mapped addresses\<close>

definition is_4in6 :: "addr \<Rightarrow> bool" where
  "is_4in6 a = (case a of V6 w _ \<Rightarrow> drop_bit 32 w = 0xffff | _ \<Rightarrow> False)"

definition unmap :: "addr \<Rightarrow> addr" where
  "unmap a = (case a of V6 w _ \<Rightarrow> if is_4in6 a then V4 (ucast w) else a | _ \<Rightarrow> a)"

lemma unmap_simps [simp]: "unmap NoAddr = NoAddr" "unmap (V4 w) = V4 w"
  by (simp_all add: unmap_def)

lemma unmap_not_4in6 [simp]: "\<not> is_4in6 (unmap a)"
  by (cases a) (simp_all add: unmap_def is_4in6_def)

lemma unmap_idem [simp]: "unmap (unmap a) = unmap a"
  by (cases a) (simp_all add: unmap_def is_4in6_def)

lemma unmap_NoAddr [simp]: "unmap a = NoAddr \<longleftrightarrow> a = NoAddr"
  by (cases a) (simp_all add: unmap_def)

lemma is_valid_unmap [simp]: "is_valid (unmap a) = is_valid a"
  by (simp add: is_valid_def)


subsection \<open>Text\<close>

definition v4_octet :: "nat \<Rightarrow> 32 word \<Rightarrow> nat" where
  "v4_octet i w = unat (take_bit 8 (drop_bit (8 * (3 - i)) w))"

definition v4_str :: "32 word \<Rightarrow> string" where
  "v4_str w = join_str ''.'' (map (\<lambda>i. nat_str (v4_octet i w)) [0..<4])"

definition hex_digit :: "nat \<Rightarrow> char" where
  "hex_digit d = ''0123456789abcdef'' ! d"

fun hex_str :: "nat \<Rightarrow> string" where
  "hex_str n = (if n < 16 then [hex_digit n] else hex_str (n div 16) @ [hex_digit (n mod 16)])"

declare hex_str.simps [simp del]

definition v6_group :: "nat \<Rightarrow> 128 word \<Rightarrow> nat" where
  "v6_group i w = unat (take_bit 16 (drop_bit (16 * (7 - i)) w))"

text \<open>The longest (first longest) run of at least two zero groups, as \<open>(start, end)\<close>.\<close>

definition zero_run :: "nat list \<Rightarrow> nat \<times> nat" where
  "zero_run gs =
     foldl (\<lambda>(s, e) i. let l = length (takeWhile (\<lambda>g. g = 0) (drop i gs)) in
                       if 2 \<le> l \<and> e - s < l then (i, i + l) else (s, e)) (255, 255) [0..<length gs]"

definition v6_str :: "128 word \<Rightarrow> string" where
  "v6_str w =
     (let gs = map (\<lambda>i. v6_group i w) [0..<8]; (s, e) = zero_run gs in
      if s = 255 then join_str '':'' (map hex_str gs)
      else join_str '':'' (map hex_str (take s gs)) @ ''::'' @ join_str '':'' (map hex_str (drop e gs)))"

definition zone_str :: "string \<Rightarrow> string" where
  "zone_str z = (if z = [] then [] else CHR ''%'' # z)"

definition addr_str :: "addr \<Rightarrow> string" where
  "addr_str a =
     (case a of
        NoAddr \<Rightarrow> ''invalid IP''
      | V4 w \<Rightarrow> v4_str w
      | V6 w z \<Rightarrow> (if is_4in6 a then ''::ffff:'' @ v4_str (ucast w) else v6_str w) @ zone_str z)"


subsection \<open>Parsing\<close>

text \<open>
  \<open>netip.ParseAddr\<close>: the first of the bytes dot, colon and percent decides the family. \<open>None\<close> is a
  parse error. The octet loop of \<open>parseIPv4Fields\<close> carries the octets read, the value and digit count of
  the current one, and the previous byte.
\<close>

definition is_digit :: "char \<Rightarrow> bool" where
  "is_digit c \<longleftrightarrow> 48 \<le> byte c \<and> byte c \<le> 57"

fun v4_fields :: "nat list \<Rightarrow> nat \<Rightarrow> nat \<Rightarrow> char option \<Rightarrow> string \<Rightarrow> nat list option" where
  "v4_fields fs val digits prev [] = (if length fs < 3 then None else Some (fs @ [val]))"
| "v4_fields fs val digits prev (c # cs) =
     (if is_digit c
      then (if digits = 1 \<and> val = 0 then None
            else if val * 10 + (byte c - 48) > 255 then None
            else v4_fields fs (val * 10 + (byte c - 48)) (digits + 1) (Some c) cs)
      else if c = CHR ''.''
      then (if prev = None \<or> cs = [] \<or> prev = Some (CHR ''.'') then None
            else if length fs = 3 then None
            else v4_fields (fs @ [val]) 0 0 (Some c) cs)
      else None)"

definition parse_v4_bytes :: "string \<Rightarrow> nat list option" where
  "parse_v4_bytes s = v4_fields [] 0 0 None s"

definition word_of_bytes :: "nat list \<Rightarrow> 'a::len word" where
  "word_of_bytes bs = word_of_nat (foldl (\<lambda>a b. a * 256 + b) 0 bs)"

definition hex_value :: "char \<Rightarrow> nat option" where
  "hex_value c =
     (if is_digit c then Some (byte c - 48)
      else if 97 \<le> byte c \<and> byte c \<le> 102 then Some (byte c - 87)
      else if 65 \<le> byte c \<and> byte c \<le> 70 then Some (byte c - 55)
      else None)"

text \<open>A group: its digits and value, or \<open>None\<close> for more than four digits.\<close>

fun hex_group :: "nat \<Rightarrow> nat \<Rightarrow> string \<Rightarrow> (nat \<times> nat \<times> string) option" where
  "hex_group off acc [] = Some (off, acc, [])"
| "hex_group off acc (c # cs) =
     (case hex_value c of
        None \<Rightarrow> Some (off, acc, c # cs)
      | Some v \<Rightarrow> if off > 3 then None else hex_group (off + 1) (acc * 16 + v) cs)"

text \<open>
  The group loop: \<open>bs\<close> are the bytes written so far, \<open>el\<close> the position of the ellipsis. The result is
  the bytes and the ellipsis when the whole string was used.
\<close>

function v6_groups :: "nat list \<Rightarrow> nat option \<Rightarrow> string \<Rightarrow> (nat list \<times> nat option) option" where
  "v6_groups bs el s =
     (if length bs \<ge> 16 then (if s = [] then Some (bs, el) else None)
      else (case hex_group 0 0 s of
        None \<Rightarrow> None
      | Some (off, acc, rest) \<Rightarrow>
          if off = 0 then None
          else (case rest of
            [] \<Rightarrow> Some (bs @ [acc div 256, acc mod 256], el)
          | c # rest' \<Rightarrow>
              if c = CHR ''.''
              then (if el = None \<and> length bs \<noteq> 12 then None
                    else if length bs + 4 > 16 then None
                    else (case parse_v4_bytes s of None \<Rightarrow> None | Some fs \<Rightarrow> Some (bs @ fs, el)))
              else if c \<noteq> CHR '':'' \<or> rest' = [] then None
              else if hd rest' = CHR '':''
              then (if el \<noteq> None then None
                    else if tl rest' = []
                    then Some (bs @ [acc div 256, acc mod 256], Some (length bs + 2))
                    else v6_groups (bs @ [acc div 256, acc mod 256]) (Some (length bs + 2)) (tl rest'))
              else v6_groups (bs @ [acc div 256, acc mod 256]) el rest')))"
  by pat_completeness auto
termination by (relation "measure (\<lambda>(bs, el, s). 16 - length bs)") auto

declare v6_groups.simps [simp del]

definition expand_ellipsis :: "nat list \<Rightarrow> nat option \<Rightarrow> nat list option" where
  "expand_ellipsis bs el =
     (if length bs < 16
      then (case el of None \<Rightarrow> None
            | Some e \<Rightarrow> Some (take e bs @ replicate (16 - length bs) 0 @ drop e bs))
      else (if el = None then Some bs else None))"

definition parse_v6 :: "string \<Rightarrow> addr option" where
  "parse_v6 input =
     (let s = takeWhile (\<lambda>c. c \<noteq> CHR ''%'') input;
          zone = drop (length s + 1) input
      in if s \<noteq> input \<and> zone = [] then None
         else (let (lead, s1) = (if take 2 s = ''::'' then (Some 0, drop 2 s) else (None, s)) in
           if lead \<noteq> None \<and> s1 = [] then Some (V6 0 zone)
           else (case v6_groups [] lead s1 of
                   None \<Rightarrow> None
                 | Some (bs, el) \<Rightarrow> map_option (\<lambda>b. V6 (word_of_bytes b) zone) (expand_ellipsis bs el))))"

definition ParseAddr :: "string \<Rightarrow> addr option" where
  "ParseAddr s =
     (case find (\<lambda>c. c \<in> {CHR ''.'', CHR '':'', CHR ''%''}) s of
        Some c \<Rightarrow> (if c = CHR ''.'' then map_option (\<lambda>fs. V4 (word_of_bytes fs)) (parse_v4_bytes s)
                   else if c = CHR '':'' then parse_v6 s else None)
      | None \<Rightarrow> None)"

lemmas parse_addr_defs = ParseAddr_def parse_v4_bytes_def parse_v6_def word_of_bytes_def is_digit_def hex_value_def
  expand_ellipsis_def Let_def

lemma ParseAddr_examples:
  "ParseAddr ''192.0.2.7'' = Some (V4 0xC0000207)"
  "ParseAddr ''1.2.3'' = None" "ParseAddr ''01.2.3.4'' = None" "ParseAddr ''256.1.1.1'' = None"
  by (simp_all add: parse_addr_defs)

lemma ParseAddr_v6_examples:
  "ParseAddr ''2001:db8::1'' = Some (V6 0x20010db8000000000000000000000001 [])"
  "ParseAddr ''1::2::3'' = None"
proof -
  have "replicate 10 (0::nat) = [0, 0, 0, 0, 0, 0, 0, 0, 0, 0]" by (simp add: eval_nat_numeral)
  then show "ParseAddr ''2001:db8::1'' = Some (V6 0x20010db8000000000000000000000001 [])"
    by (simp add: parse_addr_defs v6_groups.simps)
  show "ParseAddr ''1::2::3'' = None" by (simp add: parse_addr_defs v6_groups.simps)
qed

end
