(* ===== verification/Model.thy ===== *)
theory Model
  imports Prelude GoNet
begin

text \<open>
  The persistence-safe domain types of \<open>internal/session/session.go\<close> and
  \<open>internal/variation/run.go\<close>. A \<open>uuid.UUID\<close> is the number its 16 bytes spell (so the byte order
  of the canonical text is the order of numbers), a pointer field is an \<open>option\<close>, \<open>json.RawMessage\<close>
  and \<open>[]byte\<close> are byte strings.
\<close>

type_synonym uuid = nat

subsection \<open>Sessions\<close>

datatype mode = ModeSticky | ModePool

datatype status = StatusRunning | StatusStopped | StatusFinished

record snapshot =
  SamplesTaken :: int
  sn_ProbesOK :: int
  ProbesTotal :: int
  sn_DistinctIPs :: int
  LastSampleAt :: "time option"
  LastPrimaryIP :: addr
  LastCategory :: string
  LastRTT :: "duration option"
  LastError :: string

definition zero_snapshot :: snapshot where
  "zero_snapshot = \<lparr>SamplesTaken = 0, sn_ProbesOK = 0, ProbesTotal = 0, sn_DistinctIPs = 0,
     LastSampleAt = None, LastPrimaryIP = NoAddr, LastCategory = [], LastRTT = None, LastError = []\<rparr>"

record session =
  s_ID :: uuid
  s_Name :: string
  ProxyCiphertext :: string
  ProxyNonce :: string
  ProxyDisplay :: string
  s_Mode :: mode
  Cadence :: duration
  ProbesPerSample :: int
  ProbeTarget :: string
  DialTimeout :: duration
  MaxSamples :: "int option"
  MaxDuration :: "duration option"
  s_Status :: status
  s_TargetCountry :: string
  SequenceOffset :: int
  s_Snapshot :: snapshot
  s_CreatedAt :: time
  StartedAt :: "time option"
  StoppedAt :: "time option"

record ip_hit =
  h_IP :: addr
  SeenAt :: time
  Hits :: int

record reputation =
  r_IP :: addr
  Country :: string
  Region :: string
  City :: string
  ISP :: string
  ASN :: string
  IsMobile :: "bool option"
  IPAPIProxy :: "bool option"
  IPAPIHosting :: "bool option"
  ProxyCheckType :: string
  ProxyCheckProxy :: "bool option"
  RiskScore :: "int option"
  GreyNoiseClass :: string
  SFSAppears :: "bool option"
  SFSFrequency :: "int option"
  DNSBLListed :: "bool option"
  DNSBLHits :: "string list"
  Category :: string
  Raw :: string
  r_FirstSeen :: time
  RefreshedAt :: time

text \<open>The zero \<open>session.Reputation\<close>.\<close>

definition zero_reputation :: reputation where
  "zero_reputation = \<lparr>r_IP = NoAddr, Country = [], Region = [], City = [], ISP = [], ASN = [],
     IsMobile = None, IPAPIProxy = None, IPAPIHosting = None, ProxyCheckType = [], ProxyCheckProxy = None,
     RiskScore = None, GreyNoiseClass = [], SFSAppears = None, SFSFrequency = None, DNSBLListed = None,
     DNSBLHits = [], Category = [], Raw = [], r_FirstSeen = 0, RefreshedAt = 0\<rparr>"

record ip_record =
  ir_IP :: addr
  ir_FirstSeen :: time
  ir_LastSeen :: time
  ir_HitCount :: int
  ir_Reputation :: "reputation option"


subsection \<open>Variation runs\<close>

datatype run_status = RunRunning | RunStopped | RunFinished

record run =
  run_ID :: uuid
  run_Name :: string
  TemplateCiphertext :: string
  TemplateNonce :: string
  TemplateDisplay :: string
  run_Axes :: string
  run_CreatedAt :: time

record child_session =
  cs_Session :: session
  cs_Params :: string
  cs_CellKey :: string

record run_summary =
  rs_Run :: run
  rs_VariantCount :: int
  rs_DistinctIPs :: int
  rs_Status :: run_status

record variant_session =
  vs_SessionID :: uuid
  vs_Name :: string
  vs_Params :: string
  vs_CellKey :: string
  vs_TargetCountry :: string
  vs_Status :: status
  vs_Snapshot :: snapshot

record ip_observation =
  o_SessionID :: uuid
  o_IP :: addr
  o_HitCount :: int
  o_FirstSeen :: time
  o_LastSeen :: time
  o_Reputation :: "reputation option"

definition bool_value :: "bool option \<Rightarrow> bool" where
  "bool_value v \<longleftrightarrow> v = Some True"


subsection \<open>A session for examples\<close>

definition demo_session :: session where
  "demo_session =
     \<lparr>s_ID = 7, s_Name = ''s'', ProxyCiphertext = ''c'', ProxyNonce = ''n'', ProxyDisplay = ''d'',
      s_Mode = ModePool, Cadence = 60 * second, ProbesPerSample = 3, ProbeTarget = ''t'',
      DialTimeout = 5000 * millisecond, MaxSamples = Some 10, MaxDuration = None, s_Status = StatusRunning,
      s_TargetCountry = [], SequenceOffset = 0, s_Snapshot = zero_snapshot, s_CreatedAt = 1000000,
      StartedAt = Some 1000000, StoppedAt = None\<rparr>"

end
