(* ===== verification/PoolReport.thy ===== *)
theory PoolReport
  imports Complex_Main Model "HOL-Library.Multiset"
begin

text \<open>
  \<open>internal/variation/report.go\<close>, \<open>chao1.go\<close> and \<open>name.go\<close>: the pool report over a whole run.
  Go maps are association lists in one possible iteration order; a \<open>float64\<close> ratio is the exact
  rational it approximates; \<open>uni\<close> stands for the non-ASCII part of case folding (see \<open>GoStrings\<close>)
  and \<open>unmarshal\<close> for \<open>encoding/json\<close> reading the params column. Hit counts are sums of stored
  \<open>bigint\<close>s and are kept as unbounded integers.
\<close>

subsection \<open>Chao1\<close>

record estimate =
  Observed :: int
  Estimate :: int
  LowerBound :: bool

fun chao_counts :: "int \<Rightarrow> int \<Rightarrow> int list \<Rightarrow> int \<times> int" where
  "chao_counts f1 f2 [] = (f1, f2)"
| "chao_counts f1 f2 (freq # fs) =
     (if freq = 1 then chao_counts (f1 + 1) f2 fs
      else if freq = 2 then chao_counts f1 (f2 + 1) fs
      else chao_counts f1 f2 fs)"

definition Chao1 :: "int list \<Rightarrow> estimate" where
  "Chao1 variantFrequencies =
     (let observed = int (length variantFrequencies);
          (f1, f2) = chao_counts 0 0 variantFrequencies in
      if observed = 0 \<or> f2 = 0
      then \<lparr>Observed = observed, Estimate = observed, LowerBound = True\<rparr>
      else \<lparr>Observed = observed, Estimate = observed + go_div (f1 * f1) (2 * f2), LowerBound = False\<rparr>)"


subsection \<open>Variant names\<close>

definition VariantName :: "string \<Rightarrow> (string, string) gomap \<Rightarrow> string" where
  "VariantName runName params =
     (if params = [] then runName
      else runName @ '' ('' @
        join_str '','' (map (\<lambda>k. k @ ''='' @ the (map_of params k)) (sort (map fst params))) @ '')'')"


subsection \<open>Report types\<close>

record composition =
  Mobile :: int
  Residential :: int
  Datacenter :: int
  Unknown :: int

record risk_bucket =
  rb_Label :: string
  rb_Min :: int
  rb_Max :: int
  rb_Count :: int

record ip_row =
  row_IP :: string
  row_Category :: string
  row_Country :: string
  row_ISP :: string
  row_ASN :: string
  row_RiskScore :: "int option"
  row_GreyNoiseClass :: string
  row_DNSBLListed :: bool
  row_DNSBLHits :: "string list"
  row_HitCount :: int
  row_FirstSeen :: time
  row_LastSeen :: time

record cell_report =
  cr_CellKey :: string
  cr_Params :: string
  cr_TargetCountry :: string
  cr_VariantCount :: int
  cr_DistinctIPs :: int
  cr_HonorRate :: "rat option"
  cr_Composition :: composition

record pool_report =
  pr_DistinctIPs :: int
  pr_EstimatedPoolSize :: int
  pr_PoolSizeLowerBound :: bool
  pr_Composition :: composition
  pr_RiskHistogram :: "risk_bucket list"
  pr_FlaggedIPs :: int
  pr_FlaggedPercent :: rat
  pr_DNSBLHitIPs :: int
  pr_HonorRate :: "rat option"
  pr_Cells :: "cell_report list"
  pr_IPs :: "ip_row list"

definition zero_composition :: composition where
  "zero_composition = \<lparr>Mobile = 0, Residential = 0, Datacenter = 0, Unknown = 0\<rparr>"


subsection \<open>Categories and risk\<close>

definition NormalizeCategory :: "string \<Rightarrow> string" where
  "NormalizeCategory value =
     (if value = ''mobile'' \<or> value = ''residential'' \<or> value = ''datacenter'' then value
      else ''unknown'')"

definition applyComposition :: "composition \<Rightarrow> string \<Rightarrow> composition" where
  "applyComposition c category =
     (if category = ''mobile'' then c\<lparr>Mobile := Mobile c + 1\<rparr>
      else if category = ''residential'' then c\<lparr>Residential := Residential c + 1\<rparr>
      else if category = ''datacenter'' then c\<lparr>Datacenter := Datacenter c + 1\<rparr>
      else c\<lparr>Unknown := Unknown c + 1\<rparr>)"

definition labelFor :: "int \<Rightarrow> int \<Rightarrow> string" where
  "labelFor mn mx = itoa mn @ ''-'' @ itoa mx"

definition newRiskHistogram :: "risk_bucket list" where
  "newRiskHistogram =
     map (\<lambda>i. let mn = int i * 10; mx = (if i = 9 then 100 else mn + 9) in
             \<lparr>rb_Label = labelFor mn mx, rb_Min = mn, rb_Max = mx, rb_Count = 0\<rparr>) [0..<10]"

definition addRisk :: "risk_bucket list \<Rightarrow> int \<Rightarrow> risk_bucket list" where
  "addRisk buckets score =
     (if score < 0 \<or> score > 100 then buckets
      else (let bucket = go_div score 10;
                bucket' = (if bucket = 10 then 9 else bucket);
                b = buckets ! nat bucket'
            in buckets[nat bucket' := b\<lparr>rb_Count := rb_Count b + 1\<rparr>]))"

definition reputationFlagged :: "(string \<Rightarrow> string \<Rightarrow> bool) \<Rightarrow> reputation option \<Rightarrow> bool" where
  "reputationFlagged uni r =
     (case r of None \<Rightarrow> False
      | Some r \<Rightarrow>
          bool_value (ProxyCheckProxy r)
          \<or> (case RiskScore r of None \<Rightarrow> False | Some n \<Rightarrow> n \<ge> 70)
          \<or> equal_fold uni (GreyNoiseClass r) ''malicious''
          \<or> bool_value (SFSAppears r)
          \<or> bool_value (DNSBLListed r))"

definition reputationCategory :: "reputation option \<Rightarrow> string" where
  "reputationCategory r = (case r of None \<Rightarrow> ''unknown'' | Some r \<Rightarrow> Category r)"

definition newIPRow :: "ip_observation \<Rightarrow> ip_row" where
  "newIPRow obs =
     (let row = \<lparr>row_IP = addr_str (o_IP obs), row_Category = ''unknown'', row_Country = [], row_ISP = [],
                 row_ASN = [], row_RiskScore = None, row_GreyNoiseClass = [], row_DNSBLListed = False,
                 row_DNSBLHits = [], row_HitCount = o_HitCount obs, row_FirstSeen = o_FirstSeen obs,
                 row_LastSeen = o_LastSeen obs\<rparr> in
      case o_Reputation obs of
        None \<Rightarrow> row
      | Some r \<Rightarrow> row\<lparr>row_Category := NormalizeCategory (Category r),
                     row_Country := Country r, row_ISP := ISP r, row_ASN := ASN r,
                     row_GreyNoiseClass := GreyNoiseClass r, row_RiskScore := RiskScore r,
                     row_DNSBLListed := (case DNSBLListed r of None \<Rightarrow> False | Some b \<Rightarrow> b),
                     row_DNSBLHits := DNSBLHits r\<rparr>)"


subsection \<open>Merging observations per exit IP\<close>

record ip_accum =
  ia_row :: ip_row
  ia_variants :: "uuid list"
  ia_flagged :: bool

type_synonym ip_accums = "(addr, ip_accum) gomap"
type_synonym session_obs = "(uuid, ip_observation list) gomap"

definition obs_of :: "session_obs \<Rightarrow> uuid \<Rightarrow> ip_observation list" where
  "obs_of m sid = (case map_of m sid of None \<Rightarrow> [] | Some os \<Rightarrow> os)"

text \<open>The \<open>else\<close> branch of the loop: a further observation of a known IP.\<close>

definition merge_row :: "ip_row \<Rightarrow> ip_observation \<Rightarrow> ip_row" where
  "merge_row row obs =
     (let row1 = row\<lparr>row_HitCount := row_HitCount row + o_HitCount obs\<rparr>;
          row2 = (if o_FirstSeen obs \<noteq> 0 \<and> (row_FirstSeen row1 = 0 \<or> o_FirstSeen obs < row_FirstSeen row1)
                  then row1\<lparr>row_FirstSeen := o_FirstSeen obs\<rparr> else row1)
      in if o_LastSeen obs > row_LastSeen row2 then row2\<lparr>row_LastSeen := o_LastSeen obs\<rparr> else row2)"

definition add_observation ::
  "(string \<Rightarrow> string \<Rightarrow> bool) \<Rightarrow> ip_accums \<times> session_obs \<Rightarrow> ip_observation \<Rightarrow> ip_accums \<times> session_obs" where
  "add_observation uni st obs =
     (let (ips, sessionObs) = st;
          sessionObs' = AList.update (o_SessionID obs) (obs_of sessionObs (o_SessionID obs) @ [obs]) sessionObs;
          accum = (case map_of ips (o_IP obs) of
                     None \<Rightarrow> \<lparr>ia_row = newIPRow obs, ia_variants = [], ia_flagged = reputationFlagged uni (o_Reputation obs)\<rparr>
                   | Some a \<Rightarrow> a\<lparr>ia_row := merge_row (ia_row a) obs\<rparr>);
          accum' = accum\<lparr>ia_variants := List.insert (o_SessionID obs) (ia_variants accum)\<rparr>
      in (AList.update (o_IP obs) accum' ips, sessionObs'))"

definition sortedIPs :: "ip_accums \<Rightarrow> ip_accum list" where
  "sortedIPs ips = map (\<lambda>k. the (map_of ips k)) (sort (map fst ips))"


subsection \<open>Requested against observed egress\<close>

datatype honor_outcome = honorUnknown | honorMatch | honorMismatch

fun firstParam :: "(string, string) gomap \<Rightarrow> string list \<Rightarrow> string" where
  "firstParam params [] = []"
| "firstParam params (key # keys) =
     (case map_of params key of
        Some v \<Rightarrow> if v \<noteq> [] then v else firstParam params keys
      | None \<Rightarrow> firstParam params keys)"

definition ispMatches :: "(string \<Rightarrow> string) \<Rightarrow> string \<Rightarrow> string \<Rightarrow> bool" where
  "ispMatches lower requested observed =
     (let r = to_lower lower (trim_space requested); obs = to_lower lower (trim_space observed) in
      if r = [] \<or> obs = [] then False
      else contains_str obs r \<or> contains_str r obs)"

fun dominant_weights :: "(reputation \<Rightarrow> string) \<Rightarrow> (string, int) gomap \<Rightarrow> ip_observation list \<Rightarrow> (string, int) gomap" where
  "dominant_weights pick weights [] = weights"
| "dominant_weights pick weights (obs # rest) =
     (case o_Reputation obs of
        None \<Rightarrow> dominant_weights pick weights rest
      | Some r \<Rightarrow>
          (let value = pick r in
           if value = [] then dominant_weights pick weights rest
           else dominant_weights pick (bump value (max (o_HitCount obs) 1) weights) rest))"

text \<open>The two passes over the weight map, in its iteration order.\<close>

definition max_weight :: "(string, int) gomap \<Rightarrow> int" where
  "max_weight weights = foldl (\<lambda>m (value, weight). if weight > m then weight else m) 0 weights"

definition unique_max :: "(string, int) gomap \<Rightarrow> string" where
  "unique_max weights =
     (let maxWeight = max_weight weights;
          (best, cnt) = foldl (\<lambda>(best, cnt) (value, weight).
            if weight = maxWeight then (value, cnt + 1) else (best, cnt)) ([], 0::nat) weights
      in if cnt \<noteq> 1 then [] else best)"

definition dominant :: "ip_observation list \<Rightarrow> (reputation \<Rightarrow> string) \<Rightarrow> string" where
  "dominant obs pick = unique_max (dominant_weights pick [] obs)"

definition variantHonor ::
  "(string \<Rightarrow> string \<Rightarrow> bool) \<Rightarrow> (string \<Rightarrow> string) \<Rightarrow> (string \<Rightarrow> (string, string) gomap) \<Rightarrow>
   string \<Rightarrow> string \<Rightarrow> ip_observation list \<Rightarrow> honor_outcome" where
  "variantHonor uni lower unmarshal params targetCountry obs =
     (let requested = unmarshal params;
          country0 = firstParam requested [''country'', ''cc''];
          country = (if targetCountry \<noteq> [] then targetCountry else country0);
          isp = firstParam requested [''isp''];
          observedCountry = dominant obs Country;
          observedISP = dominant obs ISP
      in if country = [] \<and> isp = [] then honorUnknown
         else if country \<noteq> [] \<and> observedCountry \<noteq> [] \<and> \<not> equal_fold uni observedCountry country then honorMismatch
         else if isp \<noteq> [] \<and> observedISP \<noteq> [] \<and> \<not> ispMatches lower isp observedISP then honorMismatch
         else if country \<noteq> [] \<and> observedCountry = [] \<or> isp \<noteq> [] \<and> observedISP = [] then honorUnknown
         else honorMatch)"


subsection \<open>Cells\<close>

record cell_accum =
  ca_targetCountry :: string
  ca_variantCount :: int
  ca_honored :: int
  ca_sampled :: int
  ca_ips :: "addr list"
  ca_composition :: composition

definition new_cell :: cell_accum where
  "new_cell = \<lparr>ca_targetCountry = [], ca_variantCount = 0, ca_honored = 0, ca_sampled = 0,
     ca_ips = [], ca_composition = zero_composition\<rparr>"

definition add_cell_ip :: "cell_accum \<Rightarrow> ip_observation \<Rightarrow> cell_accum" where
  "add_cell_ip accum obs =
     (if o_IP obs \<in> set (ca_ips accum) then accum
      else accum\<lparr>ca_ips := o_IP obs # ca_ips accum,
                 ca_composition := applyComposition (ca_composition accum)
                    (NormalizeCategory (reputationCategory (o_Reputation obs)))\<rparr>)"

record honor_state =
  hs_order :: "string list"
  hs_cells :: "(string, cell_accum) gomap"
  hs_honored :: int
  hs_sampled :: int

definition add_variant ::
  "(string \<Rightarrow> string \<Rightarrow> bool) \<Rightarrow> (string \<Rightarrow> string) \<Rightarrow> (string \<Rightarrow> (string, string) gomap) \<Rightarrow>
   session_obs \<Rightarrow> honor_state \<Rightarrow> variant_session \<Rightarrow> honor_state" where
  "add_variant uni lower unmarshal sessionObs st v =
     (let key = vs_CellKey v;
          st1 = (if map_of (hs_cells st) key = None then st\<lparr>hs_order := hs_order st @ [key]\<rparr> else st);
          accum0 = (case map_of (hs_cells st) key of None \<Rightarrow> new_cell | Some a \<Rightarrow> a);
          accum1 = accum0\<lparr>ca_variantCount := ca_variantCount accum0 + 1,
                          ca_targetCountry := (if ca_targetCountry accum0 = [] then vs_TargetCountry v
                                               else ca_targetCountry accum0)\<rparr>;
          obs = obs_of sessionObs (vs_SessionID v);
          accum2 = foldl add_cell_ip accum1 obs
      in case variantHonor uni lower unmarshal (vs_Params v) (vs_TargetCountry v) obs of
           honorMatch \<Rightarrow>
             st1\<lparr>hs_cells := AList.update key
                   (accum2\<lparr>ca_sampled := ca_sampled accum2 + 1, ca_honored := ca_honored accum2 + 1\<rparr>) (hs_cells st1),
                 hs_sampled := hs_sampled st1 + 1, hs_honored := hs_honored st1 + 1\<rparr>
         | honorMismatch \<Rightarrow>
             st1\<lparr>hs_cells := AList.update key (accum2\<lparr>ca_sampled := ca_sampled accum2 + 1\<rparr>) (hs_cells st1),
                 hs_sampled := hs_sampled st1 + 1\<rparr>
         | honorUnknown \<Rightarrow> st1\<lparr>hs_cells := AList.update key accum2 (hs_cells st1)\<rparr>)"

definition rate :: "int \<Rightarrow> int \<Rightarrow> rat option" where
  "rate honored sampled = (if sampled > 0 then Some (of_int honored / of_int sampled) else None)"

definition cell_of :: "string \<Rightarrow> cell_accum \<Rightarrow> cell_report" where
  "cell_of key accum =
     \<lparr>cr_CellKey = key, cr_Params = key, cr_TargetCountry = ca_targetCountry accum,
      cr_VariantCount = ca_variantCount accum, cr_DistinctIPs = int (length (ca_ips accum)),
      cr_HonorRate = rate (ca_honored accum) (ca_sampled accum), cr_Composition = ca_composition accum\<rparr>"

definition buildHonorAndCells ::
  "(string \<Rightarrow> string \<Rightarrow> bool) \<Rightarrow> (string \<Rightarrow> string) \<Rightarrow> (string \<Rightarrow> (string, string) gomap) \<Rightarrow>
   variant_session list \<Rightarrow> session_obs \<Rightarrow> rat option \<times> cell_report list" where
  "buildHonorAndCells uni lower unmarshal variants sessionObs =
     (let st = foldl (add_variant uni lower unmarshal sessionObs)
                 \<lparr>hs_order = [], hs_cells = [], hs_honored = 0, hs_sampled = 0\<rparr> variants
      in (rate (hs_honored st) (hs_sampled st),
          map (\<lambda>key. cell_of key (the (map_of (hs_cells st) key))) (hs_order st)))"


subsection \<open>The report\<close>

text \<open>The loop over the sorted accumulators.\<close>

definition report_step :: "pool_report \<Rightarrow> ip_accum \<Rightarrow> pool_report" where
  "report_step rep accum =
     (let row = ia_row accum in
      rep\<lparr>pr_Composition := applyComposition (pr_Composition rep) (row_Category row),
          pr_FlaggedIPs := (if ia_flagged accum then pr_FlaggedIPs rep + 1 else pr_FlaggedIPs rep),
          pr_DNSBLHitIPs := (if row_DNSBLListed row then pr_DNSBLHitIPs rep + 1 else pr_DNSBLHitIPs rep),
          pr_RiskHistogram := (case row_RiskScore row of
                                 None \<Rightarrow> pr_RiskHistogram rep
                               | Some score \<Rightarrow> addRisk (pr_RiskHistogram rep) score),
          pr_IPs := pr_IPs rep @ [row]\<rparr>)"

definition empty_report :: pool_report where
  "empty_report =
     \<lparr>pr_DistinctIPs = 0, pr_EstimatedPoolSize = 0, pr_PoolSizeLowerBound = False,
      pr_Composition = zero_composition, pr_RiskHistogram = newRiskHistogram, pr_FlaggedIPs = 0,
      pr_FlaggedPercent = 0, pr_DNSBLHitIPs = 0, pr_HonorRate = None, pr_Cells = [], pr_IPs = []\<rparr>"

definition BuildPoolReport ::
  "(string \<Rightarrow> string \<Rightarrow> bool) \<Rightarrow> (string \<Rightarrow> string) \<Rightarrow> (string \<Rightarrow> (string, string) gomap) \<Rightarrow>
   variant_session list \<Rightarrow> ip_observation list \<Rightarrow> pool_report" where
  "BuildPoolReport uni lower unmarshal variants observations =
     (let (ips, sessionObs) = foldl (add_observation uni) ([], []) observations;
          accums = sortedIPs ips;
          frequencies = map (\<lambda>a. int (length (ia_variants a))) accums;
          rep = foldl report_step empty_report accums;
          distinctIPs = int (length ips);
          flagged = (if distinctIPs > 0
                     then of_int (pr_FlaggedIPs rep) * 100 / of_int distinctIPs else 0);
          est = Chao1 frequencies;
          (honor, cells) = buildHonorAndCells uni lower unmarshal variants sessionObs
      in rep\<lparr>pr_DistinctIPs := distinctIPs, pr_FlaggedPercent := flagged,
             pr_EstimatedPoolSize := Estimate est, pr_PoolSizeLowerBound := LowerBound est,
             pr_HonorRate := honor, pr_Cells := cells\<rparr>)"


subsection \<open>Chao1\<close>

definition tally :: "'a \<Rightarrow> 'a list \<Rightarrow> int" where
  "tally x xs = int (length (filter (\<lambda>y. y = x) xs))"

lemma chao_counts_tally: "chao_counts f1 f2 fs = (f1 + tally 1 fs, f2 + tally 2 fs)"
  by (induction f1 f2 fs rule: chao_counts.induct) (simp_all add: tally_def)

lemma Chao1_spec:
  "Chao1 fs =
     (if tally 2 fs = 0 then \<lparr>Observed = int (length fs), Estimate = int (length fs), LowerBound = True\<rparr>
      else \<lparr>Observed = int (length fs),
            Estimate = int (length fs) + tally 1 fs * tally 1 fs div (2 * tally 2 fs), LowerBound = False\<rparr>)"
proof -
  have "0 \<le> tally 2 fs" by (simp add: tally_def)
  moreover have "tally 2 fs = 0" if "fs = []" using that by (simp add: tally_def)
  ultimately show ?thesis
    by (cases "fs = []") (simp_all add: Chao1_def chao_counts_tally go_div_nonneg Let_def)
qed

text \<open>
  the pool-size estimate is the bias-uncorrected Chao1 estimator on the singleton and doubleton
  counts, never below what was observed, and is flagged a lower bound exactly when no doubletons exist.
\<close>

theorem Chao1_estimate:
  "Observed (Chao1 fs) = int (length fs) \<and> Observed (Chao1 fs) \<le> Estimate (Chao1 fs)
   \<and> LowerBound (Chao1 fs) = (tally 2 fs = 0)
   \<and> Estimate (Chao1 fs) - Observed (Chao1 fs)
       = (if LowerBound (Chao1 fs) then 0 else tally 1 fs * tally 1 fs div (2 * tally 2 fs))"
proof -
  have "0 \<le> tally 1 fs * tally 1 fs div (2 * tally 2 fs)" for fs :: "int list"
    by (intro div_int_pos_iff [THEN iffD2]) (simp add: tally_def)
  then show ?thesis by (simp add: Chao1_spec)
qed


subsection \<open>Dominant values\<close>

text \<open>The observation weight a value gets: every reputed observation votes at least once.\<close>

definition vote :: "(reputation \<Rightarrow> string) \<Rightarrow> string \<Rightarrow> ip_observation \<Rightarrow> int" where
  "vote pick v obs =
     (case o_Reputation obs of None \<Rightarrow> 0 | Some r \<Rightarrow> if pick r = v then max (o_HitCount obs) 1 else 0)"

definition weight_of :: "(reputation \<Rightarrow> string) \<Rightarrow> ip_observation list \<Rightarrow> string \<Rightarrow> int" where
  "weight_of pick obs v = sum_list (map (vote pick v) obs)"

lemma weight_of_mset: "mset obs = mset obs' \<Longrightarrow> weight_of pick obs = weight_of pick obs'"
proof
  fix v
  assume "mset obs = mset obs'"
  then have "sum_mset (mset (map (vote pick v) obs)) = sum_mset (mset (map (vote pick v) obs'))" by simp
  then show "weight_of pick obs v = weight_of pick obs' v"
    by (simp only: sum_mset_sum_list weight_of_def)
qed

lemma count_of_dominant_weights:
  "count_of (dominant_weights pick ws obs) v
     = count_of ws v + (if v = [] then 0 else weight_of pick obs v)"
  by (induction obs arbitrary: ws) (auto simp: weight_of_def vote_def count_of_bump Let_def split: option.splits)

lemma gomap_dominant_weights: "gomap ws \<Longrightarrow> gomap (dominant_weights pick ws obs)"
  by (induction obs arbitrary: ws) (auto simp: Let_def split: option.splits)

lemma keys_dominant_weights:
  "fst ` set (dominant_weights pick ws obs)
     = fst ` set ws \<union> {v. v \<noteq> [] \<and> (\<exists>obs \<in> set obs. \<exists>r. o_Reputation obs = Some r \<and> pick r = v)}"
  by (induction obs arbitrary: ws) (auto simp: Let_def split: option.splits)

lemma vote_nonneg: "0 \<le> vote pick v obs"
  by (auto simp: vote_def split: option.splits intro: max.coboundedI2)

lemma weight_of_pos_iff:
  "0 < weight_of pick obs v \<longleftrightarrow> (\<exists>obs \<in> set obs. \<exists>r. o_Reputation obs = Some r \<and> pick r = v)"
proof (induction obs)
  case (Cons a obs)
  have "0 \<le> weight_of pick obs v" unfolding weight_of_def by (rule sum_list_nonneg) (auto simp: vote_nonneg)
  moreover have "weight_of pick (a # obs) v = vote pick v a + weight_of pick obs v" by (simp add: weight_of_def)
  moreover have "0 < vote pick v a \<longleftrightarrow> (\<exists>r. o_Reputation a = Some r \<and> pick r = v)"
    by (auto simp: vote_def split: option.splits)
  ultimately show ?case using Cons vote_nonneg [of pick v a] by auto
qed (simp add: weight_of_def)

lemma max_weight_fold:
  "foldl (\<lambda>m (value, weight). if weight > m then weight else m) a ws = Max (insert a (snd ` set ws))"
proof (induction ws arbitrary: a)
  case (Cons kw ws)
  have "(case kw of (value, weight) \<Rightarrow> if weight > a then weight else a) = max a (snd kw)"
    by (cases kw) auto
  then have "foldl (\<lambda>m (value, weight). if weight > m then weight else m) a (kw # ws)
      = Max (insert (max a (snd kw)) (snd ` set ws))" by (simp add: Cons.IH)
  also have "\<dots> = Max (insert a (snd ` set (kw # ws)))"
    by (cases "ws = []") (simp_all add: Max_insert max.assoc max.left_commute)
  finally show ?case .
qed simp

lemma best_fold:
  "foldl (\<lambda>(best, cnt) (value, weight). if weight = M then (value, cnt + 1) else (best, cnt)) (b, c) ws
     = (case rev (filter (\<lambda>kw. snd kw = M) ws) of [] \<Rightarrow> b | x # _ \<Rightarrow> fst x,
        c + length (filter (\<lambda>kw. snd kw = M) ws))"
proof (induction ws rule: rev_induct)
  case (snoc kw ws)
  then show ?case by (cases kw) (auto split: list.splits)
qed simp

lemma unique_max_filter:
  "unique_max ws = (case filter (\<lambda>kw. snd kw = Max (insert 0 (snd ` set ws))) ws of [x] \<Rightarrow> fst x | _ \<Rightarrow> [])"
  by (auto simp: unique_max_def max_weight_def max_weight_fold best_fold Let_def split: list.splits prod.splits)

lemma filter_singleton_iff:
  assumes "distinct ws"
  shows "filter P ws = [x] \<longleftrightarrow> x \<in> set ws \<and> P x \<and> (\<forall>y \<in> set ws. P y \<longrightarrow> y = x)"
proof
  assume "filter P ws = [x]"
  then have "set (filter P ws) = {x}" by simp
  then show "x \<in> set ws \<and> P x \<and> (\<forall>y \<in> set ws. P y \<longrightarrow> y = x)" by auto
next
  assume "x \<in> set ws \<and> P x \<and> (\<forall>y \<in> set ws. P y \<longrightarrow> y = x)"
  then have "set (filter P ws) = {x}" by auto
  moreover from this have "length (filter P ws) = 1"
    using distinct_card [of "filter P ws"] assms by simp
  then obtain y where "filter P ws = [y]" by (auto simp: length_Suc_conv)
  ultimately show "filter P ws = [x]" by auto
qed

text \<open>The unique heaviest key, whatever the iteration order of the map.\<close>

lemma unique_max_iff:
  assumes "gomap ws" and "\<forall>(k, w) \<in> set ws. k \<noteq> [] \<and> 0 < w"
  shows "unique_max ws = v \<and> v \<noteq> [] \<longleftrightarrow>
     v \<in> fst ` set ws \<and> (\<forall>u \<in> fst ` set ws. u \<noteq> v \<longrightarrow> count_of ws u < count_of ws v)"
proof -
  define M where "M = Max (insert 0 (snd ` set ws))"
  have um: "unique_max ws = (case filter (\<lambda>kw. snd kw = M) ws of [x] \<Rightarrow> fst x | _ \<Rightarrow> [])"
    by (simp add: unique_max_filter M_def)
  have d: "distinct ws" using assms(1) by (simp add: gomap_def distinct_map)
  have cnt: "count_of ws k = w" if "(k, w) \<in> set ws" for k w
    using map_of_is_SomeI_gomap [OF assms(1) that] by (simp add: count_of_def)
  have le: "w \<le> M" if "(k, w) \<in> set ws" for k w unfolding M_def using that by (intro Max_ge) force+
  have max_iff: "w = M \<longleftrightarrow> (\<forall>(k', w') \<in> set ws. w' \<le> w)" if kw: "(k, w) \<in> set ws" for k w
  proof
    assume all: "\<forall>(k', w') \<in> set ws. w' \<le> w"
    have "M \<le> w" unfolding M_def using all kw assms(2) by (subst Max_le_iff) force+
    with le [OF kw] show "w = M" by simp
  qed (use le in auto)
  have single: "filter (\<lambda>kw. snd kw = M) ws = [(v, w)] \<longleftrightarrow>
      (v, w) \<in> set ws \<and> w = M \<and> (\<forall>y \<in> set ws. snd y = M \<longrightarrow> y = (v, w))" for w
    using filter_singleton_iff [OF d, of "\<lambda>kw. snd kw = M" "(v, w)"] unfolding snd_conv .
  have "unique_max ws = v \<and> v \<noteq> [] \<longleftrightarrow> (\<exists>w. filter (\<lambda>kw. snd kw = M) ws = [(v, w)])"
  proof
    assume "\<exists>w. filter (\<lambda>kw. snd kw = M) ws = [(v, w)]"
    then obtain w where w: "filter (\<lambda>kw. snd kw = M) ws = [(v, w)]" by blast
    then have "(v, w) \<in> set (filter (\<lambda>kw. snd kw = M) ws)" by (metis list.set_intros(1))
    then have "(v, w) \<in> set ws" by (rule subsetD [OF filter_is_subset])
    with assms(2) have "v \<noteq> []" by auto
    with w show "unique_max ws = v \<and> v \<noteq> []" by (simp add: um)
  next
    assume "unique_max ws = v \<and> v \<noteq> []"
    then obtain x where "filter (\<lambda>kw. snd kw = M) ws = [x]" "fst x = v"
      unfolding um by (auto split: list.splits)
    then show "\<exists>w. filter (\<lambda>kw. snd kw = M) ws = [(v, w)]" by (metis prod.collapse)
  qed
  also have "\<dots> \<longleftrightarrow> (\<exists>w. (v, w) \<in> set ws \<and> w = M \<and> (\<forall>y \<in> set ws. snd y = M \<longrightarrow> y = (v, w)))"
    by (rule ex_cong1) (rule single)
  also have "\<dots> \<longleftrightarrow> v \<in> fst ` set ws \<and> (\<forall>u \<in> fst ` set ws. u \<noteq> v \<longrightarrow> count_of ws u < count_of ws v)"
  proof
    assume "\<exists>w. (v, w) \<in> set ws \<and> w = M \<and> (\<forall>y \<in> set ws. snd y = M \<longrightarrow> y = (v, w))"
    then obtain w where w: "(v, w) \<in> set ws" "w = M" "\<forall>y \<in> set ws. snd y = M \<longrightarrow> y = (v, w)" by blast
    have "w' < w" if u: "(u, w') \<in> set ws" "u \<noteq> v" for u w'
    proof -
      from w(3) u have "w' \<noteq> M" by fastforce
      with le [OF u(1)] w(2) show ?thesis by linarith
    qed
    then show "v \<in> fst ` set ws \<and> (\<forall>u \<in> fst ` set ws. u \<noteq> v \<longrightarrow> count_of ws u < count_of ws v)"
      using w(1) cnt by force
  next
    assume r: "v \<in> fst ` set ws \<and> (\<forall>u \<in> fst ` set ws. u \<noteq> v \<longrightarrow> count_of ws u < count_of ws v)"
    then obtain w where w: "(v, w) \<in> set ws" by auto
    have lt: "w' < w" if u: "(u, w') \<in> set ws" "u \<noteq> v" for u w'
    proof -
      from u(1) have "u \<in> fst ` set ws" by force
      with r u(2) have "count_of ws u < count_of ws v" by blast
      then show ?thesis by (simp only: cnt [OF u(1)] cnt [OF w])
    qed
    have same: "w' = w" if "(v, w') \<in> set ws" for w'
      using cnt [OF that] cnt [OF w] by (rule trans [OF sym])
    have le': "w' \<le> w" if "(u, w') \<in> set ws" for u w'
      using lt [OF that] same [of w'] that by (cases "u = v") auto
    have M: "w = M" unfolding max_iff [OF w] using le' by blast
    have "y = (v, w)" if y: "y \<in> set ws" "snd y = M" for y
      using lt [of "fst y" "snd y"] y M by (cases y) auto
    with w M show "\<exists>w. (v, w) \<in> set ws \<and> w = M \<and> (\<forall>y \<in> set ws. snd y = M \<longrightarrow> y = (v, w))"
      by blast
  qed
  finally show ?thesis .
qed

lemma dominant_weights_ok:
  "gomap (dominant_weights pick [] obs)"
  "\<forall>(k, w) \<in> set (dominant_weights pick [] obs). k \<noteq> [] \<and> 0 < w"
  "fst ` set (dominant_weights pick [] obs) = {v. v \<noteq> [] \<and> 0 < weight_of pick obs v}"
  "v \<noteq> [] \<Longrightarrow> count_of (dominant_weights pick [] obs) v = weight_of pick obs v"
proof -
  show g: "gomap (dominant_weights pick [] obs)" by (rule gomap_dominant_weights) simp
  show keys: "fst ` set (dominant_weights pick [] obs) = {v. v \<noteq> [] \<and> 0 < weight_of pick obs v}"
    by (auto simp: keys_dominant_weights weight_of_pos_iff)
  show "\<forall>(k, w) \<in> set (dominant_weights pick [] obs). k \<noteq> [] \<and> 0 < w"
  proof (intro ballI, clarsimp)
    fix k w assume kw: "(k, w) \<in> set (dominant_weights pick [] obs)"
    then have k: "k \<noteq> []" "0 < weight_of pick obs k" using keys by force+
    from map_of_is_SomeI_gomap [OF g kw] k show "k \<noteq> [] \<and> 0 < w"
      using count_of_dominant_weights [of pick "[]" obs k] by (simp add: count_of_def)
  qed
  show "v \<noteq> [] \<Longrightarrow> count_of (dominant_weights pick [] obs) v = weight_of pick obs v"
    by (simp add: count_of_dominant_weights)
qed

lemma dominant_iff:
  "dominant obs pick = v \<and> v \<noteq> [] \<longleftrightarrow>
     v \<noteq> [] \<and> 0 < weight_of pick obs v \<and> (\<forall>u. u \<noteq> [] \<longrightarrow> u \<noteq> v \<longrightarrow> weight_of pick obs u < weight_of pick obs v)"
proof -
  let ?W = "dominant_weights pick [] obs"
  have "weight_of pick obs u < weight_of pick obs v"
    if "0 < weight_of pick obs v" "\<not> 0 < weight_of pick obs u" for u using that by simp
  then show ?thesis
    unfolding dominant_def unique_max_iff [OF dominant_weights_ok(1,2)] dominant_weights_ok(3)
    by (auto simp: dominant_weights_ok(4))
qed

lemma dominant_mset:
  assumes "mset obs = mset obs'"
  shows "dominant obs pick = dominant obs' pick"
  using dominant_iff [of obs pick] dominant_iff [of obs' pick]
  unfolding weight_of_mset [OF assms] by metis

subsection \<open>Rows\<close>

definition obs_at :: "ip_observation list \<Rightarrow> addr \<Rightarrow> ip_observation list" where
  "obs_at obs ip = filter (\<lambda>x. o_IP x = ip) obs"

definition obs_by :: "ip_observation list \<Rightarrow> uuid \<Rightarrow> ip_observation list" where
  "obs_by obs sid = filter (\<lambda>x. o_SessionID x = sid) obs"

text \<open>What a merged row must contain: fields of the first observation, summed hits, extreme times.\<close>

definition earliest :: "time list \<Rightarrow> time" where
  "earliest ts = (if \<forall>t \<in> set ts. t = 0 then 0 else Min (set ts - {0}))"

definition merged_row :: "ip_observation list \<Rightarrow> ip_row" where
  "merged_row xs =
     (newIPRow (hd xs))\<lparr>row_HitCount := sum_list (map o_HitCount xs),
        row_FirstSeen := earliest (map o_FirstSeen xs), row_LastSeen := Max (o_LastSeen ` set xs)\<rparr>"

lemma newIPRow_simps [simp]:
  "row_HitCount (newIPRow x) = o_HitCount x" "row_FirstSeen (newIPRow x) = o_FirstSeen x"
  "row_LastSeen (newIPRow x) = o_LastSeen x" "row_IP (newIPRow x) = addr_str (o_IP x)"
  by (simp_all add: newIPRow_def Let_def split: option.splits)

lemma earliest_snoc:
  "earliest (ts @ [t]) = (if t \<noteq> 0 \<and> (earliest ts = 0 \<or> t < earliest ts) then t else earliest ts)"
proof (cases "\<forall>u \<in> set ts. u = 0")
  case True
  then have e: "set ts - {0} = {}" by auto
  show ?thesis using True by (auto simp: earliest_def insert_Diff_if e simp del: Diff_eq_empty_iff)
next
  case False
  then have ne: "set ts - {0} \<noteq> {}" by auto
  define m where "m = Min (set ts - {0})"
  have m: "m \<noteq> 0" unfolding m_def using Min_in [of "set ts - {0}"] ne by simp
  have e: "earliest ts = m" using False by (auto simp: earliest_def m_def)
  have "earliest (ts @ [t]) = (if t = 0 then m else Min (insert t (set ts - {0})))"
    using False by (auto simp: earliest_def m_def insert_Diff_if)
  also have "Min (insert t (set ts - {0})) = min t m"
    unfolding m_def using ne by (intro Min_insert) simp_all
  finally show ?thesis using m by (simp add: e min_def)
qed

lemma merge_row_merged:
  assumes "xs \<noteq> []"
  shows "merge_row (merged_row xs) x = merged_row (xs @ [x])"
proof -
  define L where "L = Max (o_LastSeen ` set xs)"
  have "Max (o_LastSeen ` set (xs @ [x])) = max (o_LastSeen x) L" unfolding L_def using assms by simp
  then have "Max (o_LastSeen ` set (xs @ [x])) = (if o_LastSeen x > L then o_LastSeen x else L)" by simp
  with assms show ?thesis
    unfolding merge_row_def merged_row_def map_append list.map earliest_snoc L_def [symmetric]
    by (simp add: Let_def)
qed

definition accum_of :: "(string \<Rightarrow> string \<Rightarrow> bool) \<Rightarrow> ip_observation list \<Rightarrow> ip_accum" where
  "accum_of uni xs =
     \<lparr>ia_row = merged_row xs, ia_variants = foldl (\<lambda>vs x. List.insert (o_SessionID x) vs) [] xs,
      ia_flagged = reputationFlagged uni (o_Reputation (hd xs))\<rparr>"

lemma merged_row_single: "merged_row [x] = newIPRow x"
  by (simp add: merged_row_def earliest_def)

lemma accum_of_snoc:
  "accum_of uni (xs @ [x]) =
     (let a = (if xs = [] then \<lparr>ia_row = newIPRow x, ia_variants = [], ia_flagged = reputationFlagged uni (o_Reputation x)\<rparr>
               else (accum_of uni xs)\<lparr>ia_row := merge_row (ia_row (accum_of uni xs)) x\<rparr>)
      in a\<lparr>ia_variants := List.insert (o_SessionID x) (ia_variants a)\<rparr>)"
  by (simp add: accum_of_def merge_row_merged merged_row_single)

lemma ia_variants_accum_of:
  "distinct (ia_variants (accum_of uni xs)) \<and> set (ia_variants (accum_of uni xs)) = o_SessionID ` set xs"
  by (induction xs rule: rev_induct) (auto simp: accum_of_def)

lemma obs_at_snoc: "obs_at (xs @ [x]) ip = (if o_IP x = ip then obs_at xs ip @ [x] else obs_at xs ip)"
  by (simp add: obs_at_def)

lemma obs_at_Nil_iff: "obs_at obs ip = [] \<longleftrightarrow> ip \<notin> o_IP ` set obs"
  by (auto simp: obs_at_def filter_empty_conv)

text \<open>Both maps of the observation loop, entry by entry.\<close>

lemma add_observations:
  "foldl (add_observation uni) ([], []) obs = (ips, sessionObs) \<Longrightarrow>
     gomap ips \<and> fst ` set ips = o_IP ` set obs
     \<and> (\<forall>ip. map_of ips ip = (if obs_at obs ip = [] then None else Some (accum_of uni (obs_at obs ip))))
     \<and> (\<forall>sid. obs_of sessionObs sid = obs_by obs sid)"
proof (induction obs arbitrary: ips sessionObs rule: rev_induct)
  case Nil
  then show ?case by (simp add: obs_at_def obs_by_def obs_of_def)
next
  case (snoc x xs)
  obtain ips0 so0 where st: "foldl (add_observation uni) ([], []) xs = (ips0, so0)" by fastforce
  note IH = snoc.IH [OF st]
  have "map_of ips0 (o_IP x) = (if obs_at xs (o_IP x) = [] then None else Some (accum_of uni (obs_at xs (o_IP x))))"
    using IH by blast
  moreover have "add_observation uni (ips0, so0) x = (ips, sessionObs)" using snoc.prems st by simp
  ultimately have ips: "ips = AList.update (o_IP x) (accum_of uni (obs_at (xs @ [x]) (o_IP x))) ips0"
    and so: "sessionObs = AList.update (o_SessionID x) (obs_of so0 (o_SessionID x) @ [x]) so0"
    by (auto simp: add_observation_def obs_at_snoc accum_of_snoc Let_def split: if_splits)
  have "gomap ips" using IH by (simp add: ips)
  moreover have "fst ` set ips = o_IP ` set (xs @ [x])" using IH by (simp add: ips keys_update)
  moreover have "map_of ips ip = (if obs_at (xs @ [x]) ip = [] then None else Some (accum_of uni (obs_at (xs @ [x]) ip)))"
    for ip
    using IH by (auto simp: ips AList.update_conv' obs_at_snoc)
  moreover have "obs_of sessionObs sid = obs_by (xs @ [x]) sid" for sid
    using IH by (auto simp: so obs_of_def obs_by_def AList.update_conv')
  ultimately show ?case by blast
qed

definition observed_ips :: "ip_observation list \<Rightarrow> addr list" where
  "observed_ips obs = sorted_list_of_set (o_IP ` set obs)"

lemma sort_distinct_set: "distinct xs \<Longrightarrow> sort xs = sorted_list_of_set (set xs)"
  by (simp add: sorted_list_of_set_sort_remdups distinct_remdups_id)

lemma sortedIPs_accums:
  assumes "foldl (add_observation uni) ([], []) obs = (ips, sessionObs)"
  shows "sortedIPs ips = map (\<lambda>ip. accum_of uni (obs_at obs ip)) (observed_ips obs)"
proof -
  note ok = add_observations [OF assms]
  have "sort (map fst ips) = observed_ips obs"
    using ok sort_distinct_set [of "map fst ips"] by (simp add: gomap_def observed_ips_def)
  moreover have "the (map_of ips ip) = accum_of uni (obs_at obs ip)" if "ip \<in> set (observed_ips obs)" for ip
  proof -
    from that have "obs_at obs ip \<noteq> []" by (simp add: observed_ips_def obs_at_Nil_iff)
    moreover have "map_of ips ip = (if obs_at obs ip = [] then None else Some (accum_of uni (obs_at obs ip)))"
      using ok by blast
    ultimately show ?thesis by simp
  qed
  ultimately show ?thesis by (simp add: sortedIPs_def)
qed


subsection \<open>Counters of the report\<close>

definition composition_total :: "composition \<Rightarrow> int" where
  "composition_total c = Mobile c + Residential c + Datacenter c + Unknown c"

text \<open>The composition a list of categories must give.\<close>

definition composition_of :: "string list \<Rightarrow> composition" where
  "composition_of cs =
     \<lparr>Mobile = tally ''mobile'' cs, Residential = tally ''residential'' cs, Datacenter = tally ''datacenter'' cs,
      Unknown = int (length cs) - tally ''mobile'' cs - tally ''residential'' cs - tally ''datacenter'' cs\<rparr>"

lemma tally_simps [simp]: "tally x [] = 0" "tally x (xs @ [y]) = tally x xs + (if y = x then 1 else 0)"
  by (simp_all add: tally_def)

lemma tally_mset: "mset xs = mset ys \<Longrightarrow> tally x xs = tally x ys"
  unfolding tally_def by (metis mset_filter size_mset)

lemma applyComposition_of: "applyComposition (composition_of cs) c = composition_of (cs @ [c])"
  by (simp add: applyComposition_def composition_of_def)

lemma composition_of_Nil: "composition_of [] = zero_composition"
  by (simp add: composition_of_def zero_composition_def)

lemma composition_of_mset: "mset xs = mset ys \<Longrightarrow> composition_of xs = composition_of ys"
  using tally_mset [of xs ys] mset_eq_length [of xs ys] by (simp add: composition_of_def)

lemma composition_total_of [simp]: "composition_total (composition_of cs) = int (length cs)"
  by (simp add: composition_total_def composition_of_def)

definition bucket_of :: "int \<Rightarrow> nat" where
  "bucket_of score = (if score = 100 then 9 else nat (score div 10))"

text \<open>The histogram a list of scores must give.\<close>

definition histogram_of :: "int list \<Rightarrow> risk_bucket list" where
  "histogram_of scores =
     map (\<lambda>b. b\<lparr>rb_Count := int (length (filter (\<lambda>s. rb_Min b \<le> s \<and> s \<le> rb_Max b) scores))\<rparr>) newRiskHistogram"

lemma newRiskHistogram_nth:
  "i < 10 \<Longrightarrow> newRiskHistogram ! i =
     \<lparr>rb_Label = labelFor (int i * 10) (if i = 9 then 100 else int i * 10 + 9), rb_Min = int i * 10,
      rb_Max = (if i = 9 then 100 else int i * 10 + 9), rb_Count = 0\<rparr>"
  "length newRiskHistogram = 10"
  by (simp_all add: newRiskHistogram_def Let_def)

lemma bucket_range:
  assumes "0 \<le> score" and "score \<le> 100" and "i < 10"
  shows "int i * 10 \<le> score \<and> score \<le> (if i = 9 then 100 else int i * 10 + 9)
         \<longleftrightarrow> i = (if go_div score 10 = 10 then 9 else nat (go_div score 10))"
proof -
  have g: "go_div score 10 = score div 10" using assms by (simp add: go_div_nonneg)
  show ?thesis
  proof (cases "score = 100")
    case True
    with g assms(3) show ?thesis by auto
  next
    case False
    with assms have "score div 10 \<noteq> 10" "0 \<le> score div 10" by linarith+
    moreover have "i = 9 \<Longrightarrow> score \<le> 100 \<longleftrightarrow> score \<le> int i * 10 + 9" using False assms(2) by auto
    moreover have "int i * 10 \<le> score \<and> score \<le> int i * 10 + 9 \<longleftrightarrow> int i = score div 10" by linarith
    ultimately show ?thesis by (auto simp: g)
  qed
qed

lemma addRisk_histogram: "addRisk (histogram_of scores) s = histogram_of (scores @ [s])"
proof (cases "s < 0 \<or> s > 100")
  case True
  have "\<not> (rb_Min b \<le> s \<and> s \<le> rb_Max b)" if "b \<in> set newRiskHistogram" for b
    using that True by (auto simp: newRiskHistogram_def Let_def split: if_splits)
  then have "histogram_of (scores @ [s]) = histogram_of scores" by (auto simp: histogram_of_def)
  with True show ?thesis by (simp add: addRisk_def)
next
  case False
  let ?i = "if go_div s 10 = 10 then 9 else nat (go_div s 10)"
  have s: "0 \<le> s" "s \<le> 100" using False by simp_all
  have i: "?i < 10" using s by (auto simp: go_div_nonneg)
  have "nat (if go_div s 10 = 10 then 9 else go_div s 10) = ?i" by simp
  with False have "addRisk (histogram_of scores) s =
      (histogram_of scores)[?i := (histogram_of scores ! ?i)\<lparr>rb_Count := rb_Count (histogram_of scores ! ?i) + 1\<rparr>]"
    by (simp add: addRisk_def Let_def)
  also have "\<dots> = histogram_of (scores @ [s])"
  proof (rule nth_equalityI)
    fix j assume "j < length ((histogram_of scores)[?i := (histogram_of scores ! ?i)\<lparr>rb_Count := rb_Count (histogram_of scores ! ?i) + 1\<rparr>])"
    then have j: "j < 10" by (simp add: histogram_of_def newRiskHistogram_nth(2))
    have in_bucket: "rb_Min (newRiskHistogram ! j) \<le> s \<and> s \<le> rb_Max (newRiskHistogram ! j) \<longleftrightarrow> j = ?i"
      using bucket_range [OF s j] j by (simp add: newRiskHistogram_nth)
    show "(histogram_of scores)[?i := (histogram_of scores ! ?i)\<lparr>rb_Count := rb_Count (histogram_of scores ! ?i) + 1\<rparr>] ! j
        = histogram_of (scores @ [s]) ! j"
    proof (cases "j = ?i")
      case True
      with in_bucket j show ?thesis
        by (simp add: histogram_of_def newRiskHistogram_nth(2) nth_list_update)
    next
      case f: False
      then have "\<not> (rb_Min (newRiskHistogram ! j) \<le> s \<and> s \<le> rb_Max (newRiskHistogram ! j))"
        using in_bucket by blast
      with f j show ?thesis
        by (auto simp: histogram_of_def newRiskHistogram_nth(2) nth_list_update)
    qed
  qed (simp add: histogram_of_def)
  finally show ?thesis .
qed

lemma histogram_of_Nil: "histogram_of [] = newRiskHistogram"
  by (rule nth_equalityI) (simp_all add: histogram_of_def newRiskHistogram_nth)

text \<open>The report loop over accumulators, in closed form.\<close>

definition risk_scores :: "ip_row list \<Rightarrow> int list" where
  "risk_scores rows = List.map_filter row_RiskScore rows"

lemma report_loop:
  "foldl report_step empty_report accums =
     empty_report\<lparr>pr_Composition := composition_of (map (row_Category \<circ> ia_row) accums),
       pr_FlaggedIPs := int (length (filter ia_flagged accums)),
       pr_DNSBLHitIPs := int (length (filter (row_DNSBLListed \<circ> ia_row) accums)),
       pr_RiskHistogram := histogram_of (risk_scores (map ia_row accums)),
       pr_IPs := map ia_row accums\<rparr>"
proof (induction accums rule: rev_induct)
  case Nil
  then show ?case by (simp add: empty_report_def composition_of_Nil histogram_of_Nil risk_scores_def map_filter_simps)
next
  case (snoc a accums)
  then show ?case
    by (simp add: report_step_def Let_def applyComposition_of addRisk_histogram risk_scores_def
        map_filter_def split: option.splits)
qed

subsection \<open>Cells\<close>

lemma dedup_from_snoc:
  "dedup_from seen (xs @ [x]) = dedup_from seen xs @ (if x \<in> set seen \<union> set xs then [] else [x])"
  by (induction xs arbitrary: seen) auto

text \<open>The effect of one variant on the accumulator of its cell.\<close>

definition cell_step ::
  "(variant_session \<Rightarrow> honor_outcome) \<Rightarrow> (uuid \<Rightarrow> ip_observation list) \<Rightarrow> cell_accum \<Rightarrow> variant_session \<Rightarrow> cell_accum" where
  "cell_step out obs a v =
     (let b = foldl add_cell_ip
                (a\<lparr>ca_variantCount := ca_variantCount a + 1,
                   ca_targetCountry := (if ca_targetCountry a = [] then vs_TargetCountry v else ca_targetCountry a)\<rparr>)
                (obs (vs_SessionID v))
      in b\<lparr>ca_sampled := ca_sampled b + (if out v = honorUnknown then 0 else 1),
           ca_honored := ca_honored b + (if out v = honorMatch then 1 else 0)\<rparr>)"

definition honor_of ::
  "(string \<Rightarrow> string \<Rightarrow> bool) \<Rightarrow> (string \<Rightarrow> string) \<Rightarrow> (string \<Rightarrow> (string, string) gomap) \<Rightarrow>
   (uuid \<Rightarrow> ip_observation list) \<Rightarrow> variant_session \<Rightarrow> honor_outcome" where
  "honor_of uni lower unmarshal obs v =
     variantHonor uni lower unmarshal (vs_Params v) (vs_TargetCountry v) (obs (vs_SessionID v))"

lemma add_variant_cell:
  fixes uni lower unmarshal so
  defines "out \<equiv> honor_of uni lower unmarshal (obs_of so)"
  shows "add_variant uni lower unmarshal so st v =
     \<lparr>hs_order = hs_order st @ (if map_of (hs_cells st) (vs_CellKey v) = None then [vs_CellKey v] else []),
      hs_cells = AList.update (vs_CellKey v)
        (cell_step out (obs_of so) (case map_of (hs_cells st) (vs_CellKey v) of None \<Rightarrow> new_cell | Some a \<Rightarrow> a) v)
        (hs_cells st),
      hs_honored = hs_honored st + (if out v = honorMatch then 1 else 0),
      hs_sampled = hs_sampled st + (if out v = honorUnknown then 0 else 1)\<rparr>"
  by (cases "honor_of uni lower unmarshal (obs_of so) v")
     (simp_all add: add_variant_def cell_step_def out_def honor_of_def Let_def)

definition cell_variants :: "variant_session list \<Rightarrow> string \<Rightarrow> variant_session list" where
  "cell_variants vs key = filter (\<lambda>v. vs_CellKey v = key) vs"

lemma cell_variants_Nil_iff: "cell_variants vs key = [] \<longleftrightarrow> key \<notin> vs_CellKey ` set vs"
  by (auto simp: cell_variants_def filter_empty_conv)

definition cell_state ::
  "(variant_session \<Rightarrow> honor_outcome) \<Rightarrow> (uuid \<Rightarrow> ip_observation list) \<Rightarrow> variant_session list \<Rightarrow> cell_accum" where
  "cell_state out obs vs = foldl (cell_step out obs) new_cell vs"

lemma cell_state_snoc: "cell_state out obs (vs @ [v]) = cell_step out obs (cell_state out obs vs) v"
  by (simp add: cell_state_def)

lemma cell_state_Nil: "cell_state out obs [] = new_cell"
  by (simp add: cell_state_def)

text \<open>The variant loop, in closed form.\<close>

lemma add_variants:
  fixes uni lower unmarshal so
  defines "out \<equiv> honor_of uni lower unmarshal (obs_of so)"
  assumes "foldl (add_variant uni lower unmarshal so)
             \<lparr>hs_order = [], hs_cells = [], hs_honored = 0, hs_sampled = 0\<rparr> vs = st"
  shows "hs_order st = dedup_from [] (map vs_CellKey vs)
     \<and> (\<forall>key. map_of (hs_cells st) key =
           (if cell_variants vs key = [] then None else Some (cell_state out (obs_of so) (cell_variants vs key))))
     \<and> hs_honored st = int (length (filter (\<lambda>v. out v = honorMatch) vs))
     \<and> hs_sampled st = int (length (filter (\<lambda>v. out v \<noteq> honorUnknown) vs))"
  using assms(2)
proof (induction vs arbitrary: st rule: rev_induct)
  case Nil
  then show ?case by (auto simp: cell_variants_def)
next
  case (snoc v vs)
  define st0 where "st0 = foldl (add_variant uni lower unmarshal so)
             \<lparr>hs_order = [], hs_cells = [], hs_honored = 0, hs_sampled = 0\<rparr> vs"
  note IH = snoc.IH [OF st0_def [symmetric]]
  have st: "st = add_variant uni lower unmarshal so st0 v" using snoc.prems by (simp add: st0_def)
  have known: "map_of (hs_cells st0) key = None \<longleftrightarrow> key \<notin> vs_CellKey ` set vs" for key
    using IH by (auto simp: cell_variants_Nil_iff)
  have "hs_order st = dedup_from [] (map vs_CellKey (vs @ [v]))"
    using IH by (simp add: st add_variant_cell known dedup_from_snoc cell_variants_Nil_iff)
  moreover have "map_of (hs_cells st) key = (if cell_variants (vs @ [v]) key = [] then None
      else Some (cell_state out (obs_of so) (cell_variants (vs @ [v]) key)))" for key
  proof (cases "key = vs_CellKey v")
    case True
    have "(case map_of (hs_cells st0) key of None \<Rightarrow> new_cell | Some a \<Rightarrow> a)
        = cell_state out (obs_of so) (cell_variants vs key)"
      using IH by (simp add: cell_state_Nil)
    with True show ?thesis
      by (simp add: st add_variant_cell AList.update_conv' cell_variants_def cell_state_snoc out_def)
  next
    case False
    with IH show ?thesis by (simp add: st add_variant_cell AList.update_conv' cell_variants_def)
  qed
  moreover have "hs_honored st = int (length (filter (\<lambda>v. out v = honorMatch) (vs @ [v])))"
    using IH by (simp add: st add_variant_cell out_def)
  moreover have "hs_sampled st = int (length (filter (\<lambda>v. out v \<noteq> honorUnknown) (vs @ [v])))"
    using IH by (simp add: st add_variant_cell out_def)
  ultimately show ?case by blast
qed

text \<open>Only new addresses count towards a cell.\<close>

lemma add_cell_ips:
  "foldl add_cell_ip a xs =
     a\<lparr>ca_ips := ca_ips (foldl add_cell_ip a xs), ca_composition := ca_composition (foldl add_cell_ip a xs)\<rparr>
   \<and> set (ca_ips (foldl add_cell_ip a xs)) = set (ca_ips a) \<union> o_IP ` set xs
   \<and> (distinct (ca_ips a) \<longrightarrow> distinct (ca_ips (foldl add_cell_ip a xs)))
   \<and> (composition_total (ca_composition a) = int (length (ca_ips a)) \<longrightarrow>
       composition_total (ca_composition (foldl add_cell_ip a xs)) = int (length (ca_ips (foldl add_cell_ip a xs))))"
proof (induction xs arbitrary: a)
  case (Cons x xs)
  have "composition_total (applyComposition c k) = composition_total c + 1" for c k
    by (simp add: composition_total_def applyComposition_def)
  with Cons [of "add_cell_ip a x"] show ?case
    by (cases "o_IP x \<in> set (ca_ips a)") (auto simp: add_cell_ip_def)
qed simp

definition first_target :: "variant_session list \<Rightarrow> string" where
  "first_target vs = (case filter (\<lambda>t. t \<noteq> []) (map vs_TargetCountry vs) of [] \<Rightarrow> [] | t # _ \<Rightarrow> t)"

definition cell_ips :: "(uuid \<Rightarrow> ip_observation list) \<Rightarrow> variant_session list \<Rightarrow> addr set" where
  "cell_ips obs vs = (\<Union>v \<in> set vs. o_IP ` set (obs (vs_SessionID v)))"

lemma first_target_snoc:
  "first_target (vs @ [v]) = (if first_target vs = [] then vs_TargetCountry v else first_target vs)"
proof -
  define ts where "ts = filter (\<lambda>t. t \<noteq> []) (map vs_TargetCountry vs)"
  have ne: "t \<noteq> []" if "t \<in> set ts" for t using that by (simp add: ts_def)
  have "first_target vs = (case ts of [] \<Rightarrow> [] | t # _ \<Rightarrow> t)"
    by (simp only: first_target_def ts_def)
  moreover have "first_target (vs @ [v])
      = (case ts @ filter (\<lambda>t. t \<noteq> []) [vs_TargetCountry v] of [] \<Rightarrow> [] | t # _ \<Rightarrow> t)"
    by (simp only: first_target_def ts_def map_append filter_append list.map)
  ultimately show ?thesis using ne by (cases ts) auto
qed

lemma cell_state_ok:
  "ca_variantCount (cell_state out obs vs) = int (length vs)
   \<and> ca_targetCountry (cell_state out obs vs) = first_target vs
   \<and> ca_honored (cell_state out obs vs) = int (length (filter (\<lambda>v. out v = honorMatch) vs))
   \<and> ca_sampled (cell_state out obs vs) = int (length (filter (\<lambda>v. out v \<noteq> honorUnknown) vs))
   \<and> set (ca_ips (cell_state out obs vs)) = cell_ips obs vs
   \<and> distinct (ca_ips (cell_state out obs vs))
   \<and> composition_total (ca_composition (cell_state out obs vs)) = int (length (ca_ips (cell_state out obs vs)))"
proof (induction vs rule: rev_induct)
  case Nil
  show ?case
    by (simp add: cell_state_Nil new_cell_def cell_ips_def first_target_def composition_total_def zero_composition_def)
next
  case (snoc v vs)
  define a where "a = (cell_state out obs vs)
    \<lparr>ca_variantCount := ca_variantCount (cell_state out obs vs) + 1,
     ca_targetCountry := (if ca_targetCountry (cell_state out obs vs) = [] then vs_TargetCountry v
                          else ca_targetCountry (cell_state out obs vs))\<rparr>"
  define b where "b = foldl add_cell_ip a (obs (vs_SessionID v))"
  have step: "cell_state out obs (vs @ [v]) =
      b\<lparr>ca_sampled := ca_sampled b + (if out v = honorUnknown then 0 else 1),
        ca_honored := ca_honored b + (if out v = honorMatch then 1 else 0)\<rparr>"
    by (simp add: cell_state_snoc cell_step_def Let_def a_def b_def)
  note b = add_cell_ips [of a "obs (vs_SessionID v)", folded b_def]
  have same: "ca_variantCount b = ca_variantCount a" "ca_targetCountry b = ca_targetCountry a"
    "ca_honored b = ca_honored a" "ca_sampled b = ca_sampled a"
    by (subst conjunct1 [OF b], simp)+
  show ?case
    using snoc b by (simp add: step same, simp add: a_def first_target_snoc cell_ips_def Un_commute)
qed

lemma sum_cells:
  assumes "distinct ks" and "f ` set vs \<subseteq> set ks"
  shows "sum_list (map (\<lambda>k. int (length (filter (\<lambda>v. f v = k) vs))) ks) = int (length vs)"
  using assms(2)
proof (induction vs)
  case (Cons v vs)
  have one: "sum_list (map (\<lambda>k. if f v = k then 1 else (0::int)) ks) = 1"
    using assms(1) Cons.prems by (simp add: sum_list_distinct_conv_sum_set)
  have "(\<lambda>k. int (length (filter (\<lambda>w. f w = k) (v # vs))))
      = (\<lambda>k. (if f v = k then 1 else 0) + int (length (filter (\<lambda>w. f w = k) vs)))" by auto
  with Cons one show ?case by (simp only: sum_list_addf) simp
qed simp

definition honored_rate :: "(variant_session \<Rightarrow> honor_outcome) \<Rightarrow> variant_session list \<Rightarrow> rat option" where
  "honored_rate out vs = rate (int (length (filter (\<lambda>v. out v = honorMatch) vs)))
                              (int (length (filter (\<lambda>v. out v \<noteq> honorUnknown) vs)))"

lemma honored_rate_unit: "pred_option (\<lambda>q. 0 \<le> q \<and> q \<le> 1) (honored_rate out vs)"
proof -
  have "length (filter (\<lambda>v. out v = honorMatch) vs) \<le> length (filter (\<lambda>v. out v \<noteq> honorUnknown) vs)"
    by (induction vs) auto
  then show ?thesis by (simp add: honored_rate_def rate_def divide_le_eq_1)
qed

lemma buildHonorAndCells_spec:
  assumes "\<And>sid. obs_of so sid = obs sid"
  shows "buildHonorAndCells uni lower unmarshal vs so =
     (honored_rate (honor_of uni lower unmarshal obs) vs,
      map (\<lambda>key. cell_of key (cell_state (honor_of uni lower unmarshal obs) obs (cell_variants vs key)))
        (dedup_from [] (map vs_CellKey vs)))"
proof -
  have o: "obs_of so = obs" using assms by (rule ext)
  define st where "st = foldl (add_variant uni lower unmarshal so)
      \<lparr>hs_order = [], hs_cells = [], hs_honored = 0, hs_sampled = 0\<rparr> vs"
  note ok = add_variants [OF st_def [symmetric], unfolded o]
  have "the (map_of (hs_cells st) key) = cell_state (honor_of uni lower unmarshal obs) obs (cell_variants vs key)"
    if "key \<in> set (dedup_from [] (map vs_CellKey vs))" for key
  proof -
    from that have "cell_variants vs key \<noteq> []"
      by (simp add: set_dedup_from cell_variants_Nil_iff)
    with ok show ?thesis by simp
  qed
  then show ?thesis using ok by (simp add: buildHonorAndCells_def st_def [symmetric] Let_def honored_rate_def)
qed


subsection \<open>The report\<close>

text \<open>The whole report in closed form.\<close>

lemma BuildPoolReport_spec:
  fixes uni obs
  defines "ips \<equiv> observed_ips obs" and "acc \<equiv> \<lambda>ip. accum_of uni (obs_at obs ip)"
  shows "BuildPoolReport uni lower unmarshal vs obs =
     \<lparr>pr_DistinctIPs = int (length ips),
      pr_EstimatedPoolSize = Estimate (Chao1 (map (\<lambda>ip. int (card (o_SessionID ` set (obs_at obs ip)))) ips)),
      pr_PoolSizeLowerBound = LowerBound (Chao1 (map (\<lambda>ip. int (card (o_SessionID ` set (obs_at obs ip)))) ips)),
      pr_Composition = composition_of (map (\<lambda>ip. row_Category (merged_row (obs_at obs ip))) ips),
      pr_RiskHistogram = histogram_of (risk_scores (map (\<lambda>ip. merged_row (obs_at obs ip)) ips)),
      pr_FlaggedIPs = int (length (filter (\<lambda>ip. ia_flagged (acc ip)) ips)),
      pr_FlaggedPercent = (if ips = [] then 0
         else of_int (int (length (filter (\<lambda>ip. ia_flagged (acc ip)) ips))) * 100 / of_int (int (length ips))),
      pr_DNSBLHitIPs = int (length (filter (\<lambda>ip. row_DNSBLListed (merged_row (obs_at obs ip))) ips)),
      pr_HonorRate = honored_rate (honor_of uni lower unmarshal (obs_by obs)) vs,
      pr_Cells = map (\<lambda>key. cell_of key (cell_state (honor_of uni lower unmarshal (obs_by obs)) (obs_by obs) (cell_variants vs key)))
        (dedup_from [] (map vs_CellKey vs)),
      pr_IPs = map (\<lambda>ip. merged_row (obs_at obs ip)) ips\<rparr>"
proof -
  obtain m so where st: "foldl (add_observation uni) ([], []) obs = (m, so)" by fastforce
  note ok = add_observations [OF st]
  have len: "length m = length ips"
    using ok gomap_length [of m] by (simp add: ips_def observed_ips_def)
  have row: "ia_row (acc ip) = merged_row (obs_at obs ip)" for ip by (simp add: acc_def accum_of_def)
  have freq: "int (length (ia_variants (acc ip))) = int (card (o_SessionID ` set (obs_at obs ip)))" for ip
    using ia_variants_accum_of [of uni "obs_at obs ip"] distinct_card [of "ia_variants (acc ip)"]
    by (simp add: acc_def)
  have cells: "obs_of so sid = obs_by obs sid" for sid using ok by blast
  have accums: "sortedIPs m = map acc ips" unfolding acc_def ips_def by (rule sortedIPs_accums [OF st])
  have "0 < int (length m) \<longleftrightarrow> ips \<noteq> []" unfolding len by simp
  then show ?thesis
    unfolding BuildPoolReport_def st prod.case accums buildHonorAndCells_spec [OF cells] report_loop Let_def len
    by (simp add: comp_def row freq filter_map empty_report_def)
qed

subsection \<open>Properties of the report\<close>

lemma set_observed_ips [simp]: "set (observed_ips obs) = o_IP ` set obs"
  by (simp add: observed_ips_def)

lemma row_HitCount_merged [simp]: "row_HitCount (merged_row xs) = sum_list (map o_HitCount xs)"
  by (simp add: merged_row_def)

lemma sum_by_key:
  assumes "distinct ks" and "f ` set xs \<subseteq> set ks"
  shows "sum_list (map (\<lambda>k. sum_list (map (g :: _ \<Rightarrow> int) (filter (\<lambda>x. f x = k) xs))) ks) = sum_list (map g xs)"
  using assms(2)
proof (induction xs)
  case (Cons x xs)
  have one: "sum_list (map (\<lambda>k. if f x = k then g x else 0) ks) = g x"
    using assms(1) Cons.prems by (simp add: sum_list_distinct_conv_sum_set)
  have "(\<lambda>k. sum_list (map g (filter (\<lambda>y. f y = k) (x # xs))))
      = (\<lambda>k. (if f x = k then g x else 0) + sum_list (map g (filter (\<lambda>y. f y = k) xs)))" by auto
  with Cons one show ?case by (simp only: sum_list_addf) simp
qed simp

text \<open>
  C31: the report lists every observed exit IP exactly once, in address order; each row carries the
  reputation fields of the first observation, the summed hits and the earliest and latest times, so
  no hit is lost or counted twice.
\<close>

theorem pool_report_rows:
  "pr_IPs (BuildPoolReport uni lower unmarshal vs obs) = map (\<lambda>ip. merged_row (obs_at obs ip)) (observed_ips obs)
   \<and> sorted_wrt (<) (observed_ips obs) \<and> set (observed_ips obs) = o_IP ` set obs
   \<and> pr_DistinctIPs (BuildPoolReport uni lower unmarshal vs obs) = int (card (o_IP ` set obs))
   \<and> sum_list (map row_HitCount (pr_IPs (BuildPoolReport uni lower unmarshal vs obs))) = sum_list (map o_HitCount obs)"
proof -
  have "sum_list (map (\<lambda>ip. sum_list (map o_HitCount (obs_at obs ip))) (observed_ips obs)) = sum_list (map o_HitCount obs)"
    unfolding obs_at_def by (rule sum_by_key) (simp_all add: observed_ips_def)
  moreover have "int (length (observed_ips obs)) = int (card (o_IP ` set obs))"
    by (simp add: observed_ips_def)
  moreover have "sorted_wrt (<) (observed_ips obs)" by (simp add: observed_ips_def)
  ultimately show ?thesis by (simp add: BuildPoolReport_spec comp_def)
qed

lemma row_Category_canonical: "row_Category (merged_row xs) \<in> {''mobile'', ''residential'', ''datacenter'', ''unknown''}"
  by (simp add: merged_row_def newIPRow_def NormalizeCategory_def Let_def split: option.splits)

lemma histogram_partition:
  "(\<Sum>b\<leftarrow>histogram_of scores. rb_Count b) = int (length (filter (\<lambda>s. 0 \<le> s \<and> s \<le> 100) scores))"
proof -
  have buckets: "(\<Sum>b\<leftarrow>newRiskHistogram. if rb_Min b \<le> s \<and> s \<le> rb_Max b then 1 else (0::int))
      = (if 0 \<le> s \<and> s \<le> 100 then 1 else 0)" for s
    by (simp add: newRiskHistogram_def Let_def upt_rec [of _ 10])
  show ?thesis
  proof (induction scores)
    case Nil
    show ?case by (simp add: histogram_of_Nil newRiskHistogram_def Let_def upt_rec [of _ 10])
  next
    case (Cons s scores)
    have "(\<Sum>b\<leftarrow>histogram_of (s # scores). rb_Count b) =
        (\<Sum>b\<leftarrow>newRiskHistogram. (if rb_Min b \<le> s \<and> s \<le> rb_Max b then 1 else 0)
           + int (length (filter (\<lambda>s. rb_Min b \<le> s \<and> s \<le> rb_Max b) scores)))"
      by (auto simp: histogram_of_def intro!: arg_cong [where f = sum_list])
    also have "\<dots> = (if 0 \<le> s \<and> s \<le> 100 then 1 else 0) + (\<Sum>b\<leftarrow>histogram_of scores. rb_Count b)"
      by (simp only: sum_list_addf buckets) (simp add: histogram_of_def comp_def)
    finally show ?case using Cons by simp
  qed
qed

text \<open>
  the counters describe the rows: the composition is the tally of the (canonical) row categories
  and sums to the number of distinct IPs; the risk histogram counts each in-range score once, in the
  bin containing it; flagged IPs never exceed the distinct IPs and the percentage is within 0..100.
\<close>

theorem pool_report_counters:
  fixes uni lower unmarshal vs obs
  defines "rep \<equiv> BuildPoolReport uni lower unmarshal vs obs"
  shows "pr_Composition rep = composition_of (map row_Category (pr_IPs rep))
     \<and> set (map row_Category (pr_IPs rep)) \<subseteq> {''mobile'', ''residential'', ''datacenter'', ''unknown''}
     \<and> composition_total (pr_Composition rep) = pr_DistinctIPs rep
     \<and> pr_RiskHistogram rep = histogram_of (risk_scores (pr_IPs rep))
     \<and> (\<Sum>b\<leftarrow>pr_RiskHistogram rep. rb_Count b)
         = int (length (filter (\<lambda>s. 0 \<le> s \<and> s \<le> 100) (risk_scores (pr_IPs rep))))
     \<and> pr_FlaggedIPs rep \<le> pr_DistinctIPs rep
     \<and> 0 \<le> pr_FlaggedPercent rep \<and> pr_FlaggedPercent rep \<le> 100"
proof -
  note spec = BuildPoolReport_spec [of uni lower unmarshal vs obs, folded rep_def]
  have comp: "pr_Composition rep = composition_of (map row_Category (pr_IPs rep))" by (simp add: spec comp_def)
  moreover have "set (map row_Category (pr_IPs rep)) \<subseteq> {''mobile'', ''residential'', ''datacenter'', ''unknown''}"
    using row_Category_canonical by (auto simp: spec)
  moreover have "composition_total (pr_Composition rep) = pr_DistinctIPs rep"
    unfolding comp by (simp add: spec)
  moreover have hist: "pr_RiskHistogram rep = histogram_of (risk_scores (pr_IPs rep))" by (simp add: spec)
  moreover have "(\<Sum>b\<leftarrow>pr_RiskHistogram rep. rb_Count b)
      = int (length (filter (\<lambda>s. 0 \<le> s \<and> s \<le> 100) (risk_scores (pr_IPs rep))))"
    unfolding hist by (rule histogram_partition)
  moreover have "pr_FlaggedIPs rep \<le> pr_DistinctIPs rep" by (simp add: spec)
  moreover have "0 \<le> pr_FlaggedPercent rep \<and> pr_FlaggedPercent rep \<le> 100"
    by (simp add: spec divide_le_eq)
  ultimately show ?thesis by blast
qed

text \<open>
  the cells partition the variants by cell key, in order of first appearance; each cell counts its
  variants, its distinct IPs and their composition; honor rates, per cell and overall, are matches over
  comparable variants, within 0..1, and absent when nothing was comparable.
\<close>

theorem pool_report_cells:
  fixes uni lower unmarshal vs obs
  defines "rep \<equiv> BuildPoolReport uni lower unmarshal vs obs"
    and "out \<equiv> honor_of uni lower unmarshal (obs_by obs)"
  shows "map cr_CellKey (pr_Cells rep) = dedup_from [] (map vs_CellKey vs)
     \<and> (\<Sum>c\<leftarrow>pr_Cells rep. cr_VariantCount c) = int (length vs)
     \<and> pr_HonorRate rep = honored_rate out vs \<and> pred_option (\<lambda>q. 0 \<le> q \<and> q \<le> 1) (pr_HonorRate rep)
     \<and> list_all (\<lambda>c. let members = cell_variants vs (cr_CellKey c) in
            cr_VariantCount c = int (length members)
          \<and> cr_TargetCountry c = first_target members
          \<and> cr_DistinctIPs c = int (card (cell_ips (obs_by obs) members))
          \<and> composition_total (cr_Composition c) = cr_DistinctIPs c
          \<and> cr_HonorRate c = honored_rate out members) (pr_Cells rep)"
proof -
  note spec = BuildPoolReport_spec [of uni lower unmarshal vs obs, folded rep_def out_def]
  note cell = cell_state_ok [of out "obs_by obs"]
  have count: "int (length (ca_ips (cell_state out (obs_by obs) ms))) = int (card (cell_ips (obs_by obs) ms))" for ms
    using cell [of ms] distinct_card by metis
  have "map cr_CellKey (pr_Cells rep) = dedup_from [] (map vs_CellKey vs)"
    by (simp add: spec cell_of_def comp_def)
  moreover have "(\<Sum>c\<leftarrow>pr_Cells rep. cr_VariantCount c) = int (length vs)"
    using sum_cells [of "dedup_from [] (map vs_CellKey vs)" vs_CellKey vs] cell
    by (simp add: spec cell_of_def comp_def dedup_simps cell_variants_def)
  moreover have "list_all (\<lambda>c. let members = cell_variants vs (cr_CellKey c) in
            cr_VariantCount c = int (length members)
          \<and> cr_TargetCountry c = first_target members
          \<and> cr_DistinctIPs c = int (card (cell_ips (obs_by obs) members))
          \<and> composition_total (cr_Composition c) = cr_DistinctIPs c
          \<and> cr_HonorRate c = honored_rate out members) (pr_Cells rep)"
    using cell count by (simp add: spec cell_of_def list_all_iff Let_def honored_rate_def)
  ultimately show ?thesis using honored_rate_unit [of out vs] by (simp add: spec)
qed

lemma unique_max_order:
  assumes "gomap ws" and "\<forall>(k, w) \<in> set ws. k \<noteq> [] \<and> 0 < w" and "mset ws = mset ws'"
  shows "unique_max ws = unique_max ws'"
proof -
  have set_eq: "set ws = set ws'" using assms(3) by (rule mset_eq_setD)
  have "mset (map fst ws) = mset (map fst ws')" using assms(3) by simp
  then have g: "gomap ws'" using assms(1) unfolding gomap_def by (metis mset_eq_imp_distinct_iff)
  have "map_of ws = map_of ws'"
    using assms(1) g set_eq unfolding gomap_def by (simp add: map_of_inject_set)
  then have "count_of ws = count_of ws'" by (simp add: count_of_def fun_eq_iff)
  then have "unique_max ws = v \<and> v \<noteq> [] \<longleftrightarrow> unique_max ws' = v \<and> v \<noteq> []" for v
    using unique_max_iff [OF assms(1,2), of v] unique_max_iff [OF g, of v] assms(2) set_eq by simp
  then show ?thesis by metis
qed

text \<open>
  the dominant value of a variant is the strictly heaviest non-empty one, every reputed
  observation weighing its hits but at least one; a tie or no reputation at all gives the empty
  string, whatever order the weight map is iterated in.
\<close>

theorem dominant_unique_maximum:
  "(dominant obs pick = v \<and> v \<noteq> []) =
     (v \<noteq> [] \<and> 0 < weight_of pick obs v
      \<and> {u. u \<noteq> [] \<and> weight_of pick obs v \<le> weight_of pick obs u} = {v})
   \<and> unique_max ` {ws. mset ws = mset (dominant_weights pick [] obs)} = {dominant obs pick}"
proof
  show "(dominant obs pick = v \<and> v \<noteq> []) =
     (v \<noteq> [] \<and> 0 < weight_of pick obs v
      \<and> {u. u \<noteq> [] \<and> weight_of pick obs v \<le> weight_of pick obs u} = {v})"
    unfolding dominant_iff by (auto simp: not_le [symmetric])
  have "unique_max ws = dominant obs pick" if "mset ws = mset (dominant_weights pick [] obs)" for ws
    unfolding dominant_def using unique_max_order [OF dominant_weights_ok(1,2) that [symmetric]] by simp
  then show "unique_max ` {ws. mset ws = mset (dominant_weights pick [] obs)} = {dominant obs pick}"
    by auto
qed

text \<open>The country and ISP a variant asked for; the manual target overrides the country axis.\<close>

definition wanted_country :: "(string \<Rightarrow> (string, string) gomap) \<Rightarrow> string \<Rightarrow> string \<Rightarrow> string" where
  "wanted_country unmarshal params target =
     (if target \<noteq> [] then target else firstParam (unmarshal params) [''country'', ''cc''])"

definition wanted_isp :: "(string \<Rightarrow> (string, string) gomap) \<Rightarrow> string \<Rightarrow> string" where
  "wanted_isp unmarshal params = firstParam (unmarshal params) [''isp'']"

text \<open>How one requested field compares: nothing asked, nothing known, same or different.\<close>

datatype field_outcome = NotAsked | NotKnown | Same | Different

definition field_outcome :: "(string \<Rightarrow> string \<Rightarrow> bool) \<Rightarrow> string \<Rightarrow> string \<Rightarrow> field_outcome" where
  "field_outcome same wanted observed =
     (if wanted = [] then NotAsked else if observed = [] then NotKnown
      else if same observed wanted then Same else Different)"

text \<open>
  a variant honors its targeting exactly when something was asked and every asked field has a known
  dominant value that agrees; a single proven difference is a mismatch, even when the other field is
  unknown; everything else is unknown.
\<close>

theorem variantHonor_tristate:
  fixes uni lower unmarshal params target obs
  defines "asked \<equiv> {field_outcome (equal_fold uni) (wanted_country unmarshal params target) (dominant obs Country),
                      field_outcome (\<lambda>observed wanted. ispMatches lower wanted observed)
                        (wanted_isp unmarshal params) (dominant obs ISP)}"
  shows "variantHonor uni lower unmarshal params target obs =
     (if Different \<in> asked then honorMismatch
      else if NotKnown \<in> asked \<or> asked = {NotAsked} then honorUnknown else honorMatch)"
  unfolding asked_def
  by (auto simp: variantHonor_def wanted_country_def wanted_isp_def field_outcome_def Let_def)

text \<open>Permuting the observations.\<close>

lemma honor_of_mset:
  assumes "\<And>sid. mset (obs sid) = mset (obs' sid)"
  shows "honor_of uni lower unmarshal obs = honor_of uni lower unmarshal obs'"
  by (rule ext) (simp add: honor_of_def variantHonor_def dominant_mset [OF assms])

lemma add_cell_ips_composition:
  assumes "\<forall>x \<in> set xs. NormalizeCategory (reputationCategory (o_Reputation x)) = cat (o_IP x)"
    and "ca_composition a = composition_of (map cat (rev (ca_ips a)))"
  shows "ca_composition (foldl add_cell_ip a xs) = composition_of (map cat (rev (ca_ips (foldl add_cell_ip a xs))))"
  using assms
proof (induction xs arbitrary: a)
  case (Cons x xs)
  then show ?case by (simp add: add_cell_ip_def applyComposition_of)
qed simp

lemma cell_state_composition:
  assumes "\<forall>v \<in> set vs. \<forall>x \<in> set (obs (vs_SessionID v)).
             NormalizeCategory (reputationCategory (o_Reputation x)) = cat (o_IP x)"
  shows "ca_composition (cell_state out obs vs) = composition_of (map cat (rev (ca_ips (cell_state out obs vs))))"
  using assms
proof (induction vs rule: rev_induct)
  case Nil
  show ?case by (simp add: cell_state_Nil new_cell_def composition_of_Nil)
next
  case (snoc v vs)
  have IH: "ca_composition (cell_state out obs vs) = composition_of (map cat (rev (ca_ips (cell_state out obs vs))))"
    using snoc by simp
  show ?case
    unfolding cell_state_snoc cell_step_def Let_def
    using add_cell_ips_composition [of "obs (vs_SessionID v)" cat] snoc.prems IH by simp
qed

lemma cell_of_closed:
  assumes "\<forall>v \<in> set vs. \<forall>x \<in> set (obs (vs_SessionID v)).
             NormalizeCategory (reputationCategory (o_Reputation x)) = cat (o_IP x)"
  shows "cell_of key (cell_state out obs vs) =
     \<lparr>cr_CellKey = key, cr_Params = key, cr_TargetCountry = first_target vs, cr_VariantCount = int (length vs),
      cr_DistinctIPs = int (card (cell_ips obs vs)), cr_HonorRate = honored_rate out vs,
      cr_Composition = composition_of (map cat (sorted_list_of_set (cell_ips obs vs)))\<rparr>"
proof -
  let ?ips = "ca_ips (cell_state out obs vs)"
  note ok = cell_state_ok [of out obs vs]
  have ips: "set ?ips = cell_ips obs vs" "distinct ?ips" using ok by blast+
  have "finite (cell_ips obs vs)" unfolding ips(1) [symmetric] by simp
  with ips have "mset (rev ?ips) = mset (sorted_list_of_set (cell_ips obs vs))"
    by (metis set_eq_iff_mset_eq_distinct distinct_rev set_rev
        sorted_list_of_set.distinct_sorted_key_list_of_set sorted_list_of_set.set_sorted_key_list_of_set)
  then have "mset (map cat (rev ?ips)) = mset (map cat (sorted_list_of_set (cell_ips obs vs)))"
    by (metis mset_map)
  then have comp: "ca_composition (cell_state out obs vs) = composition_of (map cat (sorted_list_of_set (cell_ips obs vs)))"
    unfolding cell_state_composition [OF assms] by (rule composition_of_mset)
  have card: "length ?ips = card (cell_ips obs vs)" using ips distinct_card by metis
  show ?thesis using ok comp card by (simp add: cell_of_def honored_rate_def)
qed

lemma merged_row_mset:
  assumes "\<forall>x \<in> set xs. o_IP x = ip \<and> o_Reputation x = rep" and "mset xs = mset ys" and "xs \<noteq> []"
  shows "merged_row xs = merged_row ys"
proof -
  have s: "set xs = set ys" using assms(2) by (rule mset_eq_setD)
  have ne: "ys \<noteq> []" using assms(2,3) by auto
  have "hd xs \<in> set xs" by (rule hd_in_set [OF assms(3)])
  moreover have "hd ys \<in> set xs" unfolding s by (rule hd_in_set [OF ne])
  ultimately have h: "o_IP (hd xs) = o_IP (hd ys)" "o_Reputation (hd xs) = o_Reputation (hd ys)"
    using assms(1) by simp_all
  have "sum_mset (mset (map o_HitCount xs)) = sum_mset (mset (map o_HitCount ys))" using assms(2) by simp
  then have hits: "sum_list (map o_HitCount xs) = sum_list (map o_HitCount ys)" by (simp only: sum_mset_sum_list)
  have times: "earliest (map o_FirstSeen xs) = earliest (map o_FirstSeen ys)" by (simp add: earliest_def s)
  show ?thesis by (simp add: merged_row_def newIPRow_def h hits times s Let_def split: option.splits)
qed

text \<open>
  C36: the report does not depend on the order the observations arrive in, as long as the reputation of
  an address is the same wherever it was observed, which is how the store joins it.
\<close>

theorem pool_report_perm:
  assumes "mset obs = mset obs'" and "\<forall>x \<in> set obs. o_Reputation x = rep (o_IP x)"
  shows "BuildPoolReport uni lower unmarshal vs obs = BuildPoolReport uni lower unmarshal vs obs'"
proof -
  have s: "set obs = set obs'" using assms(1) by (rule mset_eq_setD)
  have ips: "observed_ips obs = observed_ips obs'" by (simp add: observed_ips_def s)
  have at: "mset (obs_at obs ip) = mset (obs_at obs' ip)" for ip
    unfolding obs_at_def by (metis assms(1) mset_filter)
  have bys: "mset (obs_by obs sid) = mset (obs_by obs' sid)" for sid
    unfolding obs_by_def by (metis assms(1) mset_filter)
  have rep': "\<forall>x \<in> set obs'. o_Reputation x = rep (o_IP x)" using assms(2) s by simp
  have row: "merged_row (obs_at obs ip) = merged_row (obs_at obs' ip)" if "ip \<in> set (observed_ips obs')" for ip
    by (rule merged_row_mset [OF _ at, where ip = ip and rep = "rep ip"])
       (use assms(2) that s in \<open>auto simp: obs_at_Nil_iff\<close>, auto simp: obs_at_def)
  have flag: "ia_flagged (accum_of uni (obs_at obs ip)) = ia_flagged (accum_of uni (obs_at obs' ip))"
    if "ip \<in> set (observed_ips obs')" for ip
  proof -
    have ne: "obs_at obs ip \<noteq> []" "obs_at obs' ip \<noteq> []" using that s by (simp_all add: obs_at_Nil_iff)
    have "hd (obs_at obs ip) \<in> set (obs_at obs ip)" "hd (obs_at obs' ip) \<in> set (obs_at obs' ip)"
      using ne by simp_all
    then show ?thesis using assms(2) rep' by (simp add: accum_of_def obs_at_def)
  qed
  have freq: "o_SessionID ` set (obs_at obs ip) = o_SessionID ` set (obs_at obs' ip)" for ip
    using mset_eq_setD [OF at] by simp
  have out: "honor_of uni lower unmarshal (obs_by obs) = honor_of uni lower unmarshal (obs_by obs')"
    by (rule honor_of_mset [OF bys])
  have ips_by: "cell_ips (obs_by obs) ms = cell_ips (obs_by obs') ms" for ms
    using mset_eq_setD [OF bys] by (simp add: cell_ips_def)
  have cells: "cell_of key (cell_state out (obs_by obs) ms) = cell_of key (cell_state out (obs_by obs') ms)" for key out ms
  proof -
    let ?cat = "\<lambda>ip. NormalizeCategory (reputationCategory (rep ip))"
    have "\<forall>v \<in> set ms. \<forall>x \<in> set (obs_by obs (vs_SessionID v)). NormalizeCategory (reputationCategory (o_Reputation x)) = ?cat (o_IP x)"
      using assms(2) by (simp add: obs_by_def)
    note this [THEN cell_of_closed, of key out]
    moreover have "\<forall>v \<in> set ms. \<forall>x \<in> set (obs_by obs' (vs_SessionID v)). NormalizeCategory (reputationCategory (o_Reputation x)) = ?cat (o_IP x)"
      using rep' by (simp add: obs_by_def)
    note this [THEN cell_of_closed, of key out]
    ultimately show ?thesis by (simp add: ips_by)
  qed
  have rows: "map (\<lambda>ip. merged_row (obs_at obs ip)) (observed_ips obs') = map (\<lambda>ip. merged_row (obs_at obs' ip)) (observed_ips obs')"
    using row by (simp cong: map_cong)
  have cats: "map (\<lambda>ip. row_Category (merged_row (obs_at obs ip))) (observed_ips obs')
      = map (\<lambda>ip. row_Category (merged_row (obs_at obs' ip))) (observed_ips obs')"
    using row by (simp cong: map_cong)
  have flags: "filter (\<lambda>ip. ia_flagged (accum_of uni (obs_at obs ip))) (observed_ips obs')
      = filter (\<lambda>ip. ia_flagged (accum_of uni (obs_at obs' ip))) (observed_ips obs')"
    by (intro filter_cong refl flag)
  have dnsbl: "filter (\<lambda>ip. row_DNSBLListed (merged_row (obs_at obs ip))) (observed_ips obs')
      = filter (\<lambda>ip. row_DNSBLListed (merged_row (obs_at obs' ip))) (observed_ips obs')"
    by (intro filter_cong refl arg_cong [where f = row_DNSBLListed] row)
  show ?thesis
    unfolding BuildPoolReport_spec ips out freq cells rows cats flags dnsbl ..
qed

definition demo_obs :: "ip_observation list" where
  "demo_obs =
     [\<lparr>o_SessionID = 1, o_IP = V4 5, o_HitCount = 2, o_FirstSeen = 10, o_LastSeen = 20, o_Reputation = None\<rparr>,
      \<lparr>o_SessionID = 2, o_IP = V4 5, o_HitCount = 3, o_FirstSeen = 4, o_LastSeen = 9, o_Reputation = None\<rparr>]"

theorem pool_report_perm_witness:
  "BuildPoolReport (\<lambda>_ _. False) id (\<lambda>_. []) [] demo_obs
     = BuildPoolReport (\<lambda>_ _. False) id (\<lambda>_. []) [] (rev demo_obs)"
  by (rule pool_report_perm [where rep = "\<lambda>_. None"]) (simp_all add: demo_obs_def)

end
