(* ===== verification/Aggregate.thy ===== *)
theory Aggregate
  imports Model "HOL-Library.Multiset"
begin

text \<open>
  \<open>internal/sampler/aggregate.go\<close>: folding the ordered probe results of one tick into a sample. Round
  trip times are 64-bit durations; the only arithmetic on them is on sorted non-negative values, which
  stays in range. The loop over results keeps its slices in \<open>agg_state\<close>.
\<close>

subsection \<open>Probe results and samples\<close>

record probe_result =
  pb_IP :: addr
  pb_Country :: string
  pb_Colo :: string
  pb_RTT :: duration
  pb_Err :: "go_error option"

record sample =
  ProbesAttempted :: int
  ProbesOK :: int
  PrimaryIP :: addr
  DistinctIPs :: int
  IPChanged :: bool
  NewIPs :: int
  RTTMin :: duration
  RTTMed :: duration
  RTTMax :: duration
  EgressCountry :: string
  ProbeIPs :: "addr list"
  ProbeRTTs :: "duration list"
  ProbeOK :: "bool list"
  IPHits :: "(addr, int) gomap"
  Error :: string

definition maxUInt8Value :: nat where "maxUInt8Value = 255"
definition maxSampleError :: nat where "maxSampleError = 2048"

definition clampUInt8 :: "int \<Rightarrow> int" where
  "clampUInt8 value = (if value > int maxUInt8Value then int maxUInt8Value else value)"

text \<open>The replacement character in UTF-8.\<close>

definition replacement :: string where
  "replacement = [char_of (239::nat), char_of (191::nat), char_of (189::nat)]"

function cut_to_valid :: "string \<Rightarrow> string" where
  "cut_to_valid s = (if valid_utf8 s then s else cut_to_valid (butlast s))"
  by pat_completeness auto
termination
proof (relation "measure length", goal_cases)
  case (2 s)
  then have "s \<noteq> []" by auto
  then show ?case by simp
qed simp

declare cut_to_valid.simps [simp del]

definition joinProbeErrors :: "string list \<Rightarrow> string" where
  "joinProbeErrors messages =
     (let unique = dedup_from [] messages;
          joined = to_valid_utf8 (join_str ''; '' unique) replacement
      in if length joined \<le> maxSampleError then joined else cut_to_valid (take maxSampleError joined))"


subsection \<open>The loop over results\<close>

record agg_state =
  ag_IPs :: "addr list"
  ag_RTTs :: "duration list"
  ag_OK :: "bool list"
  ag_hits :: "(addr, int) gomap"
  ag_countries :: "(addr, string) gomap"
  ag_rtts :: "duration list"
  ag_errors :: "string list"

definition empty_agg :: agg_state where
  "empty_agg = \<lparr>ag_IPs = [], ag_RTTs = [], ag_OK = [], ag_hits = [], ag_countries = [], ag_rtts = [], ag_errors = []\<rparr>"

text \<open>A \<open>continue\<close> leaves the zero values of the preallocated slices in place.\<close>

definition agg_skip :: "agg_state \<Rightarrow> string \<Rightarrow> agg_state" where
  "agg_skip st message =
     st\<lparr>ag_IPs := ag_IPs st @ [NoAddr], ag_RTTs := ag_RTTs st @ [0], ag_OK := ag_OK st @ [False],
        ag_errors := ag_errors st @ [message]\<rparr>"

definition agg_step :: "agg_state \<Rightarrow> probe_result \<Rightarrow> agg_state" where
  "agg_step st res =
     (if pb_Err res = None \<and> is_valid (pb_IP res) \<and> pb_RTT res < 0
      then agg_skip st ''probe returned negative RTT''
      else if pb_Err res \<noteq> None \<or> \<not> is_valid (pb_IP res)
      then agg_skip st (case pb_Err res of Some e \<Rightarrow> err_text e | None \<Rightarrow> ''probe returned invalid IP'')
      else st\<lparr>ag_OK := ag_OK st @ [True], ag_IPs := ag_IPs st @ [pb_IP res], ag_RTTs := ag_RTTs st @ [pb_RTT res],
              ag_hits := bump (pb_IP res) 1 (ag_hits st),
              ag_countries := (if map_of (ag_countries st) (pb_IP res) = None
                               then AList.update (pb_IP res) (pb_Country res) (ag_countries st)
                               else ag_countries st),
              ag_rtts := ag_rtts st @ [pb_RTT res]\<rparr>)"

text \<open>The two later loops: new addresses in map order, then the primary address in probe order.\<close>

fun count_new :: "addr set \<Rightarrow> int \<Rightarrow> addr list \<Rightarrow> int" where
  "count_new seen n [] = n"
| "count_new seen n (ip # ips) =
     (if ip \<notin> seen then count_new seen (clampUInt8 (n + 1)) ips else count_new seen n ips)"

fun primary_loop :: "(addr, int) gomap \<Rightarrow> addr \<Rightarrow> int \<Rightarrow> (bool \<times> addr) list \<Rightarrow> addr" where
  "primary_loop hits best bestHits [] = best"
| "primary_loop hits best bestHits ((ok, ip) # rest) =
     (if \<not> ok then primary_loop hits best bestHits rest
      else if count_of hits ip > bestHits then primary_loop hits ip (count_of hits ip) rest
      else primary_loop hits best bestHits rest)"

definition Aggregate :: "probe_result list \<Rightarrow> addr \<Rightarrow> addr set \<Rightarrow> sample" where
  "Aggregate results previous seen =
     (let results = (if length results > maxUInt8Value then take maxUInt8Value results else results);
          st = foldl agg_step empty_agg results;
          primary = primary_loop (ag_hits st) NoAddr 0 (zip (ag_OK st) (ag_IPs st));
          s = \<lparr>ProbesAttempted = clampUInt8 (int (length results)),
               ProbesOK = clampUInt8 (int (length (ag_rtts st))),
               PrimaryIP = primary,
               DistinctIPs = clampUInt8 (int (length (ag_hits st))),
               IPChanged = (is_valid previous \<and> is_valid primary \<and> previous \<noteq> primary),
               NewIPs = count_new seen 0 (map fst (ag_hits st)),
               RTTMin = 0, RTTMed = 0, RTTMax = 0,
               EgressCountry = (if is_valid primary
                  then (case map_of (ag_countries st) primary of None \<Rightarrow> [] | Some c \<Rightarrow> c) else []),
               ProbeIPs = ag_IPs st, ProbeRTTs = ag_RTTs st, ProbeOK = ag_OK st,
               IPHits = ag_hits st, Error = []\<rparr>
      in if ag_rtts st = [] then s\<lparr>Error := joinProbeErrors (ag_errors st)\<rparr>
         else (let rtts = sort (ag_rtts st);
                   middle = length rtts div 2
               in s\<lparr>RTTMin := rtts ! 0, RTTMax := rtts ! (length rtts - 1),
                    RTTMed := (if length rtts mod 2 = 0
                               then rtts ! (middle - 1) + go_div (rtts ! middle - rtts ! (middle - 1)) 2
                               else rtts ! middle)\<rparr>))"


subsection \<open>What a sample must contain\<close>

definition res_ok :: "probe_result \<Rightarrow> bool" where
  "res_ok r \<longleftrightarrow> pb_Err r = None \<and> is_valid (pb_IP r) \<and> 0 \<le> pb_RTT r"

definition res_message :: "probe_result \<Rightarrow> string" where
  "res_message r = (case pb_Err r of Some e \<Rightarrow> err_text e
     | None \<Rightarrow> if is_valid (pb_IP r) then ''probe returned negative RTT'' else ''probe returned invalid IP'')"

definition good :: "probe_result list \<Rightarrow> probe_result list" where
  "good rs = filter res_ok (take 255 rs)"

definition hits_in :: "addr list \<Rightarrow> addr \<Rightarrow> int" where
  "hits_in ips ip = int (length (filter (\<lambda>x. x = ip) ips))"

lemma hits_in_simps [simp]: "hits_in [] ip = 0" "hits_in (xs @ [x]) ip = hits_in xs ip + (if x = ip then 1 else 0)"
  by (simp_all add: hits_in_def)

lemma agg_step_cases:
  "agg_step st r = (if res_ok r
     then st\<lparr>ag_OK := ag_OK st @ [True], ag_IPs := ag_IPs st @ [pb_IP r], ag_RTTs := ag_RTTs st @ [pb_RTT r],
              ag_hits := bump (pb_IP r) 1 (ag_hits st),
              ag_countries := (if map_of (ag_countries st) (pb_IP r) = None
                               then AList.update (pb_IP r) (pb_Country r) (ag_countries st)
                               else ag_countries st),
              ag_rtts := ag_rtts st @ [pb_RTT r]\<rparr>
     else agg_skip st (res_message r))"
  by (auto simp: agg_step_def res_ok_def res_message_def split: option.splits)

lemma find_snoc: "find P (xs @ [x]) = (case find P xs of Some y \<Rightarrow> Some y | None \<Rightarrow> if P x then Some x else None)"
  by (induction xs) auto

text \<open>The loop state after any number of results.\<close>

lemma agg_loop:
  "foldl agg_step empty_agg rs = st \<Longrightarrow>
     ag_OK st = map res_ok rs
   \<and> ag_IPs st = map (\<lambda>r. if res_ok r then pb_IP r else NoAddr) rs
   \<and> ag_RTTs st = map (\<lambda>r. if res_ok r then pb_RTT r else 0) rs
   \<and> ag_rtts st = map pb_RTT (filter res_ok rs)
   \<and> ag_errors st = map res_message (filter (\<lambda>r. \<not> res_ok r) rs)
   \<and> gomap (ag_hits st) \<and> fst ` set (ag_hits st) = pb_IP ` set (filter res_ok rs)
   \<and> (\<forall>ip. count_of (ag_hits st) ip = hits_in (map pb_IP (filter res_ok rs)) ip)
   \<and> (\<forall>ip. map_of (ag_countries st) ip = map_option pb_Country (find (\<lambda>r. pb_IP r = ip) (filter res_ok rs)))"
proof (induction rs arbitrary: st rule: rev_induct)
  case Nil
  then show ?case by (auto simp: empty_agg_def)
next
  case (snoc r rs)
  define st0 where "st0 = foldl agg_step empty_agg rs"
  have st: "st = agg_step st0 r" using snoc.prems by (simp add: st0_def)
  note IH = snoc.IH [OF st0_def [symmetric]]
  show ?case
  proof (cases "res_ok r")
    case True
    have countries: "map_of (ag_countries st) ip = map_option pb_Country (find (\<lambda>r. pb_IP r = ip) (filter res_ok (rs @ [r])))"
      for ip
      using IH True by (auto simp: st agg_step_cases find_snoc AList.update_conv' split: option.splits)
    show ?thesis using IH True countries by (auto simp: st agg_step_cases count_of_bump)
  next
    case False
    with IH show ?thesis by (auto simp: st agg_step_cases agg_skip_def)
  qed
qed

lemma clamp_id: "n \<le> 255 \<Longrightarrow> clampUInt8 n = n"
  by (simp add: clampUInt8_def maxUInt8Value_def)

lemma count_new_exact:
  "distinct ips \<Longrightarrow> n + int (length ips) \<le> 255 \<Longrightarrow> count_new seen n ips = n + int (card (set ips - seen))"
proof (induction ips arbitrary: n)
  case (Cons ip ips)
  show ?case
  proof (cases "ip \<in> seen")
    case True
    with Cons show ?thesis by simp
  next
    case False
    then have "card (set (ip # ips) - seen) = Suc (card (set ips - seen))"
      using Cons.prems(1) by (simp add: insert_Diff_if)
    with False Cons show ?thesis by (simp add: clamp_id)
  qed
qed simp


lemma primary_loop_find:
  "primary_loop hits best bh zs =
     (case find (\<lambda>x. bh < count_of hits x \<and> (\<forall>y \<in> set (map snd (filter fst zs)). count_of hits y \<le> count_of hits x))
             (map snd (filter fst zs)) of None \<Rightarrow> best | Some x \<Rightarrow> x)"
proof (induction zs arbitrary: best bh)
  case (Cons z zs)
  obtain ok ip where z: "z = (ok, ip)" by (cases z)
  define ips where "ips = map snd (filter fst zs)"
  define h where "h = count_of hits"
  note IH = Cons [folded ips_def h_def]
  have eq: "map snd (filter fst (z # zs)) = (if ok then ip # ips else ips)" by (simp add: z ips_def)
  have "primary_loop hits best bh (z # zs) =
     (case find (\<lambda>x. bh < h x \<and> (\<forall>y \<in> set (if ok then ip # ips else ips). h y \<le> h x))
        (if ok then ip # ips else ips) of None \<Rightarrow> best | Some x \<Rightarrow> x)"
  proof (cases "ok \<and> bh < h ip")
    case True
    show ?thesis
    proof (cases "\<exists>y \<in> set ips. h ip < h y")
      case ex: True
      have same: "find (\<lambda>x. bh < h x \<and> (\<forall>y \<in> insert ip (set ips). h y \<le> h x)) ips
          = find (\<lambda>x. h ip < h x \<and> (\<forall>y \<in> set ips. h y \<le> h x)) ips"
      proof (intro find_cong refl iffI)
        fix x assume x: "bh < h x \<and> (\<forall>y \<in> insert ip (set ips). h y \<le> h x)"
        from ex obtain y where y: "y \<in> set ips" "h ip < h y" by blast
        from x y(1) have "h y \<le> h x" by simp
        with x y(2) show "h ip < h x \<and> (\<forall>y \<in> set ips. h y \<le> h x)" by auto
      qed (use True in auto)
      have "Max (h ` set ips) \<in> h ` set ips" using ex by (intro Max_in) auto
      then obtain m where m: "m \<in> set ips" "h m = Max (h ` set ips)" by auto
      then have "\<forall>y \<in> set ips. h y \<le> h m" by simp
      with m(1) ex have "find (\<lambda>x. h ip < h x \<and> (\<forall>y \<in> set ips. h y \<le> h x)) ips \<noteq> None"
        by (auto simp: find_None_iff intro!: exI [of _ m])
      with same ex True IH [of ip "h ip"] show ?thesis
        by (auto simp: z h_def [symmetric] not_le [symmetric])
    next
      case none: False
      then have le: "\<forall>y \<in> set ips. h y \<le> h ip" by force
      have "find (\<lambda>x. h ip < h x \<and> (\<forall>y \<in> set ips. h y \<le> h x)) ips = None"
        using none by (auto simp: find_None_iff)
      with le True IH [of ip "h ip"] show ?thesis
        by (simp add: z h_def [symmetric])
    qed
  next
    case False
    have "find (\<lambda>x. bh < h x \<and> (\<forall>y \<in> insert ip (set ips). h y \<le> h x)) ips
        = find (\<lambda>x. bh < h x \<and> (\<forall>y \<in> set ips. h y \<le> h x)) ips" if "h ip \<le> bh"
      using that by (intro find_cong) auto
    with False IH [of best bh] show ?thesis
      by (auto simp: z h_def [symmetric] not_less)
  qed
  then show ?case unfolding eq h_def [symmetric] .
qed simp

text \<open>The primary address: the earliest among the most frequent ones.\<close>

definition primary_of :: "addr list \<Rightarrow> addr option" where
  "primary_of ips = find (\<lambda>x. \<forall>y \<in> set ips. hits_in ips y \<le> hits_in ips x) ips"

lemma zip_filter_good:
  "map snd (filter fst (zip (map res_ok rs) (map (\<lambda>r. if res_ok r then pb_IP r else NoAddr) rs)))
     = map pb_IP (filter res_ok rs)"
  by (induction rs) auto

lemma hits_in_pos: "x \<in> set ips \<Longrightarrow> 0 < hits_in ips x"
  by (auto simp: hits_in_def filter_empty_conv)

lemma primary_of_None: "primary_of ips = None \<longleftrightarrow> ips = []"
proof
  assume none: "primary_of ips = None"
  show "ips = []"
  proof (rule ccontr)
    assume "ips \<noteq> []"
    then have "Max (hits_in ips ` set ips) \<in> hits_in ips ` set ips" by (intro Max_in) simp_all
    then obtain x where x: "x \<in> set ips" "hits_in ips x = Max (hits_in ips ` set ips)" by auto
    then have "\<forall>y \<in> set ips. hits_in ips y \<le> hits_in ips x" by simp
    with x none show False by (auto simp: primary_of_def find_None_iff)
  qed
qed (simp add: primary_of_def)

text \<open>The sample in closed form, before the statistics of the round trip times.\<close>

definition base_sample :: "probe_result list \<Rightarrow> addr \<Rightarrow> addr set \<Rightarrow> sample" where
  "base_sample results previous seen =
     (let rs = take 255 results; ips = map pb_IP (good results);
          primary = (case primary_of ips of None \<Rightarrow> NoAddr | Some x \<Rightarrow> x) in
      \<lparr>ProbesAttempted = int (length rs), ProbesOK = int (length ips), PrimaryIP = primary,
       DistinctIPs = int (card (set ips)),
       IPChanged = (is_valid previous \<and> is_valid primary \<and> previous \<noteq> primary),
       NewIPs = int (card (set ips - seen)), RTTMin = 0, RTTMed = 0, RTTMax = 0,
       EgressCountry = (case find (\<lambda>r. pb_IP r = primary) (good results) of None \<Rightarrow> [] | Some r \<Rightarrow> pb_Country r),
       ProbeIPs = map (\<lambda>r. if res_ok r then pb_IP r else NoAddr) rs,
       ProbeRTTs = map (\<lambda>r. if res_ok r then pb_RTT r else 0) rs,
       ProbeOK = map res_ok rs,
       IPHits = ag_hits (foldl agg_step empty_agg rs), Error = []\<rparr>)"

lemma good_valid: "r \<in> set (good rs) \<Longrightarrow> is_valid (pb_IP r) \<and> 0 \<le> pb_RTT r"
  by (simp add: good_def res_ok_def)

lemma length_good: "length (good rs) \<le> 255"
  by (simp add: good_def) (metis length_filter_le length_take min.bounded_iff)

lemma Aggregate_base:
  fixes results previous seen
  defines "rtts \<equiv> sort (map pb_RTT (good results))"
  shows "Aggregate results previous seen =
     (if good results = []
      then (base_sample results previous seen)\<lparr>Error := joinProbeErrors
              (map res_message (filter (\<lambda>r. \<not> res_ok r) (take 255 results)))\<rparr>
      else (base_sample results previous seen)
             \<lparr>RTTMin := rtts ! 0, RTTMax := rtts ! (length rtts - 1),
              RTTMed := (if length rtts mod 2 = 0
                 then rtts ! (length rtts div 2 - 1) + go_div (rtts ! (length rtts div 2) - rtts ! (length rtts div 2 - 1)) 2
                 else rtts ! (length rtts div 2))\<rparr>)"
proof -
  define rs where "rs = take 255 results"
  define st where "st = foldl agg_step empty_agg rs"
  note ok = agg_loop [OF st_def [symmetric]]
  have rs: "(if length results > maxUInt8Value then take maxUInt8Value results else results) = rs"
    by (simp add: rs_def maxUInt8Value_def)
  have g: "filter res_ok rs = good results" by (simp add: rs_def good_def)
  have len: "length rs \<le> 255" by (simp add: rs_def)
  have "pb_IP ` set (good results) = fst ` set (ag_hits st)" using ok g by simp
  then have hits: "length (ag_hits st) = card (pb_IP ` set (good results))"
    using ok gomap_length [of "ag_hits st"] by simp
  have card: "card (pb_IP ` set (good results)) \<le> 255"
    using card_image_le [of "set (good results)" pb_IP] card_length [of "good results"] length_good [of results] by simp
  have new: "count_new seen 0 (map fst (ag_hits st)) = int (card (pb_IP ` set (good results) - seen))"
    using ok hits card by (subst count_new_exact) (simp_all add: gomap_def g)
  have cnt: "count_of (ag_hits st) ip = hits_in (map pb_IP (good results)) ip" for ip using ok g by simp
  have primary: "primary_loop (ag_hits st) NoAddr 0 (zip (ag_OK st) (ag_IPs st))
      = (case primary_of (map pb_IP (good results)) of None \<Rightarrow> NoAddr | Some x \<Rightarrow> x)"
  proof -
    have "find (\<lambda>x. 0 < hits_in (map pb_IP (good results)) x \<and>
            (\<forall>y \<in> set (map pb_IP (good results)). hits_in (map pb_IP (good results)) y \<le> hits_in (map pb_IP (good results)) x))
          (map pb_IP (good results)) = primary_of (map pb_IP (good results))"
      unfolding primary_of_def by (intro find_cong refl) (use hits_in_pos in blast)
    then show ?thesis
      unfolding primary_loop_find using ok by (simp only: zip_filter_good g cnt)
  qed
  define p where "p = (case primary_of (map pb_IP (good results)) of None \<Rightarrow> NoAddr | Some x \<Rightarrow> x)"
  have country: "(if is_valid p then (case map_of (ag_countries st) p of None \<Rightarrow> [] | Some c \<Rightarrow> c) else [])
      = (case find (\<lambda>r. pb_IP r = p) (good results) of None \<Rightarrow> [] | Some r \<Rightarrow> pb_Country r)"
  proof (cases "is_valid p")
    case False
    then have "find (\<lambda>r. pb_IP r = p) (good results) = None"
      using good_valid by (auto simp: find_None_iff)
    with False show ?thesis by simp
  next
    case True
    have "map_of (ag_countries st) p = map_option pb_Country (find (\<lambda>r. pb_IP r = p) (good results))"
      using ok g by simp
    with True show ?thesis by (simp split: option.splits)
  qed
  have empty: "ag_rtts st = [] \<longleftrightarrow> good results = []" using ok g by simp
  have base: "\<lparr>ProbesAttempted = clampUInt8 (int (length rs)), ProbesOK = clampUInt8 (int (length (ag_rtts st))),
       PrimaryIP = p, DistinctIPs = clampUInt8 (int (length (ag_hits st))),
       IPChanged = (is_valid previous \<and> is_valid p \<and> previous \<noteq> p),
       NewIPs = count_new seen 0 (map fst (ag_hits st)), RTTMin = 0, RTTMed = 0, RTTMax = 0,
       EgressCountry = (if is_valid p then (case map_of (ag_countries st) p of None \<Rightarrow> [] | Some c \<Rightarrow> c) else []),
       ProbeIPs = ag_IPs st, ProbeRTTs = ag_RTTs st, ProbeOK = ag_OK st, IPHits = ag_hits st, Error = []\<rparr>
     = base_sample results previous seen"
    using ok len card length_good [of results] g hits new country
    by (simp add: base_sample_def Let_def clamp_id p_def [symmetric] rs_def [symmetric] st_def [symmetric])
  have rtts: "sort (ag_rtts st) = rtts" using ok g by (simp add: rtts_def)
  have errs: "ag_errors st = map res_message (filter (\<lambda>r. \<not> res_ok r) (take 255 results))"
    using ok by (simp add: rs_def)
  show ?thesis
    unfolding Aggregate_def rs Let_def st_def [symmetric] primary p_def [symmetric] base empty rtts errs ..
qed


subsection \<open>Properties\<close>

lemma sum_hits:
  assumes "gomap m" and "set xs \<subseteq> fst ` set m" and "\<forall>k. count_of m k = hits_in xs k"
  shows "sum_list (map snd m) = int (length xs)"
proof -
  have "map snd m = map (\<lambda>k. hits_in xs k) (map fst m)"
    using assms(1,3) map_of_is_SomeI_gomap [OF assms(1)] by (auto simp: count_of_def split: option.splits)
  then have "sum_list (map snd m) = sum_list (map (hits_in xs) (map fst m))" by (rule arg_cong)
  also have "\<dots> = (\<Sum>k \<in> fst ` set m. hits_in xs k)"
    using assms(1) by (subst sum_list_distinct_conv_sum_set) (simp_all add: gomap_def)
  also have "\<dots> = int (length xs)"
    using assms(2)
  proof (induction xs)
    case (Cons x xs)
    have "(\<Sum>k \<in> fst ` set m. hits_in (x # xs) k) = (\<Sum>k \<in> fst ` set m. (if x = k then 1 else 0) + hits_in xs k)"
      by (rule sum.cong) (auto simp: hits_in_def)
    also have "\<dots> = 1 + (\<Sum>k \<in> fst ` set m. hits_in xs k)"
      using Cons.prems by (subst sum.distrib) simp
    finally show ?case using Cons by simp
  qed (simp add: hits_in_def)
  finally show ?thesis .
qed

text \<open>
  a sample covers at most 255 probes, position by position: its counters are exactly the numbers of
  usable probes, distinct and never-seen addresses (so none of them is clamped), and the hit map counts
  each usable probe once.
\<close>

theorem Aggregate_counts:
  fixes results previous seen
  defines "s \<equiv> Aggregate results previous seen" and "ips \<equiv> map pb_IP (good results)"
  shows "ProbesAttempted s = int (min 255 (length results))
     \<and> ProbeOK s = map res_ok (take 255 results)
     \<and> ProbeIPs s = map (\<lambda>r. if res_ok r then pb_IP r else NoAddr) (take 255 results)
     \<and> ProbeRTTs s = map (\<lambda>r. if res_ok r then pb_RTT r else 0) (take 255 results)
     \<and> ProbesOK s = int (length ips) \<and> DistinctIPs s = int (card (set ips))
     \<and> NewIPs s = int (card (set ips - seen))
     \<and> ProbesOK s \<le> 255 \<and> DistinctIPs s \<le> ProbesOK s \<and> NewIPs s \<le> DistinctIPs s
     \<and> gomap (IPHits s) \<and> count_of (IPHits s) = hits_in ips \<and> sum_list (map snd (IPHits s)) = ProbesOK s"
proof -
  have s: "ProbesAttempted s = ProbesAttempted (base_sample results previous seen)"
    "ProbeOK s = ProbeOK (base_sample results previous seen)"
    "ProbeIPs s = ProbeIPs (base_sample results previous seen)"
    "ProbeRTTs s = ProbeRTTs (base_sample results previous seen)"
    "ProbesOK s = ProbesOK (base_sample results previous seen)"
    "DistinctIPs s = DistinctIPs (base_sample results previous seen)"
    "NewIPs s = NewIPs (base_sample results previous seen)"
    "IPHits s = IPHits (base_sample results previous seen)"
    unfolding s_def Aggregate_base by simp_all
  define st where "st = foldl agg_step empty_agg (take 255 results)"
  note ok = agg_loop [OF st_def [symmetric], folded good_def]
  have hits: "gomap (ag_hits st)" "\<forall>ip. count_of (ag_hits st) ip = hits_in ips ip" "set ips \<subseteq> fst ` set (ag_hits st)"
    using ok by (simp_all add: ips_def)
  have sum: "sum_list (map snd (ag_hits st)) = int (length ips)" by (rule sum_hits [OF hits(1,3,2)])
  have "card (set ips - seen) \<le> card (set ips)" by (rule card_mono) auto
  moreover have "card (set ips) \<le> length ips" by (rule card_length)
  moreover have "length ips \<le> 255" using length_good by (simp add: ips_def)
  moreover have "count_of (ag_hits st) = hits_in ips" by (rule ext) (use hits(2) in blast)
  ultimately show ?thesis
    unfolding s using hits(1) sum
    by (simp add: base_sample_def Let_def ips_def [symmetric] st_def [symmetric] min.commute)
qed

text \<open>
  the primary address is the most frequent usable one, the earliest probe deciding ties; its country
  is the one reported by the first probe through it, and a change is flagged only between two known
  addresses.
\<close>

theorem Aggregate_primary:
  fixes results previous seen
  defines "s \<equiv> Aggregate results previous seen" and "ips \<equiv> map pb_IP (good results)"
  shows "PrimaryIP s = (case find (\<lambda>x. list_all (\<lambda>y. hits_in ips y \<le> hits_in ips x) ips) ips of None \<Rightarrow> NoAddr | Some x \<Rightarrow> x)
     \<and> (PrimaryIP s = NoAddr) = (ips = [])
     \<and> EgressCountry s = (case find (\<lambda>r. pb_IP r = PrimaryIP s) (good results) of None \<Rightarrow> [] | Some r \<Rightarrow> pb_Country r)
     \<and> IPChanged s = (previous \<noteq> NoAddr \<and> PrimaryIP s \<noteq> NoAddr \<and> previous \<noteq> PrimaryIP s)"
proof -
  have p: "PrimaryIP s = (case primary_of ips of None \<Rightarrow> NoAddr | Some x \<Rightarrow> x)"
    unfolding s_def Aggregate_base ips_def by (simp add: base_sample_def Let_def)
  have valid: "x \<noteq> NoAddr" if "primary_of ips = Some x" for x
  proof -
    from that have "x \<in> set ips" unfolding primary_of_def by (metis find_Some_iff nth_mem)
    then show ?thesis using good_valid by (auto simp: ips_def is_valid_def)
  qed
  have "(PrimaryIP s = NoAddr) = (ips = [])"
    using valid by (simp add: p primary_of_None [symmetric] split: option.splits)
  moreover have "EgressCountry s = (case find (\<lambda>r. pb_IP r = PrimaryIP s) (good results) of None \<Rightarrow> [] | Some r \<Rightarrow> pb_Country r)"
    unfolding p unfolding s_def Aggregate_base ips_def by (simp add: base_sample_def Let_def)
  moreover have "IPChanged s = (previous \<noteq> NoAddr \<and> PrimaryIP s \<noteq> NoAddr \<and> previous \<noteq> PrimaryIP s)"
    unfolding p unfolding s_def Aggregate_base ips_def by (simp add: base_sample_def Let_def is_valid_def)
  ultimately show ?thesis using p by (simp add: primary_of_def list_all_iff)
qed

lemma sorted_count_le:
  assumes "sorted xs" and "k < length xs" and "xs ! k \<le> (v :: int)"
  shows "Suc k \<le> length (filter (\<lambda>x. x \<le> v) xs)"
proof -
  have "x \<le> v" if x: "x \<in> set (take (Suc k) xs)" for x
  proof -
    obtain i where "i < Suc k" "i < length xs" "x = xs ! i"
      using x by (auto simp: in_set_conv_nth)
    then show ?thesis using assms sorted_nth_mono [of xs i k] by auto
  qed
  then have all: "filter (\<lambda>x. x \<le> v) (take (Suc k) xs) = take (Suc k) xs" by (simp add: filter_id_conv)
  have "length (take (Suc k) xs) \<le> length (filter (\<lambda>x. x \<le> v) (take (Suc k) xs @ drop (Suc k) xs))"
    by (simp only: filter_append length_append all)
  then show ?thesis using assms(2) by simp
qed

lemma sorted_count_ge:
  assumes "sorted xs" and "k < length xs" and "(v :: int) \<le> xs ! k"
  shows "length xs - k \<le> length (filter (\<lambda>x. v \<le> x) xs)"
proof -
  have "v \<le> x" if x: "x \<in> set (drop k xs)" for x
  proof -
    obtain i where "i < length xs - k" "x = xs ! (k + i)"
      using x by (auto simp: in_set_conv_nth)
    moreover from this have "xs ! k \<le> xs ! (k + i)" by (intro sorted_nth_mono [OF assms(1)]) simp_all
    ultimately show ?thesis using assms(3) by simp
  qed
  then have all: "filter (\<lambda>x. v \<le> x) (drop k xs) = drop k xs" by (simp add: filter_id_conv)
  have "length (drop k xs) \<le> length (filter (\<lambda>x. v \<le> x) (take k xs @ drop k xs))"
    by (simp only: filter_append length_append all)
  then show ?thesis by simp
qed

lemma median_of:
  fixes xs :: "int list"
  assumes "sorted xs" and "xs \<noteq> []"
  defines "m \<equiv> length xs div 2"
  defines "med \<equiv> if length xs mod 2 = 0 then xs ! (m - 1) + go_div (xs ! m - xs ! (m - 1)) 2 else xs ! m"
  shows "xs ! 0 \<le> med \<and> med \<le> xs ! (length xs - 1)
     \<and> length xs \<le> 2 * length (filter (\<lambda>x. x \<le> med) xs) \<and> length xs \<le> 2 * length (filter (\<lambda>x. med \<le> x) xs)"
proof -
  define n where "n = length xs"
  have n: "0 < n" using assms(2) by (simp add: n_def)
  define lo hi where "lo = (n - 1) div 2" and "hi = n div 2"
  have idx: "lo < length xs" "hi < length xs" "lo \<le> hi" "length xs \<le> 2 * Suc lo" "length xs \<le> 2 * (length xs - hi)"
    unfolding n_def [symmetric] lo_def hi_def using n by presburger+
  have le: "xs ! lo \<le> xs ! hi" using assms(1) idx by (intro sorted_nth_mono)
  have med: "xs ! lo \<le> med" "med \<le> xs ! hi"
  proof -
    have "go_div (xs ! hi - xs ! lo) 2 = (xs ! hi - xs ! lo) div 2" using le by (simp add: go_div_nonneg)
    moreover have "lo = m - 1" "hi = m" if "length xs mod 2 = 0"
      using that n unfolding lo_def hi_def m_def n_def [symmetric] by presburger+
    moreover have "lo = m" "hi = m" if "length xs mod 2 \<noteq> 0"
      using that n unfolding lo_def hi_def m_def n_def [symmetric] by presburger+
    ultimately show "xs ! lo \<le> med" "med \<le> xs ! hi" using le by (auto simp: med_def)
  qed
  from assms(1) idx have "xs ! 0 \<le> xs ! lo" "xs ! hi \<le> xs ! (length xs - 1)"
    by (auto intro!: sorted_nth_mono)
  moreover have "length xs \<le> 2 * length (filter (\<lambda>x. x \<le> med) xs)"
    by (rule order.trans [OF idx(4) mult_le_mono2 [OF sorted_count_le [OF assms(1) idx(1) med(1)]]])
  moreover have "length xs \<le> 2 * length (filter (\<lambda>x. med \<le> x) xs)"
    by (rule order.trans [OF idx(5) mult_le_mono2 [OF sorted_count_ge [OF assms(1) idx(2) med(2)]]])
  ultimately show ?thesis using med by simp
qed

lemma filter_sort_length: "length (filter P (sort xs)) = length (filter P (xs :: int list))"
  by (metis mset_filter mset_sort size_mset)

text \<open>
  with at least one usable probe the round-trip statistics are the true minimum and maximum and a
  median (half of the values on either side), all non-negative; with none they stay zero.
\<close>

theorem Aggregate_rtts:
  fixes results previous seen
  defines "s \<equiv> Aggregate results previous seen" and "rtts \<equiv> map pb_RTT (good results)"
  shows "if rtts = [] then RTTMin s = 0 \<and> RTTMed s = 0 \<and> RTTMax s = 0
     else RTTMin s = Min (set rtts) \<and> RTTMax s = Max (set rtts) \<and> 0 \<le> RTTMin s
        \<and> RTTMin s \<le> RTTMed s \<and> RTTMed s \<le> RTTMax s
        \<and> length rtts \<le> 2 * length (filter (\<lambda>x. x \<le> RTTMed s) rtts)
        \<and> length rtts \<le> 2 * length (filter (\<lambda>x. RTTMed s \<le> x) rtts)"
proof (cases "rtts = []")
  case True
  then show ?thesis by (simp add: s_def Aggregate_base rtts_def base_sample_def Let_def)
next
  case False
  define xs where "xs = sort rtts"
  have xs: "sorted xs" "xs \<noteq> []" "set xs = set rtts" "length xs = length rtts"
    using False by (simp_all add: xs_def) (metis length_0_conv length_sort)
  have s: "RTTMin s = xs ! 0" "RTTMax s = xs ! (length xs - 1)"
    "RTTMed s = (if length xs mod 2 = 0 then xs ! (length xs div 2 - 1)
         + go_div (xs ! (length xs div 2) - xs ! (length xs div 2 - 1)) 2 else xs ! (length xs div 2))"
    using False by (simp_all add: s_def Aggregate_base rtts_def xs_def base_sample_def Let_def)
  note med = median_of [OF xs(1,2), folded s]
  have bounds: "xs ! 0 \<le> x \<and> x \<le> xs ! (length xs - 1)" if "x \<in> set rtts" for x
  proof -
    from that xs(3) obtain i where "i < length xs" "x = xs ! i" by (metis in_set_conv_nth)
    then show ?thesis using sorted_nth_le_last [OF xs(1)] by simp
  qed
  have mem: "xs ! 0 \<in> set rtts" "xs ! (length xs - 1) \<in> set rtts"
    using xs(2) nth_mem [of 0 xs] nth_mem [of "length xs - 1" xs] unfolding xs(3) [symmetric] by auto
  have mn: "Min (set rtts) = xs ! 0" using bounds mem by (intro Min_eqI) auto
  have mx: "Max (set rtts) = xs ! (length xs - 1)" using bounds mem by (intro Max_eqI) auto
  have "0 \<le> xs ! 0" using mem(1) good_valid by (auto simp: rtts_def)
  then show ?thesis
    using False med mn mx s xs(4) by (simp add: xs_def filter_sort_length)
qed

text \<open>Cutting a valid string costs at most three bytes.\<close>

lemma decode_valid_le4: "decode_valid s = Some (r, w) \<Longrightarrow> w \<le> 4"
  by (cases s) (auto simp: Let_def split: if_splits list.splits)

lemma valid_prefix_near:
  "valid_utf8 s \<Longrightarrow> n \<le> length s \<Longrightarrow> \<exists>k. n \<le> k + 3 \<and> k \<le> n \<and> valid_utf8 (take k s)"
proof (induction s arbitrary: n rule: valid_utf8.induct)
  case (1 s)
  show ?case
  proof (cases "n \<le> 3")
    case True
    then show ?thesis by (intro exI [of _ 0]) simp
  next
    case False
    with "1.prems"(2) have ne: "s \<noteq> []" by auto
    with "1.prems"(1) obtain r w where d: "decode_valid s = Some (r, w)" and v: "valid_utf8 (drop w s)"
      by (subst (asm) valid_utf8.simps) (auto split: option.splits)
    note w = decode_valid_width [OF d] decode_valid_le4 [OF d]
    have "n - w \<le> length (drop w s)" using "1.prems"(2) by simp
    from "1.IH" [OF ne d refl v this] obtain k where
      k: "n - w \<le> k + 3" "k \<le> n - w" "valid_utf8 (take k (drop w s))" by auto
    have "valid_utf8 (take w s @ take k (drop w s))" using valid_utf8_step [OF d] k(3) by simp
    moreover have "take w s @ take k (drop w s) = take (w + k) s" by (simp add: take_add)
    ultimately show ?thesis using k w False by (intro exI [of _ "w + k"]) auto
  qed
qed

lemma cut_to_valid_valid: "valid_utf8 (cut_to_valid s)"
  by (induction s rule: cut_to_valid.induct) (subst cut_to_valid.simps, simp)

lemma cut_to_valid_prefix: "\<exists>k \<le> length s. cut_to_valid s = take k s"
proof (induction s rule: cut_to_valid.induct)
  case (1 s)
  show ?case
  proof (cases "valid_utf8 s")
    case True
    then show ?thesis by (intro exI [of _ "length s"]) (simp add: cut_to_valid.simps [of s])
  next
    case False
    with "1" obtain k where k: "k \<le> length (butlast s)" "cut_to_valid (butlast s) = take k (butlast s)" by auto
    with False have "cut_to_valid s = take k s"
      by (simp add: cut_to_valid.simps [of s] butlast_conv_take)
    with k show ?thesis by (intro exI [of _ k]) auto
  qed
qed

lemma cut_to_valid_longest:
  "k \<le> length s \<Longrightarrow> valid_utf8 (take k s) \<Longrightarrow> k \<le> length (cut_to_valid s)"
proof (induction s rule: cut_to_valid.induct)
  case (1 s)
  show ?case
  proof (cases "valid_utf8 s")
    case False
    with "1.prems" have "k < length s" by (metis le_neq_implies_less order_refl take_all)
    with "1" False show ?thesis
      by (simp add: cut_to_valid.simps [of s] butlast_conv_take)
  qed (use "1.prems" in \<open>simp add: cut_to_valid.simps [of s]\<close>)
qed

text \<open>
  the stored error is empty as soon as one probe succeeded; otherwise it is the distinct messages
  joined, made valid UTF-8, cut to at most 2048 bytes without breaking a character (losing at most
  three bytes to the cut).
\<close>

theorem Aggregate_error:
  fixes results previous seen
  defines "e \<equiv> Error (Aggregate results previous seen)"
    and "joined \<equiv> to_valid_utf8 (join_str ''; '' (dedup_from []
           (map res_message (filter (\<lambda>r. \<not> res_ok r) (take 255 results))))) replacement"
  shows "if good results \<noteq> [] then e = []
     else valid_utf8 e \<and> length e \<le> 2048 \<and> e = take (length e) joined
        \<and> min 2045 (length joined) \<le> length e \<and> (if length joined \<le> 2048 then e = joined else True)"
proof (cases "good results = []")
  case True
  have rep: "valid_utf8 replacement" by (simp add: replacement_def valid_utf8.simps in_range_def)
  have v: "valid_utf8 joined" unfolding joined_def by (rule valid_to_valid_utf8 [OF rep])
  have e: "e = (if length joined \<le> 2048 then joined else cut_to_valid (take 2048 joined))"
    using True by (simp add: e_def Aggregate_base joinProbeErrors_def joined_def Let_def maxSampleError_def)
  show ?thesis
  proof (cases "length joined \<le> 2048")
    case True
    with e v \<open>good results = []\<close> show ?thesis by simp
  next
    case False
    then have ec: "e = cut_to_valid (take 2048 joined)" by (simp add: e)
    from valid_prefix_near [OF v, of 2048] False obtain k where
      k: "2048 \<le> k + 3" "k \<le> 2048" "valid_utf8 (take k joined)" by auto
    have "k \<le> length e" unfolding ec
      by (rule cut_to_valid_longest) (use k False in \<open>simp_all add: min_def\<close>)
    moreover obtain l where l: "l \<le> length (take 2048 joined)" "e = take l (take 2048 joined)"
      unfolding ec using cut_to_valid_prefix by blast
    moreover have "e = take (length e) joined" using l by (simp add: min_def)
    moreover have "valid_utf8 e" unfolding ec by (rule cut_to_valid_valid)
    ultimately show ?thesis using \<open>good results = []\<close> False k by simp
  qed
next
  case False
  then show ?thesis by (simp add: e_def Aggregate_base base_sample_def Let_def)
qed

end
