(* ===== verification/Events.thy ===== *)
theory Events
  imports Model "HOL-Library.Sublist"
begin

text \<open>
  \<open>internal/ch/event.go\<close>: sample events. A \<open>net.IP\<close> is the byte slice of an address without zone:
  \<open>NoAddr\<close> is the nil slice. The sink of events (\<open>EventSink\<close> in \<open>worker.go\<close>) is an interface: a locale
  with the law its client, the sampling worker, relies on.
\<close>

record event =
  e_SessionID :: uuid
  e_SampledAt :: time
  e_SampleSeq :: "32 word"
  e_ProbesAttempted :: "8 word"
  e_ProbesOK :: "8 word"
  e_PrimaryIP :: addr
  e_DistinctIPs :: "8 word"
  e_IPChanged :: "8 word"
  e_NewIPs :: "8 word"
  e_RTTMinMS :: "32 word"
  e_RTTMedMS :: "32 word"
  e_RTTMaxMS :: "32 word"
  e_EgressCountry :: string
  e_PrimaryCategory :: string
  e_PrimaryRisk :: "8 word"
  e_ProbeIPs :: "addr list"
  e_ProbeRTTsMS :: "32 word list"
  e_ProbeOK :: "8 word list"
  e_Error :: string

definition validEvent :: "event \<Rightarrow> bool" where
  "validEvent event =
     (let want = unat (e_ProbesAttempted event) in
      length (e_ProbeIPs event) = want \<and> length (e_ProbeRTTsMS event) = want \<and> length (e_ProbeOK event) = want)"

text \<open>
  A bounded sink: \<open>enqueue\<close> never blocks and reports whether it took the event; what it took is kept in
  order, what it refused leaves no trace.
\<close>

locale event_sink =
  fixes enqueue :: "event \<Rightarrow> 'q \<Rightarrow> bool \<times> 'q"
    and taken :: "'q \<Rightarrow> event list"
  assumes enqueue_taken: "enqueue e q = (True, q') \<Longrightarrow> taken q' = taken q @ [e]"
    and enqueue_refused: "enqueue e q = (False, q') \<Longrightarrow> taken q' = taken q"
begin

text \<open>Offering a list of events and counting the refusals.\<close>

fun offer :: "event list \<Rightarrow> 'q \<Rightarrow> nat \<times> 'q" where
  "offer [] q = (0, q)"
| "offer (e # es) q =
     (case enqueue e q of (ok, q') \<Rightarrow>
        (case offer es q' of (dropped, q'') \<Rightarrow> ((if ok then dropped else Suc dropped), q'')))"

lemma offer_subseq:
  "offer es q = (dropped, q') \<Longrightarrow> \<exists>kept. subseq kept es \<and> taken q' = taken q @ kept \<and> length kept + dropped = length es"
proof (induction es arbitrary: q dropped)
  case (Cons e es)
  obtain ok q1 where e: "enqueue e q = (ok, q1)" by fastforce
  obtain d1 where rest: "offer es q1 = (d1, q')" and d: "dropped = (if ok then d1 else Suc d1)"
    using Cons.prems e by (auto split: prod.splits)
  from Cons.IH [OF rest] obtain kept where kept: "subseq kept es" "taken q' = taken q1 @ kept"
    "length kept + d1 = length es" by blast
  show ?case
  proof (cases ok)
    case True
    with e have "taken q1 = taken q @ [e]" by (simp add: enqueue_taken)
    with kept d True show ?thesis by (intro exI [of _ "e # kept"]) simp
  next
    case False
    with e have "taken q1 = taken q" by (simp add: enqueue_refused)
    with kept d False show ?thesis by (intro exI [of _ kept]) auto
  qed
qed simp

end

end
