(* ===== verification/Writer.thy ===== *)
theory Writer
  imports Events
begin

text \<open>
  \<open>internal/ch/writer.go\<close>: the bounded asynchronous event writer as a state machine. The channel is a
  bounded list, the writer goroutine, the producers, \<open>Flush\<close> and \<open>Close\<close> take steps on the shared state;
  a critical section under \<open>stateMu\<close> is one step. What the ClickHouse batch reports while a flush talks
  to it (opening, each append, sending) is a \<open>sink_run\<close> supplied by the environment. The fields from
  \<open>wr_accepted\<close> on only record history: accepted events, flush attempts with their outcome, the errors
  since the last answered barrier, answered barriers.
\<close>

subsection \<open>State\<close>

datatype command = EventCmd event | BarrierCmd nat nat

record sink_run =
  open_err :: "go_error option"
  append_err :: "nat \<Rightarrow> go_error option"
  send_err :: "go_error option"

record barrier_answer =
  ba_id :: nat
  ba_before :: nat
  ba_handled :: nat
  ba_err :: "go_error option"
  ba_failures :: "go_error list"

record writer =
  wr_commands :: "command list"
  wr_capacity :: nat
  wr_chan_closed :: bool
  wr_done :: bool
  wr_batchSize :: nat
  wr_batch :: "event list"
  wr_pendingErr :: "go_error option"
  wr_accepting :: bool
  wr_closing :: bool
  wr_closeErr :: "go_error option"
  wr_dropped :: nat
  wr_flushErrors :: nat
  wr_accepted :: "event list"
  wr_attempts :: "(event list \<times> go_error option) list"
  wr_since :: "go_error list"
  wr_answers :: "barrier_answer list"

definition defaultBatchSize :: int where "defaultBatchSize = 100"
definition defaultQueueCapacity :: int where "defaultQueueCapacity = 4096"

definition newWriter :: "int \<Rightarrow> int \<Rightarrow> writer" where
  "newWriter cfgBatchSize cfgQueueCapacity =
     (let batch = (if cfgBatchSize \<le> 0 then defaultBatchSize else cfgBatchSize);
          cap = (if cfgQueueCapacity \<le> 0 then defaultQueueCapacity else cfgQueueCapacity)
      in \<lparr>wr_commands = [], wr_capacity = nat cap, wr_chan_closed = False, wr_done = False,
          wr_batchSize = nat batch, wr_batch = [], wr_pendingErr = None, wr_accepting = True,
          wr_closing = False, wr_closeErr = None, wr_dropped = 0, wr_flushErrors = 0,
          wr_accepted = [], wr_attempts = [], wr_since = [], wr_answers = []\<rparr>)"


subsection \<open>Producers\<close>

definition Enqueue :: "event \<Rightarrow> writer \<Rightarrow> bool \<times> writer" where
  "Enqueue event w =
     (if \<not> validEvent event then (False, w)
      else if wr_closing w then (False, w)
      else if \<not> wr_accepting w \<or> wr_closing w then (False, w)
      else if length (wr_commands w) < wr_capacity w
      then (True, w\<lparr>wr_commands := wr_commands w @ [EventCmd event], wr_accepted := wr_accepted w @ [event]\<rparr>)
      else (False, w\<lparr>wr_dropped := wr_dropped w + 1\<rparr>))"

text \<open>
  \<open>Flush\<close> up to the point where its barrier is in the channel: refused when closing, blocked (None)
  while the channel is full. The barrier carries how many events were accepted before it.
\<close>

definition FlushSend :: "nat \<Rightarrow> writer \<Rightarrow> (go_error option \<times> writer) option" where
  "FlushSend b w =
     (if wr_closing w then Some (Some ErrWriterClosed, w)
      else if \<not> wr_accepting w \<or> wr_closing w then Some (Some ErrWriterClosed, w)
      else if length (wr_commands w) < wr_capacity w
      then Some (None, w\<lparr>wr_commands := wr_commands w @ [BarrierCmd b (length (wr_accepted w))]\<rparr>)
      else None)"

definition Close :: "writer \<Rightarrow> writer" where
  "Close w = w\<lparr>wr_closing := True\<rparr>"

definition initiateClose :: "writer \<Rightarrow> writer" where
  "initiateClose w = w\<lparr>wr_accepting := False, wr_chan_closed := True\<rparr>"


subsection \<open>The writer goroutine\<close>

fun append_all :: "(nat \<Rightarrow> go_error option) \<Rightarrow> nat \<Rightarrow> event list \<Rightarrow> go_error option" where
  "append_all errs i [] = None"
| "append_all errs i (e # es) = (case errs i of Some x \<Rightarrow> Some x | None \<Rightarrow> append_all errs (Suc i) es)"

definition flush_batch :: "sink_run \<Rightarrow> event list \<Rightarrow> go_error option" where
  "flush_batch s events =
     (case open_err s of
        Some e \<Rightarrow> Some e
      | None \<Rightarrow> (case append_all (append_err s) 0 events of
                   Some e \<Rightarrow> Some e
                 | None \<Rightarrow> send_err s))"

definition flush :: "sink_run \<Rightarrow> writer \<Rightarrow> writer" where
  "flush s w =
     (if wr_batch w = [] then w
      else (let err = flush_batch s (wr_batch w);
                w1 = w\<lparr>wr_batch := [], wr_attempts := wr_attempts w @ [(wr_batch w, err)]\<rparr>
            in case err of
                 None \<Rightarrow> w1
               | Some e \<Rightarrow> w1\<lparr>wr_pendingErr := errors_join [wr_pendingErr w, Some e],
                             wr_flushErrors := wr_flushErrors w + 1, wr_since := wr_since w @ [e]\<rparr>))"

definition handle :: "sink_run \<Rightarrow> command \<Rightarrow> writer \<Rightarrow> writer" where
  "handle s cmd w =
     (case cmd of
        EventCmd event \<Rightarrow>
          (let w1 = w\<lparr>wr_batch := wr_batch w @ [event]\<rparr>
           in if length (wr_batch w1) \<ge> wr_batchSize w1 then flush s w1 else w1)
      | BarrierCmd b n \<Rightarrow>
          (let w1 = flush s w
           in w1\<lparr>wr_answers := wr_answers w1 @ [\<lparr>ba_id = b, ba_before = n,
                    ba_handled = length (concat (map fst (wr_attempts w1))), ba_err = wr_pendingErr w1,
                    ba_failures = wr_since w1\<rparr>],
                 wr_pendingErr := None, wr_since := []\<rparr>))"

definition drain :: "sink_run \<Rightarrow> go_error option \<Rightarrow> writer \<Rightarrow> writer" where
  "drain s closer w =
     (let w1 = flush s w
      in w1\<lparr>wr_closeErr := errors_join [wr_pendingErr w1, closer], wr_done := True\<rparr>)"

inductive wstep :: "writer \<Rightarrow> writer \<Rightarrow> bool" where
  enqueue: "Enqueue e w = (ok, w') \<Longrightarrow> wstep w w'"
| flush_send: "FlushSend b w = Some (r, w') \<Longrightarrow> wstep w w'"
| close: "wstep w (Close w)"
| initiate_close: "wr_closing w \<Longrightarrow> wr_accepting w \<Longrightarrow> wstep w (initiateClose w)"
| receive: "\<not> wr_done w \<Longrightarrow> wr_commands w = cmd # rest \<Longrightarrow> wstep w (handle s cmd (w\<lparr>wr_commands := rest\<rparr>))"
| tick: "\<not> wr_done w \<Longrightarrow> wstep w (flush s w)"
| closed: "\<not> wr_done w \<Longrightarrow> wr_chan_closed w \<Longrightarrow> wr_commands w = [] \<Longrightarrow> wstep w (drain s closer w)"

inductive_cases wstepE: "wstep w w'"

inductive reachable :: "writer \<Rightarrow> bool" where
  start: "reachable (newWriter b c)"
| step: "reachable w \<Longrightarrow> wstep w w' \<Longrightarrow> reachable w'"


subsection \<open>Invariant\<close>

fun events_of :: "command list \<Rightarrow> event list" where
  "events_of [] = []"
| "events_of (EventCmd e # cs) = e # events_of cs"
| "events_of (BarrierCmd b n # cs) = events_of cs"

lemma events_of_append [simp]: "events_of (cs @ ds) = events_of cs @ events_of ds"
  by (induction cs rule: events_of.induct) simp_all

definition handled :: "writer \<Rightarrow> event list" where
  "handled w = concat (map fst (wr_attempts w))"

text \<open>A queued barrier follows exactly the events accepted before it.\<close>

fun barriers_ok :: "nat \<Rightarrow> command list \<Rightarrow> bool" where
  "barriers_ok k [] = True"
| "barriers_ok k (EventCmd e # cs) = barriers_ok (Suc k) cs"
| "barriers_ok k (BarrierCmd b n # cs) = (n = k \<and> barriers_ok k cs)"

lemma barriers_ok_append:
  "barriers_ok k (cs @ ds) \<longleftrightarrow> barriers_ok k cs \<and> barriers_ok (k + length (events_of cs)) ds"
  by (induction k cs rule: barriers_ok.induct) auto

text \<open>What a joined error reports of a list of failures.\<close>

definition reports :: "go_error option \<Rightarrow> go_error list \<Rightarrow> bool" where
  "reports err es \<longleftrightarrow> (err = None) = (es = []) \<and> (\<forall>e \<in> set es. err_is err e)"

lemma errors_is_refl: "errors_is e e"
  by (cases e) simp_all

lemma errors_join2: "errors_join [a, Some e] = Some (Joined (case a of None \<Rightarrow> [e] | Some x \<Rightarrow> [x, e]))"
  by (cases a) (simp_all add: errors_join_def map_filter_simps)

lemma reports_snoc: "reports err es \<Longrightarrow> reports (errors_join [err, Some e]) (es @ [e])"
  by (cases err) (auto simp: reports_def errors_join2 errors_is_refl)

lemma reports_None [simp]: "reports None []"
  by (simp add: reports_def)

definition answer_ok :: "barrier_answer \<Rightarrow> bool" where
  "answer_ok a \<longleftrightarrow> ba_handled a = ba_before a \<and> reports (ba_err a) (ba_failures a)"

definition failures :: "(event list \<times> go_error option) list \<Rightarrow> go_error list" where
  "failures as = List.map_filter snd as"

lemma failures_snoc: "failures (as @ [(es, r)]) = failures as @ (case r of None \<Rightarrow> [] | Some e \<Rightarrow> [e])"
  by (simp add: failures_def map_filter_def split: option.splits)

definition inv :: "writer \<Rightarrow> bool" where
  "inv w \<longleftrightarrow>
     wr_accepted w = handled w @ wr_batch w @ events_of (wr_commands w)
   \<and> length (wr_batch w) < wr_batchSize w \<and> length (wr_commands w) \<le> wr_capacity w
   \<and> list_all (\<lambda>(es, _). es \<noteq> [] \<and> length es \<le> wr_batchSize w) (wr_attempts w)
   \<and> barriers_ok (length (handled w @ wr_batch w)) (wr_commands w)
   \<and> list_all answer_ok (wr_answers w)
   \<and> reports (wr_pendingErr w) (wr_since w)
   \<and> concat (map ba_failures (wr_answers w)) @ wr_since w = failures (wr_attempts w)
   \<and> wr_flushErrors w = length (failures (wr_attempts w))
   \<and> (wr_accepting w \<longleftrightarrow> \<not> wr_chan_closed w) \<and> (wr_chan_closed w \<longrightarrow> wr_closing w)
   \<and> (wr_done w \<longrightarrow> wr_chan_closed w \<and> wr_commands w = [] \<and> wr_batch w = []
        \<and> (\<forall>e \<in> set (wr_since w). err_is (wr_closeErr w) e))"

lemma inv_newWriter: "inv (newWriter b c)"
  by (simp add: inv_def newWriter_def Let_def handled_def failures_def map_filter_simps
      defaultBatchSize_def defaultQueueCapacity_def)


lemma inv_Enqueue: "inv w \<Longrightarrow> Enqueue e w = (ok, w') \<Longrightarrow> inv w'"
  by (auto simp: Enqueue_def inv_def handled_def barriers_ok_append split: if_splits)

lemma inv_FlushSend: "inv w \<Longrightarrow> FlushSend b w = Some (r, w') \<Longrightarrow> inv w'"
  by (auto simp: FlushSend_def inv_def handled_def barriers_ok_append split: if_splits)

lemma inv_Close: "inv w \<Longrightarrow> inv (Close w)"
  by (simp add: Close_def inv_def handled_def)

lemma inv_initiateClose: "inv w \<Longrightarrow> wr_closing w \<Longrightarrow> inv (initiateClose w)"
  by (simp add: initiateClose_def inv_def handled_def)

text \<open>
  The goroutine's own steps go through a weaker invariant that lets the batch be full, as it is between
  the append and the flush.
\<close>

definition batch_inv :: "writer \<Rightarrow> bool" where
  "batch_inv w \<longleftrightarrow>
     wr_accepted w = handled w @ wr_batch w @ events_of (wr_commands w)
   \<and> 0 < wr_batchSize w \<and> length (wr_batch w) \<le> wr_batchSize w \<and> length (wr_commands w) \<le> wr_capacity w
   \<and> list_all (\<lambda>(es, _). es \<noteq> [] \<and> length es \<le> wr_batchSize w) (wr_attempts w)
   \<and> barriers_ok (length (handled w @ wr_batch w)) (wr_commands w)
   \<and> list_all answer_ok (wr_answers w)
   \<and> reports (wr_pendingErr w) (wr_since w)
   \<and> concat (map ba_failures (wr_answers w)) @ wr_since w = failures (wr_attempts w)
   \<and> wr_flushErrors w = length (failures (wr_attempts w))
   \<and> (wr_accepting w \<longleftrightarrow> \<not> wr_chan_closed w) \<and> (wr_chan_closed w \<longrightarrow> wr_closing w)"

lemma inv_batch_inv: "inv w \<Longrightarrow> batch_inv w"
  by (auto simp: inv_def batch_inv_def)

lemma batch_inv_inv: "batch_inv w \<Longrightarrow> length (wr_batch w) < wr_batchSize w \<Longrightarrow> \<not> wr_done w \<Longrightarrow> inv w"
  by (auto simp: inv_def batch_inv_def)

lemma flush_batch_inv:
  assumes "batch_inv w"
  shows "batch_inv (flush s w)" and "wr_batch (flush s w) = []"
    and "wr_commands (flush s w) = wr_commands w" and "wr_done (flush s w) = wr_done w"
    and "wr_chan_closed (flush s w) = wr_chan_closed w" and "wr_batchSize (flush s w) = wr_batchSize w"
proof -
  show "wr_batch (flush s w) = []" "wr_commands (flush s w) = wr_commands w" "wr_done (flush s w) = wr_done w"
    "wr_chan_closed (flush s w) = wr_chan_closed w" "wr_batchSize (flush s w) = wr_batchSize w"
    by (simp_all add: flush_def Let_def split: option.splits)
  show "batch_inv (flush s w)"
  proof (cases "wr_batch w = []")
    case True
    with assms show ?thesis by (simp add: flush_def)
  next
    case False
    show ?thesis
    proof (cases "flush_batch s (wr_batch w)")
      case None
      with False assms show ?thesis
        by (simp add: flush_def Let_def batch_inv_def handled_def failures_snoc)
    next
      case (Some e)
      with False assms show ?thesis
        by (simp add: flush_def Let_def batch_inv_def handled_def failures_snoc reports_snoc flip: append_assoc)
    qed
  qed
qed

lemma inv_flush: "inv w \<Longrightarrow> \<not> wr_done w \<Longrightarrow> inv (flush s w)"
  using flush_batch_inv [OF inv_batch_inv, of w s]
  by (intro batch_inv_inv) (auto simp: inv_def)

lemma inv_handle:
  assumes "inv w" and "\<not> wr_done w" and "wr_commands w = cmd # rest"
  shows "inv (handle s cmd (w\<lparr>wr_commands := rest\<rparr>))"
proof (cases cmd)
  case (EventCmd e)
  define w1 where "w1 = w\<lparr>wr_commands := rest, wr_batch := wr_batch w @ [e]\<rparr>"
  have b: "batch_inv w1" using assms EventCmd by (auto simp: w1_def inv_def batch_inv_def handled_def)
  have h: "handle s cmd (w\<lparr>wr_commands := rest\<rparr>) = (if length (wr_batch w1) \<ge> wr_batchSize w1 then flush s w1 else w1)"
    using EventCmd by (simp add: handle_def w1_def Let_def)
  have "\<not> wr_done w1" using assms(2) by (simp add: w1_def)
  then show ?thesis
    unfolding h using flush_batch_inv [OF b, of s] b
    by (auto intro!: batch_inv_inv simp: batch_inv_def)
next
  case (BarrierCmd b n)
  define w0 where "w0 = w\<lparr>wr_commands := rest\<rparr>"
  define w1 where "w1 = flush s w0"
  have n: "n = length (handled w @ wr_batch w)" using assms BarrierCmd by (simp add: inv_def)
  have b0: "batch_inv w0" using assms BarrierCmd by (auto simp: w0_def inv_def batch_inv_def handled_def)
  note f = flush_batch_inv [OF b0, of s, folded w1_def]
  have before: "length (handled w1) = n"
  proof -
    have "length (handled w1) + length (events_of rest) = length (wr_accepted w1)"
      using f by (simp add: batch_inv_def w0_def)
    moreover have "wr_accepted w1 = wr_accepted w"
      by (simp add: w1_def w0_def flush_def Let_def split: option.splits)
    moreover have "length (wr_accepted w) = n + length (events_of rest)"
      using assms BarrierCmd n by (simp add: inv_def)
    ultimately show ?thesis by simp
  qed
  have h: "handle s cmd (w\<lparr>wr_commands := rest\<rparr>) =
      w1\<lparr>wr_answers := wr_answers w1 @ [\<lparr>ba_id = b, ba_before = n, ba_handled = length (handled w1),
           ba_err = wr_pendingErr w1, ba_failures = wr_since w1\<rparr>], wr_pendingErr := None, wr_since := []\<rparr>"
    using BarrierCmd by (simp add: handle_def w1_def w0_def handled_def Let_def)
  have nd: "\<not> wr_done w1" using f assms(2) by (simp add: w0_def)
  show ?thesis
    unfolding h using f nd before assms(1)
    by (intro batch_inv_inv) (auto simp: batch_inv_def handled_def answer_ok_def w0_def)
qed

lemma inv_drain:
  assumes "inv w" and "wr_chan_closed w" and "wr_commands w = []"
  shows "inv (drain s closer w)"
proof -
  note f = flush_batch_inv [OF inv_batch_inv [OF assms(1)], of s]
  have "\<forall>e \<in> set (wr_since (flush s w)). err_is (errors_join [wr_pendingErr (flush s w), closer]) e"
  proof
    fix e assume "e \<in> set (wr_since (flush s w))"
    with f(1) have "err_is (wr_pendingErr (flush s w)) e" by (simp add: batch_inv_def reports_def)
    then show "err_is (errors_join [wr_pendingErr (flush s w), closer]) e"
      by (cases "wr_pendingErr (flush s w)"; cases closer) (simp_all add: errors_join_def map_filter_simps)
  qed
  with f assms(2,3) show ?thesis
    by (simp add: drain_def Let_def inv_def batch_inv_def handled_def)
qed

lemma inv_step: "wstep w w' \<Longrightarrow> inv w \<Longrightarrow> inv w'"
  by (induction rule: wstep.induct)
     (auto intro: inv_Enqueue inv_FlushSend inv_Close inv_initiateClose inv_handle inv_flush inv_drain)

lemma inv_reachable: "reachable w \<Longrightarrow> inv w"
  by (induction rule: reachable.induct) (auto intro: inv_newWriter inv_step)

interpretation clickhouse: event_sink Enqueue wr_accepted
  by unfold_locales (auto simp: Enqueue_def split: if_splits)

text \<open>A closed writer ends: nothing enters the channel any more, and the goroutine empties it.\<close>

lemma closed_stays: "wstep w w' \<Longrightarrow> inv w \<Longrightarrow> wr_chan_closed w \<Longrightarrow> wr_chan_closed w' \<and> length (wr_commands w') \<le> length (wr_commands w)"
proof (induction rule: wstep.induct)
  case (receive w cmd rest s)
  then show ?case
    by (auto simp: handle_def flush_def Let_def split: command.splits option.splits)
qed (auto simp: Enqueue_def FlushSend_def Close_def initiateClose_def drain_def flush_def Let_def inv_def
      split: if_splits option.splits)

text \<open>The goroutine alone: receive until the channel is empty, then drain.\<close>

fun run_to_end :: "(nat \<Rightarrow> sink_run) \<Rightarrow> go_error option \<Rightarrow> command list \<Rightarrow> writer \<Rightarrow> writer" where
  "run_to_end s closer [] w = drain (s 0) closer w"
| "run_to_end s closer (cmd # cmds) w =
     run_to_end (\<lambda>k. s (Suc k)) closer cmds (handle (s 0) cmd (w\<lparr>wr_commands := cmds\<rparr>))"

lemma handle_keeps:
  "wr_commands (handle s cmd w) = wr_commands w \<and> wr_done (handle s cmd w) = wr_done w
   \<and> wr_chan_closed (handle s cmd w) = wr_chan_closed w \<and> wr_accepted (handle s cmd w) = wr_accepted w"
  by (auto simp: handle_def flush_def Let_def split: command.splits option.splits)

lemma run_to_end_reachable:
  "reachable w \<Longrightarrow> \<not> wr_done w \<Longrightarrow> wr_chan_closed w \<Longrightarrow> wr_commands w = cmds \<Longrightarrow>
     reachable (run_to_end s closer cmds w) \<and> wr_done (run_to_end s closer cmds w)
     \<and> wr_accepted (run_to_end s closer cmds w) = wr_accepted w"
proof (induction s closer cmds w rule: run_to_end.induct)
  case (1 s closer w)
  then have "reachable (drain (s 0) closer w)" by (intro reachable.step [OF _ wstep.closed])
  then show ?case by (simp add: drain_def Let_def flush_def split: option.splits)
next
  case (2 s closer cmd cmds w)
  have "reachable (handle (s 0) cmd (w\<lparr>wr_commands := cmds\<rparr>))"
    using 2 by (intro reachable.step [OF _ wstep.receive]) auto
  with 2 show ?case by (simp add: handle_keeps)
qed


subsection \<open>Properties\<close>

text \<open>
  C5: in every reachable state the accepted events are exactly, in order, those of the flush attempts,
  then the current batch, then the queue: nothing is lost, duplicated or reordered inside the writer;
  the channel never exceeds its capacity and no insert exceeds the batch size.
\<close>

theorem writer_fifo:
  assumes "reachable w"
  shows "wr_accepted w = concat (map fst (wr_attempts w)) @ wr_batch w @ events_of (wr_commands w)
     \<and> length (wr_commands w) \<le> wr_capacity w \<and> length (wr_batch w) < wr_batchSize w
     \<and> list_all (\<lambda>(es, _). es \<noteq> [] \<and> length es \<le> wr_batchSize w) (wr_attempts w)"
  using inv_reachable [OF assms] by (simp add: inv_def handled_def)

text \<open>
  C38: a barrier is answered only when every event accepted before it, and no other, has been handed to
  ClickHouse; its answer is nil exactly when no flush failed since the previous barrier and otherwise
  contains each of those errors; over all barriers each failed flush is reported exactly once.
\<close>

theorem writer_barriers:
  assumes "reachable w"
  shows "list_all (\<lambda>a. ba_handled a = ba_before a \<and> (ba_err a = None) = (ba_failures a = [])
            \<and> list_all (err_is (ba_err a)) (ba_failures a)) (wr_answers w)
     \<and> concat (map ba_failures (wr_answers w)) @ wr_since w = List.map_filter snd (wr_attempts w)
     \<and> (wr_pendingErr w = None) = (wr_since w = [])
     \<and> wr_flushErrors w = length (List.map_filter snd (wr_attempts w))"
  using inv_reachable [OF assms]
  by (auto simp: inv_def answer_ok_def reports_def failures_def list_all_iff)

text \<open>
  C39: once the channel is closed the goroutine, receiving what is left, terminates; then every accepted
  event has been handed to ClickHouse and the close error contains every failure no barrier reported.
\<close>

theorem writer_close_drains:
  assumes "reachable w" and "wr_chan_closed w" and "\<not> wr_done w"
  shows "let w' = run_to_end s closer (wr_commands w) w in
     reachable w' \<and> wr_done w' \<and> wr_accepted w' = wr_accepted w
   \<and> concat (map fst (wr_attempts w')) = wr_accepted w \<and> wr_batch w' = [] \<and> wr_commands w' = []
   \<and> list_all (err_is (wr_closeErr w')) (wr_since w')"
proof -
  note r = run_to_end_reachable [OF assms(1,3,2) refl, of s closer]
  with inv_reachable have "inv (run_to_end s closer (wr_commands w) w)" by blast
  with r show ?thesis by (auto simp: inv_def handled_def Let_def list_all_iff)
qed

definition demo_event :: event where
  "demo_event = \<lparr>e_SessionID = 1, e_SampledAt = 0, e_SampleSeq = 1, e_ProbesAttempted = 0, e_ProbesOK = 0,
     e_PrimaryIP = NoAddr, e_DistinctIPs = 0, e_IPChanged = 0, e_NewIPs = 0, e_RTTMinMS = 0, e_RTTMedMS = 0,
     e_RTTMaxMS = 0, e_EgressCountry = [], e_PrimaryCategory = [], e_PrimaryRisk = 0, e_ProbeIPs = [],
     e_ProbeRTTsMS = [], e_ProbeOK = [], e_Error = []\<rparr>"

definition demo_writer :: writer where
  "demo_writer = initiateClose (Close (snd (Enqueue demo_event (newWriter 2 4))))"

lemma demo_reachable: "reachable demo_writer"
proof -
  have "reachable (snd (Enqueue demo_event (newWriter 2 4)))"
    by (rule reachable.step [OF reachable.start wstep.enqueue [OF prod.collapse [symmetric]]])
  then have "reachable (Close (snd (Enqueue demo_event (newWriter 2 4))))"
    by (rule reachable.step [OF _ wstep.close])
  then show ?thesis unfolding demo_writer_def
    by (rule reachable.step [OF _ wstep.initiate_close])
       (simp_all add: Close_def Enqueue_def newWriter_def Let_def validEvent_def demo_event_def)
qed

lemma demo_writer_simps:
  "wr_accepted demo_writer = [demo_event]" "wr_chan_closed demo_writer" "\<not> wr_done demo_writer"
  "wr_commands demo_writer = [EventCmd demo_event]" "wr_answers demo_writer = []"
  by (simp_all add: demo_writer_def initiateClose_def Close_def Enqueue_def newWriter_def Let_def
      validEvent_def demo_event_def)

theorem writer_fifo_witness:
  "[demo_event] = concat (map fst (wr_attempts demo_writer)) @ wr_batch demo_writer @ [demo_event]"
  using writer_fifo [OF demo_reachable] by (simp add: demo_writer_simps)

theorem writer_barriers_witness: "(wr_pendingErr demo_writer = None) = (wr_since demo_writer = [])"
  using writer_barriers [OF demo_reachable] by simp

theorem writer_close_drains_witness:
  "concat (map fst (wr_attempts (run_to_end (\<lambda>_. \<lparr>open_err = None, append_err = \<lambda>_. None, send_err = None\<rparr>)
     None [EventCmd demo_event] demo_writer))) = [demo_event]"
  using writer_close_drains [OF demo_reachable demo_writer_simps(2,3),
      of "\<lambda>_. \<lparr>open_err = None, append_err = \<lambda>_. None, send_err = None\<rparr>" None]
  by (simp add: demo_writer_simps Let_def)

end
