(* ===== verification/Contracts.thy ===== *)
theory Contracts
  imports Model
begin

text \<open>
  The contract of \<open>session.Store\<close> (\<open>internal/session/store.go\<close>) as far as event numbering relies on it,
  as a locale. \<open>seq_view d s\<close> is the status, sequence offset and samples taken of session \<open>s\<close>; \<open>'f\<close> is
  whatever decides which statements fail. The client lemma follows one session through ticks, stops,
  finishes and re-enables and shows that the event numbers handed out never repeat.
\<close>

type_synonym seq_state = "status \<times> int \<times> int"

definition numbered :: "seq_state option \<Rightarrow> int" where
  "numbered v = (case v of None \<Rightarrow> 0 | Some (_, offset, samples) \<Rightarrow> offset + samples)"

datatype 'f life =
    LifeTick 'f snapshot "ip_hit list"
  | LifeStop 'f time | LifeFinish 'f time | LifeReenable 'f time

locale session_store =
  fixes ok :: "'d \<Rightarrow> bool"
    and seq_view :: "'d \<Rightarrow> uuid \<Rightarrow> seq_state option"
    and save :: "'f \<Rightarrow> 'd \<Rightarrow> uuid \<Rightarrow> snapshot \<Rightarrow> ip_hit list \<Rightarrow> 'd \<times> go_error option"
    and stop :: "'f \<Rightarrow> 'd \<Rightarrow> uuid \<Rightarrow> time \<Rightarrow> 'd \<times> go_error option"
    and finish :: "'f \<Rightarrow> 'd \<Rightarrow> uuid \<Rightarrow> time \<Rightarrow> 'd \<times> go_error option"
    and reenable :: "'f \<Rightarrow> 'd \<Rightarrow> uuid \<Rightarrow> time \<Rightarrow> 'd \<times> go_error option"
  assumes save_done: "save f d sid snap hits = (d', None) \<Longrightarrow> ok d \<Longrightarrow> 0 \<le> SamplesTaken snap \<Longrightarrow>
      SamplesTaken snap < 2 ^ 31 \<Longrightarrow> ok d' \<and> seq_view d' s =
        (if s = sid then map_option (\<lambda>(st, offset, _). (st, offset, SamplesTaken snap)) (seq_view d s) else seq_view d s)"
    and save_failed: "save f d sid snap hits = (d', Some e) \<Longrightarrow> d' = d"
    and stop_keeps: "stop f d sid now = (d', err) \<Longrightarrow> ok d \<Longrightarrow> ok d' \<and> numbered (seq_view d' s) = numbered (seq_view d s)"
    and finish_keeps: "finish f d sid now = (d', err) \<Longrightarrow> ok d \<Longrightarrow> ok d' \<and> numbered (seq_view d' s) = numbered (seq_view d s)"
    and reenable_keeps: "reenable f d sid now = (d', err) \<Longrightarrow> ok d \<Longrightarrow> ok d' \<and> numbered (seq_view d' s) = numbered (seq_view d s)"
begin

text \<open>
  One step in the life of session \<open>sid\<close> and the number of the event it emits, if any: a tick stores the
  snapshot that follows the stored one and emits offset plus samples plus one once it is saved.
\<close>

fun live :: "uuid \<Rightarrow> 'f life \<Rightarrow> 'd \<Rightarrow> int list \<times> 'd" where
  "live sid (LifeTick f snap hits) d =
     (case seq_view d sid of
        None \<Rightarrow> ([], d)
      | Some (st, offset, samples) \<Rightarrow>
          if 0 \<le> samples \<and> SamplesTaken snap = samples + 1 \<and> samples + 1 < 2 ^ 31
          then (case save f d sid snap hits of
                  (d', None) \<Rightarrow> ([offset + samples + 1], d')
                | (d', Some e) \<Rightarrow> ([], d'))
          else ([], d))"
| "live sid (LifeStop f now) d = ([], fst (stop f d sid now))"
| "live sid (LifeFinish f now) d = ([], fst (finish f d sid now))"
| "live sid (LifeReenable f now) d = ([], fst (reenable f d sid now))"

fun lives :: "uuid \<Rightarrow> 'f life list \<Rightarrow> 'd \<Rightarrow> int list \<times> 'd" where
  "lives sid [] d = ([], d)"
| "lives sid (x # xs) d =
     (case live sid x d of (ns, d') \<Rightarrow> (case lives sid xs d' of (ms, d'') \<Rightarrow> (ns @ ms, d'')))"

lemma live_step:
  assumes "live sid x d = (ns, d')" and "ok d"
  shows "ok d' \<and> ((ns = [] \<and> numbered (seq_view d' sid) = numbered (seq_view d sid))
      \<or> (ns = [numbered (seq_view d sid) + 1] \<and> numbered (seq_view d' sid) = numbered (seq_view d sid) + 1))"
proof (cases x)
  case (LifeTick f snap hits)
  show ?thesis
  proof (cases "ns = [] \<and> d' = d")
    case False
    then obtain st offset samples where v: "seq_view d sid = Some (st, offset, samples)"
      and s: "0 \<le> samples" "SamplesTaken snap = samples + 1" "samples + 1 < 2 ^ 31"
      using assms(1) LifeTick by (auto split: option.splits if_splits)
    obtain d1 e where sv: "save f d sid snap hits = (d1, e)" by fastforce
    have "e = None" using False assms(1) LifeTick v s sv save_failed by (cases e) auto
    then have d': "save f d sid snap hits = (d', None)" and ns: "ns = [offset + samples + 1]"
      using assms(1) LifeTick v s sv by auto
    from save_done [OF d' assms(2), of sid] s v ns show ?thesis by (simp add: numbered_def)
  qed (use assms(2) in simp)
next
  case (LifeStop f now)
  with assms show ?thesis using stop_keeps [of f d sid now d' _ sid] by (cases "stop f d sid now") auto
next
  case (LifeFinish f now)
  with assms show ?thesis using finish_keeps [of f d sid now d' _ sid] by (cases "finish f d sid now") auto
next
  case (LifeReenable f now)
  with assms show ?thesis using reenable_keeps [of f d sid now d' _ sid] by (cases "reenable f d sid now") auto
qed

lemma lives_numbers:
  "lives sid xs d = (ns, d') \<Longrightarrow> ok d \<Longrightarrow>
     ns = [numbered (seq_view d sid) + 1..numbered (seq_view d' sid)]
     \<and> numbered (seq_view d sid) \<le> numbered (seq_view d' sid) \<and> ok d'"
proof (induction xs arbitrary: d ns)
  case (Cons x xs)
  obtain ns1 d1 where l: "live sid x d = (ns1, d1)" by fastforce
  obtain ns2 where r: "lives sid xs d1 = (ns2, d')" and ns: "ns = ns1 @ ns2"
    using Cons.prems(1) l by (auto split: prod.splits)
  note s = live_step [OF l Cons.prems(2)]
  note IH = Cons.IH [OF r conjunct1 [OF s]]
  show ?case
    using s IH ns by (auto simp: upto_rec1 [of "numbered (seq_view d sid) + 1"])
qed simp

end

end
