(* ===== verification/Queries.thy ===== *)
theory Queries
  imports Model
begin

text \<open>
  The PostgreSQL tables (\<open>migrations/\<close>) and the generated statements \<open>internal/db/*.sql.go\<close>.

  The database is a record of tables; a SQL statement is a function on it that either changes it or
  fails. A fault plan \<open>f\<close> gives, for each statement a method issues in turn, the error the connection
  reports for it (None when it goes through): a statement looks at \<open>f 0\<close>, and a failed one changes
  nothing. A \<open>timestamptz\<close> keeps microseconds, an \<open>integer\<close> column 32 bits, \<open>NoAddr\<close> is a NULL \<open>inet\<close>, and an
  \<open>inet\<close> has no zone. \<open>jsonb\<close> stands for the normalised text PostgreSQL returns for a JSON document.
  The rows a SELECT returns are table rows with the joined columns beside them; its parameter and row
  structs have the columns of the tables. Statement names keep the generated method's name after \<open>q\<close>.
\<close>

subsection \<open>Tables\<close>

record session_row =
  c_id :: uuid
  c_name :: string
  c_proxy_ciphertext :: string
  c_proxy_nonce :: string
  c_proxy_display :: string
  c_mode :: mode
  c_cadence_seconds :: int
  c_probes_per_sample :: int
  c_probe_target :: string
  c_dial_timeout_ms :: int
  c_max_samples :: "int option"
  c_max_duration_seconds :: "int option"
  c_status :: status
  c_samples_taken :: int
  c_probes_ok :: int
  c_probes_total :: int
  c_distinct_ips :: int
  c_last_sample_at :: "time option"
  c_last_primary_ip :: addr
  c_last_rtt_ms :: "int option"
  c_last_error :: "string option"
  c_created_at :: time
  c_started_at :: "time option"
  c_stopped_at :: "time option"
  c_sequence_offset :: int
  c_target_country :: string
  c_run_id :: "uuid option"
  c_variant_params :: "string option"
  c_cell_key :: "string option"
  c_name_customized :: bool

record ip_cols =
  i_first_seen :: time
  i_last_seen :: time
  i_hit_count :: int

record db =
  t_sessions :: "session_row list"
  t_session_ips :: "(uuid \<times> addr, ip_cols) gomap"
  t_reputation :: "(addr, reputation) gomap"
  t_runs :: "run list"

type_synonym fault_plan = "nat \<Rightarrow> go_error option"

definition no_faults :: fault_plan where "no_faults k = None"


subsection \<open>Conversions\<close>

definition int32 :: "int \<Rightarrow> bool" where
  "int32 x \<longleftrightarrow> - (2 ^ 31) \<le> x \<and> x < 2 ^ 31"

definition wrap32 :: "int \<Rightarrow> int" where
  "wrap32 x = (x + 2 ^ 31) mod 2 ^ 32 - 2 ^ 31"

lemma wrap32_id [simp]: "int32 x \<Longrightarrow> wrap32 x = x"
  by (simp add: wrap32_def int32_def)

lemma int32_wrap32 [simp]: "int32 (wrap32 x)"
proof -
  have "0 \<le> (x + 2 ^ 31) mod 2 ^ 32" "(x + 2 ^ 31) mod 2 ^ 32 < 2 ^ 32" by simp_all
  then show ?thesis by (simp add: wrap32_def int32_def)
qed

definition timestamp :: "time \<Rightarrow> time" where
  "timestamp t = t - t mod 1000"

definition nullif_empty :: "string \<Rightarrow> string option" where
  "nullif_empty s = (if s = [] then None else Some s)"

definition stringValue :: "string option \<Rightarrow> string" where
  "stringValue v = (case v of None \<Rightarrow> [] | Some s \<Rightarrow> s)"

definition durationSeconds :: "duration \<Rightarrow> int" where
  "durationSeconds d = wrap32 (go_div d second)"

definition durationMillis32 :: "duration \<Rightarrow> int" where
  "durationMillis32 d = wrap32 (go_div d millisecond)"

definition inet_ok :: "addr \<Rightarrow> bool" where
  "inet_ok a \<longleftrightarrow> (case a of V6 _ z \<Rightarrow> z = [] | _ \<Rightarrow> True)"


text \<open>The CHECK constraints of the table and the range of its integer columns.\<close>

definition row_ok :: "session_row \<Rightarrow> bool" where
  "row_ok r \<longleftrightarrow> c_cadence_seconds r > 0 \<and> 1 \<le> c_probes_per_sample r \<and> c_probes_per_sample r \<le> 255
     \<and> c_dial_timeout_ms r > 0 \<and> (\<forall>m \<in> set_option (c_max_samples r). m > 0)
     \<and> (\<forall>m \<in> set_option (c_max_duration_seconds r). m > 0)
     \<and> inet_ok (c_last_primary_ip r) \<and> int32 (c_sequence_offset r) \<and> int32 (c_samples_taken r)"


subsection \<open>Statements on sampling_sessions\<close>

definition sql_error :: "string \<Rightarrow> go_error" where "sql_error s = ErrOther s"

definition find_session :: "db \<Rightarrow> uuid \<Rightarrow> session_row option" where
  "find_session d sid = find (\<lambda>r. c_id r = sid) (t_sessions d)"

definition insert_row :: "session_row \<Rightarrow> db \<Rightarrow> db result" where
  "insert_row r d =
     (if find_session d (c_id r) \<noteq> None then Inl (sql_error ''duplicate key'')
      else if \<not> row_ok r then Inl (sql_error ''check violation'')
      else if \<not> (\<forall>rid \<in> set_option (c_run_id r). \<exists>x \<in> set (t_runs d). run_ID x = rid)
      then Inl (sql_error ''foreign key violation'')
      else Inr (d\<lparr>t_sessions := t_sessions d @ [r]\<rparr>))"

text \<open>\<open>UPDATE sampling_sessions SET \<dots> WHERE id = $1 AND \<dots>\<close>, with the number of rows.\<close>

definition update_rows :: "(session_row \<Rightarrow> bool) \<Rightarrow> (session_row \<Rightarrow> session_row) \<Rightarrow> db \<Rightarrow> (db \<times> nat) result" where
  "update_rows P g d =
     (if list_all (\<lambda>r. row_ok (g r)) (filter P (t_sessions d))
      then Inr (d\<lparr>t_sessions := map (\<lambda>r. if P r then g r else r) (t_sessions d)\<rparr>, length (filter P (t_sessions d)))
      else Inl (sql_error ''integer out of range''))"

text \<open>The category of the last primary address (\<open>LEFT JOIN ip_reputation_cache\<close>).\<close>

definition last_category :: "db \<Rightarrow> session_row \<Rightarrow> string" where
  "last_category d r =
     (if c_last_primary_ip r = NoAddr then []
      else (case map_of (t_reputation d) (c_last_primary_ip r) of None \<Rightarrow> [] | Some p \<Rightarrow> Category p))"

definition update_session ::
  "fault_plan \<Rightarrow> (session_row \<Rightarrow> bool) \<Rightarrow> (session_row \<Rightarrow> session_row) \<Rightarrow> db \<Rightarrow> (db \<times> nat) result" where
  "update_session f P g d = (case f 0 of Some e \<Rightarrow> Inl e | None \<Rightarrow> update_rows P g d)"

text \<open>Deleting a session cascades to its addresses.\<close>

definition delete_sessions :: "(session_row \<Rightarrow> bool) \<Rightarrow> db \<Rightarrow> db" where
  "delete_sessions P d =
     d\<lparr>t_sessions := filter (\<lambda>r. \<not> P r) (t_sessions d),
       t_session_ips := filter (\<lambda>((sid, _), _). \<exists>r \<in> set (t_sessions d). c_id r = sid \<and> \<not> P r) (t_session_ips d)\<rparr>"

text \<open>The reputation joined to an address (\<open>LEFT JOIN ip_reputation_cache AS r ON r.ip = si.ip\<close>).\<close>

definition reputation_for :: "db \<Rightarrow> addr \<Rightarrow> reputation option" where
  "reputation_for d ip = map_of (t_reputation d) ip"

definition children_of :: "db \<Rightarrow> uuid \<Rightarrow> session_row list" where
  "children_of d rid = filter (\<lambda>r. c_run_id r = Some rid) (t_sessions d)"

definition run_ips :: "db \<Rightarrow> uuid \<Rightarrow> ((uuid \<times> addr) \<times> ip_cols) list" where
  "run_ips d rid = filter (\<lambda>((sid, _), _). \<exists>r \<in> set (t_sessions d). c_id r = sid \<and> c_run_id r = Some rid) (t_session_ips d)"

text \<open>\<open>ORDER BY created_at, id\<close>.\<close>

definition ordered_children :: "db \<Rightarrow> uuid \<Rightarrow> session_row list" where
  "ordered_children d rid = sort_key c_created_at (sort_key c_id (children_of d rid))"

definition coalesce_params :: "(string \<Rightarrow> string) \<Rightarrow> session_row \<Rightarrow> string" where
  "coalesce_params jsonb r = (case c_variant_params r of None \<Rightarrow> ''{}'' | Some p \<Rightarrow> jsonb p)"


subsection \<open>sessions.sql.go\<close>

definition qDeleteSession :: "fault_plan \<Rightarrow> uuid \<Rightarrow> db \<Rightarrow> db result" where
  [simp]: "qDeleteSession f sid d = (case f 0 of Some e \<Rightarrow> Inl e | None \<Rightarrow> Inr (delete_sessions (\<lambda>r. c_id r = sid) d))"

definition qFinishSession :: "fault_plan \<Rightarrow> time \<Rightarrow> uuid \<Rightarrow> db \<Rightarrow> (db \<times> nat) result" where
  [simp]: "qFinishSession f stoppedAt sid d =
     update_session f (\<lambda>r. c_id r = sid \<and> c_status r = StatusRunning)
       (\<lambda>r. r\<lparr>c_status := StatusFinished, c_stopped_at := Some stoppedAt\<rparr>) d"

text \<open>The columns of the parameter struct, with those the statement fills in itself.\<close>

definition standalone_row :: "session_row \<Rightarrow> session_row" where
  "standalone_row arg = arg\<lparr>c_run_id := None, c_variant_params := None, c_cell_key := None, c_name_customized := True\<rparr>"

definition qInsertSession :: "fault_plan \<Rightarrow> session_row \<Rightarrow> db \<Rightarrow> db result" where
  [simp]: "qInsertSession f arg d = (case f 0 of Some e \<Rightarrow> Inl e | None \<Rightarrow> insert_row (standalone_row arg) d)"

definition reenable_row :: "time \<Rightarrow> session_row \<Rightarrow> session_row" where
  "reenable_row startedAt r =
     r\<lparr>c_status := StatusRunning, c_sequence_offset := c_sequence_offset r + c_samples_taken r,
       c_samples_taken := 0, c_probes_ok := 0, c_probes_total := 0, c_last_sample_at := None,
       c_last_primary_ip := NoAddr, c_last_rtt_ms := None, c_last_error := None,
       c_started_at := Some startedAt, c_stopped_at := None\<rparr>"

definition qReenableSession :: "fault_plan \<Rightarrow> time \<Rightarrow> uuid \<Rightarrow> db \<Rightarrow> (db \<times> nat) result" where
  [simp]: "qReenableSession f startedAt sid d =
     update_session f (\<lambda>r. c_id r = sid \<and> c_status r \<in> {StatusStopped, StatusFinished}) (reenable_row startedAt) d"

definition qRenameSession :: "fault_plan \<Rightarrow> string \<Rightarrow> uuid \<Rightarrow> db \<Rightarrow> (db \<times> nat) result" where
  [simp]: "qRenameSession f name sid d =
     update_session f (\<lambda>r. c_id r = sid) (\<lambda>r. r\<lparr>c_name := name, c_name_customized := True\<rparr>) d"

definition qRunningSessions :: "fault_plan \<Rightarrow> db \<Rightarrow> (session_row \<times> string) list result" where
  [simp]: "qRunningSessions f d =
     (case f 0 of Some e \<Rightarrow> Inl e
      | None \<Rightarrow> Inr (map (\<lambda>r. (r, last_category d r))
          (sort_key c_created_at (filter (\<lambda>r. c_status r = StatusRunning) (t_sessions d)))))"

text \<open>\<open>QueryRow\<close>: no row is \<open>pgx.ErrNoRows\<close>.\<close>

definition qSessionByID :: "fault_plan \<Rightarrow> db \<Rightarrow> uuid \<Rightarrow> (session_row \<times> string) option result" where
  [simp]: "qSessionByID f d sid =
     (case f 0 of Some e \<Rightarrow> Inl e
      | None \<Rightarrow> Inr (map_option (\<lambda>r. (r, last_category d r)) (find_session d sid)))"

definition qSessionIPs :: "fault_plan \<Rightarrow> db \<Rightarrow> uuid \<Rightarrow> (((uuid \<times> addr) \<times> ip_cols) \<times> reputation option) list result" where
  [simp]: "qSessionIPs f d sid =
     (case f 0 of Some e \<Rightarrow> Inl e
      | None \<Rightarrow> Inr (map (\<lambda>x. (x, reputation_for d (snd (fst x))))
          (sort_key (\<lambda>(_, c). - i_last_seen c) (filter (\<lambda>((s, _), _). s = sid) (t_session_ips d)))))"

definition qSessions :: "fault_plan \<Rightarrow> db \<Rightarrow> (session_row \<times> string) list result" where
  [simp]: "qSessions f d =
     (case f 0 of Some e \<Rightarrow> Inl e
      | None \<Rightarrow> Inr (map (\<lambda>r. (r, last_category d r))
          (sort_key (\<lambda>r. - c_created_at r) (filter (\<lambda>r. c_run_id r = None) (t_sessions d)))))"

definition qStopSession :: "fault_plan \<Rightarrow> time \<Rightarrow> uuid \<Rightarrow> db \<Rightarrow> (db \<times> nat) result" where
  [simp]: "qStopSession f stoppedAt sid d =
     update_session f (\<lambda>r. c_id r = sid \<and> c_status r = StatusRunning)
       (\<lambda>r. r\<lparr>c_status := StatusStopped, c_stopped_at := Some stoppedAt\<rparr>) d"

record snapshot_params =
  sp_samples_taken :: int
  sp_probes_ok :: int
  sp_probes_total :: int
  sp_distinct_ips :: int
  sp_last_sample_at :: "time option"
  sp_last_primary_ip :: addr
  sp_last_rtt_ms :: "int option"
  sp_last_error :: string

definition set_snapshot :: "snapshot_params \<Rightarrow> session_row \<Rightarrow> session_row" where
  "set_snapshot arg r =
     r\<lparr>c_samples_taken := sp_samples_taken arg, c_probes_ok := sp_probes_ok arg,
       c_probes_total := sp_probes_total arg, c_distinct_ips := sp_distinct_ips arg,
       c_last_sample_at := sp_last_sample_at arg, c_last_primary_ip := sp_last_primary_ip arg,
       c_last_rtt_ms := sp_last_rtt_ms arg, c_last_error := nullif_empty (sp_last_error arg)\<rparr>"

definition qUpdateSessionSnapshot :: "fault_plan \<Rightarrow> snapshot_params \<Rightarrow> uuid \<Rightarrow> db \<Rightarrow> (db \<times> nat) result" where
  [simp]: "qUpdateSessionSnapshot f arg sid d = update_session f (\<lambda>r. c_id r = sid) (set_snapshot arg) d"

definition upsert_ip :: "uuid \<Rightarrow> ip_hit \<Rightarrow> db \<Rightarrow> db result" where
  "upsert_ip sid hit d =
     (if \<not> inet_ok (h_IP hit) \<or> h_IP hit = NoAddr then Inl (sql_error ''invalid inet'')
      else if find_session d sid = None then Inl (sql_error ''foreign key violation'')
      else (let seenAt = timestamp (SeenAt hit);
                cols = (case map_of (t_session_ips d) (sid, h_IP hit) of
                          None \<Rightarrow> \<lparr>i_first_seen = seenAt, i_last_seen = seenAt, i_hit_count = Hits hit\<rparr>
                        | Some c \<Rightarrow> c\<lparr>i_last_seen := seenAt, i_hit_count := i_hit_count c + Hits hit\<rparr>)
            in Inr (d\<lparr>t_session_ips := AList.update (sid, h_IP hit) cols (t_session_ips d)\<rparr>)))"

definition qUpsertSessionIP :: "fault_plan \<Rightarrow> uuid \<Rightarrow> ip_hit \<Rightarrow> db \<Rightarrow> db result" where
  [simp]: "qUpsertSessionIP f sid hit d = (case f 0 of Some e \<Rightarrow> Inl e | None \<Rightarrow> upsert_ip sid hit d)"


subsection \<open>reputation.sql.go\<close>

definition qReputationByIP :: "fault_plan \<Rightarrow> db \<Rightarrow> addr \<Rightarrow> reputation option result" where
  [simp]: "qReputationByIP f d ip = (case f 0 of Some e \<Rightarrow> Inl e | None \<Rightarrow> Inr (reputation_for d ip))"

text \<open>Only \<open>first_seen\<close> survives a conflict; the column \<open>risk_score\<close> has a CHECK constraint.\<close>

definition qUpsertReputation :: "fault_plan \<Rightarrow> reputation \<Rightarrow> db \<Rightarrow> db result" where
  [simp]: "qUpsertReputation f stored d =
     (case (case f 0 of Some e \<Rightarrow> Some e
            | None \<Rightarrow> if \<not> inet_ok (r_IP stored) \<or> r_IP stored = NoAddr then Some (sql_error ''invalid inet'')
                      else if \<exists>n \<in> set_option (RiskScore stored). n < 0 \<or> n > 100 then Some (sql_error ''check violation'')
                      else None) of
        Some e \<Rightarrow> Inl e
      | None \<Rightarrow>
          (let merged = (case reputation_for d (r_IP stored) of
                           None \<Rightarrow> stored | Some old \<Rightarrow> stored\<lparr>r_FirstSeen := r_FirstSeen old\<rparr>)
           in Inr (d\<lparr>t_reputation := AList.update (r_IP stored) merged (t_reputation d)\<rparr>)))"


subsection \<open>runs.sql.go\<close>

definition qDeleteRun :: "fault_plan \<Rightarrow> uuid \<Rightarrow> db \<Rightarrow> db result" where
  [simp]: "qDeleteRun f rid d =
     (case f 0 of Some e \<Rightarrow> Inl e
      | None \<Rightarrow> Inr ((delete_sessions (\<lambda>r. c_run_id r = Some rid) d)\<lparr>t_runs := filter (\<lambda>r. run_ID r \<noteq> rid) (t_runs d)\<rparr>))"

definition find_run :: "db \<Rightarrow> uuid \<Rightarrow> run option" where
  "find_run d rid = find (\<lambda>r. run_ID r = rid) (t_runs d)"

definition insert_run :: "run \<Rightarrow> db \<Rightarrow> db result" where
  "insert_run r d =
     (if find_run d (run_ID r) \<noteq> None then Inl (sql_error ''duplicate key'')
      else Inr (d\<lparr>t_runs := t_runs d @ [r\<lparr>run_CreatedAt := timestamp (run_CreatedAt r)\<rparr>]\<rparr>))"

definition qInsertRun :: "fault_plan \<Rightarrow> run \<Rightarrow> db \<Rightarrow> db result" where
  [simp]: "qInsertRun f r d = (case f 0 of Some e \<Rightarrow> Inl e | None \<Rightarrow> insert_run r d)"

definition qInsertRunSession :: "fault_plan \<Rightarrow> session_row \<Rightarrow> db \<Rightarrow> db result" where
  [simp]: "qInsertRunSession f arg d =
     (case f 0 of Some e \<Rightarrow> Inl e | None \<Rightarrow> insert_row (arg\<lparr>c_name_customized := False\<rparr>) d)"

definition qRenameGeneratedRunSession :: "fault_plan \<Rightarrow> string \<Rightarrow> uuid \<Rightarrow> db \<Rightarrow> (db \<times> nat) result" where
  [simp]: "qRenameGeneratedRunSession f name sid d =
     update_session f (\<lambda>r. c_id r = sid \<and> \<not> c_name_customized r) (\<lambda>r. r\<lparr>c_name := name\<rparr>) d"

definition qRenameRun :: "fault_plan \<Rightarrow> string \<Rightarrow> uuid \<Rightarrow> db \<Rightarrow> (db \<times> nat) result" where
  [simp]: "qRenameRun f name rid d =
     (case f 0 of Some e \<Rightarrow> Inl e
      | None \<Rightarrow> Inr (d\<lparr>t_runs := map (\<lambda>r. if run_ID r = rid then r\<lparr>run_Name := name\<rparr> else r) (t_runs d)\<rparr>,
                     length (filter (\<lambda>r. run_ID r = rid) (t_runs d))))"

text \<open>A run with its aggregated columns.\<close>

record run_row =
  rw_run :: run
  rw_variant_count :: int
  rw_distinct_ips :: int
  rw_running_count :: int
  rw_finished_count :: int

definition run_row_of :: "db \<Rightarrow> run \<Rightarrow> run_row" where
  "run_row_of d r =
     (let cs = children_of d (run_ID r) in
      \<lparr>rw_run = r, rw_variant_count = int (length cs),
       rw_distinct_ips = int (length (dedup_from [] (map (\<lambda>((_, ip), _). ip) (run_ips d (run_ID r))))),
       rw_running_count = int (length (filter (\<lambda>c. c_status c = StatusRunning) cs)),
       rw_finished_count = int (length (filter (\<lambda>c. c_status c = StatusFinished) cs))\<rparr>)"

definition qRunByID :: "fault_plan \<Rightarrow> db \<Rightarrow> uuid \<Rightarrow> run_row option result" where
  [simp]: "qRunByID f d rid = (case f 0 of Some e \<Rightarrow> Inl e | None \<Rightarrow> Inr (map_option (run_row_of d) (find_run d rid)))"

definition qRunIPObservations :: "fault_plan \<Rightarrow> db \<Rightarrow> uuid \<Rightarrow> int \<Rightarrow> (((uuid \<times> addr) \<times> ip_cols) \<times> reputation option) list result" where
  [simp]: "qRunIPObservations f d rid limit =
     (case f 0 of Some e \<Rightarrow> Inl e
      | None \<Rightarrow> Inr (map (\<lambda>x. (x, reputation_for d (snd (fst x))))
          (take (nat limit) (sort_key (\<lambda>(_, c). - i_last_seen c) (run_ips d rid)))))"

definition qRunSessionVariantParams :: "(string \<Rightarrow> string) \<Rightarrow> fault_plan \<Rightarrow> db \<Rightarrow> uuid \<Rightarrow> (uuid \<times> string) list result" where
  [simp]: "qRunSessionVariantParams jsonb f d rid =
     (case f 0 of Some e \<Rightarrow> Inl e
      | None \<Rightarrow> Inr (map (\<lambda>r. (c_id r, coalesce_params jsonb r)) (ordered_children d rid)))"

definition qRunSessions :: "(string \<Rightarrow> string) \<Rightarrow> fault_plan \<Rightarrow> db \<Rightarrow> uuid \<Rightarrow> (session_row \<times> string \<times> string) list result" where
  [simp]: "qRunSessions jsonb f d rid =
     (case f 0 of Some e \<Rightarrow> Inl e
      | None \<Rightarrow> Inr (map (\<lambda>r. (r, coalesce_params jsonb r, stringValue (c_cell_key r))) (ordered_children d rid)))"

definition qRuns :: "fault_plan \<Rightarrow> db \<Rightarrow> run_row list result" where
  [simp]: "qRuns f d =
     (case f 0 of Some e \<Rightarrow> Inl e
      | None \<Rightarrow> Inr (map (run_row_of d) (sort_key (\<lambda>r. - run_CreatedAt r) (t_runs d))))"

definition qSessionsByRun :: "fault_plan \<Rightarrow> db \<Rightarrow> uuid \<Rightarrow> uuid list result" where
  [simp]: "qSessionsByRun f d rid = (case f 0 of Some e \<Rightarrow> Inl e | None \<Rightarrow> Inr (map c_id (ordered_children d rid)))"

end
