(* ===== verification/PgStore.thy ===== *)
theory PgStore
  imports PoolReport Contracts Queries
begin

text \<open>
  \<open>internal/db/store.go\<close> and \<open>runs.go\<close>: the durable state, on the statements of theory Queries. A fault
  plan \<open>f\<close> gives, for each statement a method issues in turn, the error the connection reports for it; a
  transaction that is not committed is rolled back. \<open>unmarshal\<close> stands for \<open>encoding/json\<close>.
\<close>

text \<open>\<open>insertSessionParams\<close>, as the row the \<open>InsertSession\<close> statement builds from it.\<close>

definition insertSessionParams :: "session \<Rightarrow> session_row" where
  "insertSessionParams value =
     \<lparr>c_id = s_ID value, c_name = s_Name value, c_proxy_ciphertext = ProxyCiphertext value,
      c_proxy_nonce = ProxyNonce value, c_proxy_display = ProxyDisplay value, c_mode = s_Mode value,
      c_cadence_seconds = durationSeconds (Cadence value), c_probes_per_sample = wrap32 (ProbesPerSample value),
      c_probe_target = ProbeTarget value, c_dial_timeout_ms = durationMillis32 (DialTimeout value),
      c_max_samples = map_option wrap32 (MaxSamples value),
      c_max_duration_seconds = map_option durationSeconds (MaxDuration value),
      c_status = s_Status value, c_samples_taken = wrap32 (SamplesTaken (s_Snapshot value)),
      c_probes_ok = sn_ProbesOK (s_Snapshot value), c_probes_total = ProbesTotal (s_Snapshot value),
      c_distinct_ips = wrap32 (sn_DistinctIPs (s_Snapshot value)),
      c_last_sample_at = map_option timestamp (LastSampleAt (s_Snapshot value)),
      c_last_primary_ip = LastPrimaryIP (s_Snapshot value),
      c_last_rtt_ms = map_option durationMillis32 (LastRTT (s_Snapshot value)),
      c_last_error = nullif_empty (LastError (s_Snapshot value)),
      c_created_at = timestamp (s_CreatedAt value), c_started_at = map_option timestamp (StartedAt value),
      c_stopped_at = map_option timestamp (StoppedAt value),
      c_sequence_offset = wrap32 (SequenceOffset value), c_target_country = s_TargetCountry value,
      c_run_id = None, c_variant_params = None, c_cell_key = None, c_name_customized = True\<rparr>"

lemma standalone_insertSessionParams [simp]: "standalone_row (insertSessionParams s) = insertSessionParams s"
  by (simp add: standalone_row_def insertSessionParams_def)

text \<open>\<open>mapSession\<close> on a joined row.\<close>

definition mapSession :: "session_row \<Rightarrow> string \<Rightarrow> session" where
  "mapSession row lastCategory =
     \<lparr>s_ID = c_id row, s_Name = c_name row, ProxyCiphertext = c_proxy_ciphertext row,
      ProxyNonce = c_proxy_nonce row, ProxyDisplay = c_proxy_display row, s_Mode = c_mode row,
      Cadence = c_cadence_seconds row * second, ProbesPerSample = c_probes_per_sample row,
      ProbeTarget = c_probe_target row, DialTimeout = c_dial_timeout_ms row * millisecond,
      MaxSamples = c_max_samples row, MaxDuration = map_option (\<lambda>s. s * second) (c_max_duration_seconds row),
      s_Status = c_status row, s_TargetCountry = c_target_country row,
      SequenceOffset = c_sequence_offset row,
      s_Snapshot = \<lparr>SamplesTaken = c_samples_taken row, sn_ProbesOK = c_probes_ok row,
        ProbesTotal = c_probes_total row, sn_DistinctIPs = c_distinct_ips row,
        LastSampleAt = c_last_sample_at row, LastPrimaryIP = c_last_primary_ip row,
        LastCategory = lastCategory, LastRTT = map_option (\<lambda>m. m * millisecond) (c_last_rtt_ms row),
        LastError = stringValue (c_last_error row)\<rparr>,
      s_CreatedAt = c_created_at row, StartedAt = c_started_at row, StoppedAt = c_stopped_at row\<rparr>"

subsection \<open>Session methods\<close>

definition SessionByID :: "fault_plan \<Rightarrow> db \<Rightarrow> uuid \<Rightarrow> session result" where
  "SessionByID f d sid =
     (case qSessionByID f d sid of
        Inl e \<Rightarrow> Inl (Wrapped ''session by id'' e)
      | Inr None \<Rightarrow> Inl ErrNotFound
      | Inr (Some (r, category)) \<Rightarrow> Inr (mapSession r category))"


definition Create :: "fault_plan \<Rightarrow> db \<Rightarrow> session \<Rightarrow> db \<times> session result" where
  "Create f d value =
     (case qInsertSession f (insertSessionParams value) d of
        Inl e \<Rightarrow> (d, Inl (Wrapped ''insert session'' e))
      | Inr d' \<Rightarrow> (d', SessionByID (\<lambda>k. f (Suc k)) d' (s_ID value)))"


definition Sessions :: "fault_plan \<Rightarrow> db \<Rightarrow> session list result" where
  "Sessions f d =
     (case qSessions f d of
        Inl e \<Rightarrow> Inl (Wrapped ''list sessions'' e)
      | Inr rows \<Rightarrow> Inr (map (\<lambda>(r, category). mapSession r category) rows))"


definition RunningSessions :: "fault_plan \<Rightarrow> db \<Rightarrow> session list result" where
  "RunningSessions f d =
     (case qRunningSessions f d of
        Inl e \<Rightarrow> Inl (Wrapped ''list running sessions'' e)
      | Inr rows \<Rightarrow> Inr (map (\<lambda>(r, category). mapSession r category) rows))"


definition Stop :: "fault_plan \<Rightarrow> db \<Rightarrow> uuid \<Rightarrow> time \<Rightarrow> db \<times> go_error option" where
  "Stop f d sid now =
     (case qStopSession f (timestamp now) sid d of
        Inl e \<Rightarrow> (d, Some (Wrapped ''stop session'' e))
      | Inr (d', rows) \<Rightarrow> if rows = 0 then (d', Some ErrNotRunning) else (d', None))"


definition Finish :: "fault_plan \<Rightarrow> db \<Rightarrow> uuid \<Rightarrow> time \<Rightarrow> db \<times> go_error option" where
  "Finish f d sid now =
     (case qFinishSession f (timestamp now) sid d of
        Inl e \<Rightarrow> (d, Some (Wrapped ''finish session'' e))
      | Inr (d', rows) \<Rightarrow> if rows = 0 then (d', Some ErrNotRunning) else (d', None))"


definition Reenable :: "fault_plan \<Rightarrow> db \<Rightarrow> uuid \<Rightarrow> time \<Rightarrow> db \<times> go_error option" where
  "Reenable f d sid now =
     (case qReenableSession f (timestamp now) sid d of
        Inl e \<Rightarrow> (d, Some (Wrapped ''reenable session'' e))
      | Inr (d', rows) \<Rightarrow>
          if rows = 0
          then (d', case SessionByID (\<lambda>k. f (Suc k)) d' sid of Inl e \<Rightarrow> Some e | Inr _ \<Rightarrow> Some ErrAlreadyRunning)
          else (d', None))"


definition Rename :: "fault_plan \<Rightarrow> db \<Rightarrow> uuid \<Rightarrow> string \<Rightarrow> db \<times> go_error option" where
  "Rename f d sid name =
     (case qRenameSession f name sid d of
        Inl e \<Rightarrow> (d, Some (Wrapped ''rename session'' e))
      | Inr (d', rows) \<Rightarrow> if rows = 0 then (d', Some ErrNotFound) else (d', None))"


definition Delete :: "fault_plan \<Rightarrow> db \<Rightarrow> uuid \<Rightarrow> db \<times> go_error option" where
  "Delete f d sid =
     (case qDeleteSession f sid d of
        Inl e \<Rightarrow> (d, Some (Wrapped ''delete session'' e))
      | Inr d' \<Rightarrow> (d', None))"



subsection \<open>SaveTick\<close>

definition snapshotParams :: "snapshot \<Rightarrow> snapshot_params" where
  "snapshotParams snap =
     \<lparr>sp_samples_taken = wrap32 (SamplesTaken snap), sp_probes_ok = sn_ProbesOK snap,
      sp_probes_total = ProbesTotal snap, sp_distinct_ips = wrap32 (sn_DistinctIPs snap),
      sp_last_sample_at = map_option timestamp (LastSampleAt snap),
      sp_last_primary_ip = LastPrimaryIP snap,
      sp_last_rtt_ms = map_option durationMillis32 (LastRTT snap), sp_last_error = LastError snap\<rparr>"

text \<open>What saving a snapshot makes of a row.\<close>

definition snapshot_row :: "snapshot \<Rightarrow> session_row \<Rightarrow> session_row" where
  "snapshot_row snap r =
     r\<lparr>c_samples_taken := wrap32 (SamplesTaken snap), c_probes_ok := sn_ProbesOK snap,
       c_probes_total := ProbesTotal snap, c_distinct_ips := wrap32 (sn_DistinctIPs snap),
       c_last_sample_at := map_option timestamp (LastSampleAt snap),
       c_last_primary_ip := LastPrimaryIP snap,
       c_last_rtt_ms := map_option durationMillis32 (LastRTT snap),
       c_last_error := nullif_empty (LastError snap)\<rparr>"

lemma set_snapshotParams [simp]: "set_snapshot (snapshotParams snap) = snapshot_row snap"
  by (rule ext) (simp add: set_snapshot_def snapshotParams_def snapshot_row_def)

fun save_hits :: "fault_plan \<Rightarrow> uuid \<Rightarrow> ip_hit list \<Rightarrow> db \<Rightarrow> db result" where
  "save_hits f sid [] d = (case f 0 of Some e \<Rightarrow> Inl (Wrapped ''commit tick'' e) | None \<Rightarrow> Inr d)"
| "save_hits f sid (hit # hits) d =
     (case qUpsertSessionIP f sid hit d of
        Inl e \<Rightarrow> Inl (Wrapped (''save session ip '' @ addr_str (h_IP hit)) e)
      | Inr d' \<Rightarrow> save_hits (\<lambda>k. f (Suc k)) sid hits d')"

definition SaveTick :: "fault_plan \<Rightarrow> db \<Rightarrow> uuid \<Rightarrow> snapshot \<Rightarrow> ip_hit list \<Rightarrow> db \<times> go_error option" where
  "SaveTick f d sid snap hits =
     (case f 0 of
        Some e \<Rightarrow> (d, Some (Wrapped ''begin tick'' e))
      | None \<Rightarrow>
          (case qUpdateSessionSnapshot (\<lambda>k. f (Suc k)) (snapshotParams snap) sid d of
             Inl e \<Rightarrow> (d, Some (Wrapped ''save snapshot'' e))
           | Inr (tx, _) \<Rightarrow>
               (case save_hits (\<lambda>k. f (Suc (Suc k))) sid hits tx of
                  Inl e \<Rightarrow> (d, Some e)
                | Inr tx' \<Rightarrow> (tx', None))))"


subsection \<open>Addresses and reputations\<close>

definition SessionIPs :: "fault_plan \<Rightarrow> db \<Rightarrow> uuid \<Rightarrow> ip_record list result" where
  "SessionIPs f d sid =
     (case qSessionIPs f d sid of
        Inl e \<Rightarrow> Inl (Wrapped ''list session ips'' e)
      | Inr rows \<Rightarrow> Inr (map (\<lambda>(((_, ip), c), rep). \<lparr>ir_IP = ip, ir_FirstSeen = i_first_seen c,
          ir_LastSeen = i_last_seen c, ir_HitCount = i_hit_count c, ir_Reputation = rep\<rparr>) rows))"


definition ReputationByIP :: "fault_plan \<Rightarrow> db \<Rightarrow> addr \<Rightarrow> (reputation \<times> bool) result" where
  "ReputationByIP f d ip =
     (case qReputationByIP f d ip of
        Inl e \<Rightarrow> Inl (Wrapped ''reputation by ip'' e)
      | Inr None \<Rightarrow> Inr (zero_reputation, False)
      | Inr (Some r) \<Rightarrow> Inr (r, True))"


definition SaveReputation :: "fault_plan \<Rightarrow> db \<Rightarrow> reputation \<Rightarrow> db \<times> go_error option" where
  "SaveReputation f d r =
     (let raw = (if Raw r = [] then ''{}'' else Raw r);
          stored = r\<lparr>Raw := raw, RiskScore := map_option wrap32 (RiskScore r),
                     SFSFrequency := map_option wrap32 (SFSFrequency r),
                     r_FirstSeen := timestamp (r_FirstSeen r), RefreshedAt := timestamp (RefreshedAt r)\<rparr>
      in case qUpsertReputation f stored d of
           Inl e \<Rightarrow> (d, Some (Wrapped ''upsert reputation'' e))
         | Inr d' \<Rightarrow> (d', None))"



subsection \<open>Runs\<close>

definition deriveRunStatus :: "int \<Rightarrow> int \<Rightarrow> int \<Rightarrow> run_status" where
  "deriveRunStatus variantCount runningCount finishedCount =
     (if runningCount > 0 then RunRunning
      else if variantCount > 0 \<and> finishedCount = variantCount then RunFinished
      else RunStopped)"

definition run_summary_row :: "run_row \<Rightarrow> run_summary" where
  "run_summary_row row =
     \<lparr>rs_Run = rw_run row, rs_VariantCount = rw_variant_count row, rs_DistinctIPs = rw_distinct_ips row,
      rs_Status = deriveRunStatus (rw_variant_count row) (rw_running_count row) (rw_finished_count row)\<rparr>"

definition child_row :: "uuid \<Rightarrow> child_session \<Rightarrow> session_row" where
  "child_row rid child =
     (insertSessionParams (cs_Session child))
       \<lparr>c_run_id := Some rid, c_variant_params := Some (cs_Params child),
        c_cell_key := Some (cs_CellKey child), c_name_customized := False\<rparr>"

fun insert_children :: "fault_plan \<Rightarrow> uuid \<Rightarrow> child_session list \<Rightarrow> db \<Rightarrow> db result" where
  "insert_children f rid [] d = (case f 0 of Some e \<Rightarrow> Inl (Wrapped ''commit create run'' e) | None \<Rightarrow> Inr d)"
| "insert_children f rid (child # children) d =
     (case qInsertRunSession f (child_row rid child) d of
        Inl e \<Rightarrow> Inl (Wrapped ''insert run session'' e)
      | Inr d' \<Rightarrow> insert_children (\<lambda>k. f (Suc k)) rid children d')"

definition CreateRun :: "fault_plan \<Rightarrow> db \<Rightarrow> run \<Rightarrow> child_session list \<Rightarrow> db \<times> go_error option" where
  "CreateRun f d r children =
     (case f 0 of
        Some e \<Rightarrow> (d, Some (Wrapped ''begin create run'' e))
      | None \<Rightarrow>
          (case qInsertRun (\<lambda>k. f (Suc k)) r d of
             Inl e \<Rightarrow> (d, Some (Wrapped ''insert run'' e))
           | Inr tx \<Rightarrow>
               (case insert_children (\<lambda>k. f (k + 2)) (run_ID r) children tx of
                  Inl e \<Rightarrow> (d, Some e)
                | Inr tx' \<Rightarrow> (tx', None))))"

definition Runs :: "fault_plan \<Rightarrow> db \<Rightarrow> run_summary list result" where
  "Runs f d =
     (case qRuns f d of
        Inl e \<Rightarrow> Inl (Wrapped ''list runs'' e)
      | Inr rows \<Rightarrow> Inr (map run_summary_row rows))"


definition RunByID :: "fault_plan \<Rightarrow> db \<Rightarrow> uuid \<Rightarrow> run_summary result" where
  "RunByID f d rid =
     (case qRunByID f d rid of
        Inl e \<Rightarrow> Inl (Wrapped ''run by id'' e)
      | Inr None \<Rightarrow> Inl ErrRunNotFound
      | Inr (Some row) \<Rightarrow> Inr (run_summary_row row))"


definition RunSessions :: "(string \<Rightarrow> string) \<Rightarrow> fault_plan \<Rightarrow> db \<Rightarrow> uuid \<Rightarrow> variant_session list result" where
  "RunSessions jsonb f d rid =
     (case qRunSessions jsonb f d rid of
        Inl e \<Rightarrow> Inl (Wrapped ''run sessions'' e)
      | Inr rows \<Rightarrow> Inr (map (\<lambda>(r, params, cell_key).
          \<lparr>vs_SessionID = c_id r, vs_Name = c_name r, vs_Params = params,
           vs_CellKey = cell_key, vs_TargetCountry = c_target_country r, vs_Status = c_status r,
           vs_Snapshot = zero_snapshot\<lparr>SamplesTaken := c_samples_taken r, sn_ProbesOK := c_probes_ok r,
              ProbesTotal := c_probes_total r, sn_DistinctIPs := c_distinct_ips r\<rparr>\<rparr>) rows))"


definition observation_row :: "((uuid \<times> addr) \<times> ip_cols) \<times> reputation option \<Rightarrow> ip_observation" where
  "observation_row row = (case row of (((sid, ip), c), rep) \<Rightarrow>
     \<lparr>o_SessionID = sid, o_IP = ip, o_HitCount = i_hit_count c, o_FirstSeen = i_first_seen c,
      o_LastSeen = i_last_seen c, o_Reputation = rep\<rparr>)"

definition observation_of :: "db \<Rightarrow> (uuid \<times> addr) \<times> ip_cols \<Rightarrow> ip_observation" where
  "observation_of d x = observation_row (x, reputation_for d (snd (fst x)))"

definition RunIPObservations :: "fault_plan \<Rightarrow> db \<Rightarrow> uuid \<Rightarrow> int \<Rightarrow> ip_observation list result" where
  "RunIPObservations f d rid limit =
     (if limit \<le> 0 then Inr []
      else (case qRunIPObservations f d rid (wrap32 limit) of
        Inl e \<Rightarrow> Inl (Wrapped ''run ip observations'' e)
      | Inr rows \<Rightarrow> Inr (map observation_row rows)))"

text \<open>
  \<open>streamPoolIPsSQL\<close>: the rows the query produces, one per address in \<open>inet\<close> order (IPv4 before IPv6,
  then numerically), and the \<open>IPRow\<close> built for each.
\<close>

definition pool_row :: "db \<Rightarrow> addr \<Rightarrow> ip_cols list \<Rightarrow> ip_row" where
  "pool_row d ip cs =
     (let row = \<lparr>row_IP = addr_str ip, row_Category = ''unknown'', row_Country = [], row_ISP = [], row_ASN = [],
                 row_RiskScore = None, row_GreyNoiseClass = [], row_DNSBLListed = False, row_DNSBLHits = [],
                 row_HitCount = sum_list (map i_hit_count cs),
                 row_FirstSeen = Min (set (map i_first_seen cs)),
                 row_LastSeen = Max (set (map i_last_seen cs))\<rparr>
      in case reputation_for d ip of
           None \<Rightarrow> row
         | Some r \<Rightarrow> row\<lparr>row_Category := NormalizeCategory (Category r), row_Country := Country r,
                        row_ISP := ISP r, row_ASN := ASN r, row_GreyNoiseClass := GreyNoiseClass r,
                        row_RiskScore := RiskScore r,
                        row_DNSBLListed := (case DNSBLListed r of None \<Rightarrow> False | Some b \<Rightarrow> b),
                        row_DNSBLHits := DNSBLHits r\<rparr>)"

definition pool_rows :: "db \<Rightarrow> uuid \<Rightarrow> ip_row list" where
  "pool_rows d rid =
     map (\<lambda>ip. pool_row d ip (map snd (filter (\<lambda>((_, a), _). a = ip) (run_ips d rid))))
       (sort (dedup_from [] (map (\<lambda>((_, ip), _). ip) (run_ips d rid))))"

text \<open>The loop calling \<open>visit\<close>, which changes a state and may fail; \<open>rows.Err\<close> is the last fault.\<close>

fun stream_loop :: "('r \<Rightarrow> 's \<Rightarrow> 's \<times> go_error option) \<Rightarrow> 'r list \<Rightarrow> 's \<Rightarrow> 's \<times> go_error option" where
  "stream_loop visit [] s = (s, None)"
| "stream_loop visit (row # rows) s =
     (case visit row s of (s', Some e) \<Rightarrow> (s', Some e) | (s', None) \<Rightarrow> stream_loop visit rows s')"

definition StreamPoolIPs ::
  "fault_plan \<Rightarrow> db \<Rightarrow> uuid \<Rightarrow> (ip_row \<Rightarrow> 's \<Rightarrow> 's \<times> go_error option) \<Rightarrow> 's \<Rightarrow> 's \<times> go_error option" where
  "StreamPoolIPs f d rid visit s =
     (case f 0 of
        Some e \<Rightarrow> (s, Some (Wrapped ''stream pool ips'' e))
      | None \<Rightarrow>
          (case stream_loop visit (pool_rows d rid) s of
             (s', Some e) \<Rightarrow> (s', Some e)
           | (s', None) \<Rightarrow> (s', f 1)))"

text \<open>The rename cascade: unreadable params skip the child, customized names are kept.\<close>

fun rename_rows ::
  "(string \<Rightarrow> (string, string) gomap option) \<Rightarrow> fault_plan \<Rightarrow> string \<Rightarrow> (uuid \<times> string) list \<Rightarrow> db \<Rightarrow> db result" where
  "rename_rows decode f name [] d =
     (case f 0 of Some e \<Rightarrow> Inl (Wrapped ''commit rename run'' e) | None \<Rightarrow> Inr d)"
| "rename_rows decode f name ((sid, text) # children) d =
     (case (if text = [] then Some [] else decode text) of
        None \<Rightarrow> rename_rows decode f name children d
      | Some params \<Rightarrow>
          (case qRenameGeneratedRunSession f (VariantName name params) sid d of
             Inl e \<Rightarrow> Inl (Wrapped ''rename run session'' e)
           | Inr (d', _) \<Rightarrow> rename_rows decode (\<lambda>k. f (Suc k)) name children d'))"

definition RenameRun ::
  "(string \<Rightarrow> (string, string) gomap option) \<Rightarrow> (string \<Rightarrow> string) \<Rightarrow> fault_plan \<Rightarrow> db \<Rightarrow> uuid \<Rightarrow> string \<Rightarrow> db \<times> go_error option" where
  "RenameRun decode jsonb f d rid name =
     (case f 0 of
        Some e \<Rightarrow> (d, Some (Wrapped ''begin rename run'' e))
      | None \<Rightarrow>
     (case qRenameRun (\<lambda>k. f (k + 1)) name rid d of
        Inl e \<Rightarrow> (d, Some (Wrapped ''rename run'' e))
      | Inr (tx, rows) \<Rightarrow>
          if rows = 0 then (d, Some ErrRunNotFound)
          else (case qRunSessionVariantParams jsonb (\<lambda>k. f (k + 2)) tx rid of
              Inl e \<Rightarrow> (d, Some (Wrapped ''run session variant params'' e))
            | Inr children \<Rightarrow>
                (case rename_rows decode (\<lambda>k. f (k + 3)) name children tx of
                   Inl e \<Rightarrow> (d, Some e)
                 | Inr tx' \<Rightarrow> (tx', None)))))"

text \<open>The same cascade over whole rows, for the proofs.\<close>

fun rename_children ::
  "(string \<Rightarrow> (string, string) gomap option) \<Rightarrow> (string \<Rightarrow> string) \<Rightarrow> fault_plan \<Rightarrow> string \<Rightarrow> session_row list \<Rightarrow> db \<Rightarrow> db result" where
  "rename_children decode jsonb f name [] d =
     (case f 0 of Some e \<Rightarrow> Inl (Wrapped ''commit rename run'' e) | None \<Rightarrow> Inr d)"
| "rename_children decode jsonb f name (child # children) d =
     (let text = coalesce_params jsonb child in
      case (if text = [] then Some [] else decode text) of
        None \<Rightarrow> rename_children decode jsonb f name children d
      | Some params \<Rightarrow>
          (case update_session f (\<lambda>r. c_id r = c_id child \<and> \<not> c_name_customized r)
                  (\<lambda>r. r\<lparr>c_name := VariantName name params\<rparr>) d of
             Inl e \<Rightarrow> Inl (Wrapped ''rename run session'' e)
           | Inr (d', _) \<Rightarrow> rename_children decode jsonb (\<lambda>k. f (Suc k)) name children d'))"

lemma rename_rows_children [simp]:
  "rename_rows decode f name (map (\<lambda>r. (c_id r, coalesce_params jsonb r)) rows) d = rename_children decode jsonb f name rows d"
  by (induction rows arbitrary: f d) (auto simp: Let_def split: option.splits sum.splits)

definition DeleteRun :: "fault_plan \<Rightarrow> db \<Rightarrow> uuid \<Rightarrow> db \<times> go_error option" where
  "DeleteRun f d rid =
     (case qDeleteRun f rid d of
        Inl e \<Rightarrow> (d, Some (Wrapped ''delete run'' e))
      | Inr d' \<Rightarrow> (d', None))"



subsection \<open>The invariant of the tables\<close>

definition db_ok :: "db \<Rightarrow> bool" where
  "db_ok d \<longleftrightarrow> distinct (map c_id (t_sessions d)) \<and> (\<forall>r \<in> set (t_sessions d). row_ok r)
     \<and> distinct (map run_ID (t_runs d))
     \<and> (\<forall>r \<in> set (t_sessions d). \<forall>rid \<in> set_option (c_run_id r). rid \<in> run_ID ` set (t_runs d))
     \<and> gomap (t_session_ips d) \<and> gomap (t_reputation d)
     \<and> (\<forall>((sid, ip), c) \<in> set (t_session_ips d). sid \<in> c_id ` set (t_sessions d) \<and> inet_ok ip \<and> ip \<noteq> NoAddr)"

definition empty_db :: db where
  "empty_db = \<lparr>t_sessions = [], t_session_ips = [], t_reputation = [], t_runs = []\<rparr>"

lemma db_ok_empty: "db_ok empty_db"
  by (simp add: db_ok_def empty_db_def)

text \<open>An update keeps the identifiers and foreign keys.\<close>

definition same_keys :: "(session_row \<Rightarrow> session_row) \<Rightarrow> bool" where
  "same_keys g \<longleftrightarrow> (\<forall>r. c_id (g r) = c_id r \<and> c_run_id (g r) = c_run_id r)"

lemma update_rows_ok:
  assumes "update_rows P g d = Inr (d', n)" and "db_ok d" and "same_keys g"
  shows "db_ok d'"
proof -
  have d': "d' = d\<lparr>t_sessions := map (\<lambda>r. if P r then g r else r) (t_sessions d)\<rparr>"
    and ok: "list_all (\<lambda>r. row_ok (g r)) (filter P (t_sessions d))"
    using assms(1) by (auto simp: update_rows_def split: if_splits)
  define rs where "rs = map (\<lambda>r. if P r then g r else r) (t_sessions d)"
  have ids: "map c_id rs = map c_id (t_sessions d)"
    using assms(3) by (simp add: rs_def same_keys_def)
  then have "c_id ` set rs = c_id ` set (t_sessions d)" by (metis list.set_map)
  moreover have "\<forall>r \<in> set rs. row_ok r"
    using ok assms(2) by (auto simp: list_all_iff db_ok_def rs_def)
  moreover have "\<forall>r \<in> set rs. \<forall>rid \<in> set_option (c_run_id r). rid \<in> run_ID ` set (t_runs d)"
    using assms(2,3) by (auto simp: db_ok_def same_keys_def rs_def)
  ultimately show ?thesis using assms(2) ids unfolding db_ok_def d' rs_def [symmetric] by simp
qed

lemma update_session_ok:
  "update_session f P g d = Inr (d', n) \<Longrightarrow> db_ok d \<Longrightarrow> same_keys g \<Longrightarrow> db_ok d'"
  by (auto simp: update_session_def update_rows_ok split: option.splits)

lemma find_session_Some: "find_session d sid = Some r \<Longrightarrow> r \<in> set (t_sessions d) \<and> c_id r = sid"
  by (auto simp: find_session_def find_Some_iff)

lemma find_session_None: "find_session d sid = None \<longleftrightarrow> sid \<notin> c_id ` set (t_sessions d)"
  by (auto simp: find_session_def find_None_iff)

lemma find_run_None: "find_run d rid = None \<longleftrightarrow> rid \<notin> run_ID ` set (t_runs d)"
  by (auto simp: find_run_def find_None_iff)

lemma insert_row_ok: "insert_row r d = Inr d' \<Longrightarrow> db_ok d \<Longrightarrow> db_ok d'"
  by (auto simp: insert_row_def find_session_None db_ok_def split: if_splits)

lemma insert_run_ok: "insert_run r d = Inr d' \<Longrightarrow> db_ok d \<Longrightarrow> db_ok d'"
  by (auto simp: insert_run_def find_run_None db_ok_def split: if_splits)

lemma insert_children_ok: "insert_children f rid cs d = Inr d' \<Longrightarrow> db_ok d \<Longrightarrow> db_ok d'"
  by (induction f rid cs d rule: insert_children.induct)
     (auto split: option.splits sum.splits dest: insert_row_ok)

lemma upsert_ip_ok:
  assumes "upsert_ip sid hit d = Inr d'" and "db_ok d"
  shows "db_ok d'"
proof -
  obtain cols where d': "d' = d\<lparr>t_session_ips := AList.update (sid, h_IP hit) cols (t_session_ips d)\<rparr>"
    and ok: "inet_ok (h_IP hit)" "h_IP hit \<noteq> NoAddr" "sid \<in> c_id ` set (t_sessions d)"
    using assms(1) by (auto simp: upsert_ip_def Let_def find_session_None split: if_splits)
  have "\<forall>x \<in> set (AList.update (sid, h_IP hit) cols (t_session_ips d)).
      fst (fst x) \<in> c_id ` set (t_sessions d) \<and> inet_ok (snd (fst x)) \<and> snd (fst x) \<noteq> NoAddr"
  proof
    fix x assume "x \<in> set (AList.update (sid, h_IP hit) cols (t_session_ips d))"
    then have "fst x \<in> insert (sid, h_IP hit) (fst ` set (t_session_ips d))"
      using keys_update [of "(sid, h_IP hit)" cols "t_session_ips d"] by blast
    then show "fst (fst x) \<in> c_id ` set (t_sessions d) \<and> inet_ok (snd (fst x)) \<and> snd (fst x) \<noteq> NoAddr"
      using ok assms(2) by (auto simp: db_ok_def)
  qed
  then show ?thesis using assms(2) unfolding db_ok_def d' by (simp add: case_prod_unfold)
qed

lemma save_hits_ok: "save_hits f sid hits d = Inr d' \<Longrightarrow> db_ok d \<Longrightarrow> db_ok d'"
  by (induction f sid hits d rule: save_hits.induct)
     (auto split: option.splits sum.splits dest: upsert_ip_ok)

lemma delete_sessions_ok:
  assumes "db_ok d" shows "db_ok (delete_sessions P d)"
proof -
  have "gomap (filter Q m)" if "gomap m" for Q and m :: "(uuid \<times> addr, ip_cols) gomap"
    using that by (simp add: gomap_def distinct_map_filter)
  then show ?thesis
    using assms by (auto simp: db_ok_def delete_sessions_def distinct_map_filter)
qed

lemma rename_children_ok:
  "rename_children decode jsonb f name cs d = Inr d' \<Longrightarrow> db_ok d \<Longrightarrow> db_ok d'"
proof (induction cs arbitrary: f d)
  case (Cons child children)
  have keys: "same_keys (\<lambda>r. r\<lparr>c_name := n\<rparr>)" for n by (simp add: same_keys_def)
  from Cons show ?case
    by (auto simp: Let_def split: option.splits sum.splits if_splits dest: update_session_ok [OF _ _ keys])
qed (auto split: option.splits)


subsection \<open>Every operation, with every failure\<close>

datatype store_op =
    DoCreate session
  | DoStop uuid time | DoFinish uuid time | DoReenable uuid time
  | DoRename uuid string | DoDelete uuid
  | DoSaveTick uuid snapshot "ip_hit list"
  | DoSaveReputation reputation
  | DoCreateRun run "child_session list" | DoRenameRun uuid string | DoDeleteRun uuid

fun apply_op ::
  "(string \<Rightarrow> (string, string) gomap option) \<Rightarrow> (string \<Rightarrow> string) \<Rightarrow> fault_plan \<Rightarrow> store_op \<Rightarrow> db \<Rightarrow> db" where
  "apply_op decode jsonb f (DoCreate value) d = fst (Create f d value)"
| "apply_op decode jsonb f (DoStop sid now) d = fst (Stop f d sid now)"
| "apply_op decode jsonb f (DoFinish sid now) d = fst (Finish f d sid now)"
| "apply_op decode jsonb f (DoReenable sid now) d = fst (Reenable f d sid now)"
| "apply_op decode jsonb f (DoRename sid name) d = fst (Rename f d sid name)"
| "apply_op decode jsonb f (DoDelete sid) d = fst (Delete f d sid)"
| "apply_op decode jsonb f (DoSaveTick sid snap hits) d = fst (SaveTick f d sid snap hits)"
| "apply_op decode jsonb f (DoSaveReputation r) d = fst (SaveReputation f d r)"
| "apply_op decode jsonb f (DoCreateRun r children) d = fst (CreateRun f d r children)"
| "apply_op decode jsonb f (DoRenameRun rid name) d = fst (RenameRun decode jsonb f d rid name)"
| "apply_op decode jsonb f (DoDeleteRun rid) d = fst (DeleteRun f d rid)"

text \<open>The shapes of the results, used by every proof below.\<close>

lemma Create_cases:
  "fst (Create f d value) = d \<or> (\<exists>d'. insert_row (insertSessionParams value) d = Inr d' \<and> fst (Create f d value) = d')"
  by (auto simp: Create_def split: option.splits sum.splits)

lemma update_cases:
  assumes "(d', e) = (case update_session f P g d of Inl e \<Rightarrow> (d, Some (Wrapped m e))
             | Inr (d', rows) \<Rightarrow> if rows = 0 then (d', Some x) else (d', None))"
  shows "(e \<noteq> None \<and> d' = d) \<or> (e = None \<and> (\<exists>n. update_session f P g d = Inr (d', n) \<and> 0 < n))"
proof (cases "update_session f P g d")
  case (Inr dn)
  obtain d1 n where dn: "dn = (d1, n)" by (cases dn)
  have "d1 = d" if "n = 0"
  proof -
    from Inr dn that have "d1 = d\<lparr>t_sessions := map (\<lambda>r. if P r then g r else r) (t_sessions d)\<rparr>"
      and "filter P (t_sessions d) = []"
      by (auto simp: update_session_def update_rows_def split: option.splits if_splits)
    then have "map (\<lambda>r. if P r then g r else r) (t_sessions d) = t_sessions d"
      by (intro map_idI) (auto simp: filter_empty_conv)
    with \<open>d1 = _\<close> show "d1 = d" by simp
  qed
  with Inr dn assms show ?thesis by (auto split: if_splits)
qed (use assms in auto)

lemma Stop_cases:
  "Stop f d sid now = (d', e) \<Longrightarrow> (e \<noteq> None \<and> d' = d) \<or> (e = None \<and> (\<exists>n. update_session f
      (\<lambda>r. c_id r = sid \<and> c_status r = StatusRunning)
      (\<lambda>r. r\<lparr>c_status := StatusStopped, c_stopped_at := Some (timestamp now)\<rparr>) d = Inr (d', n) \<and> 0 < n))"
  unfolding Stop_def qStopSession_def by (rule update_cases [OF sym])

lemma Finish_cases:
  "Finish f d sid now = (d', e) \<Longrightarrow> (e \<noteq> None \<and> d' = d) \<or> (e = None \<and> (\<exists>n. update_session f
      (\<lambda>r. c_id r = sid \<and> c_status r = StatusRunning)
      (\<lambda>r. r\<lparr>c_status := StatusFinished, c_stopped_at := Some (timestamp now)\<rparr>) d = Inr (d', n) \<and> 0 < n))"
  unfolding Finish_def qFinishSession_def by (rule update_cases [OF sym])

lemma Rename_cases:
  "Rename f d sid name = (d', e) \<Longrightarrow> (e \<noteq> None \<and> d' = d) \<or> (e = None \<and> (\<exists>n. update_session f
      (\<lambda>r. c_id r = sid) (\<lambda>r. r\<lparr>c_name := name, c_name_customized := True\<rparr>) d = Inr (d', n) \<and> 0 < n))"
  unfolding Rename_def qRenameSession_def by (rule update_cases [OF sym])

lemma Reenable_cases:
  assumes "Reenable f d sid now = (d', e)"
  shows "(e \<noteq> None \<and> d' = d) \<or> (e = None \<and> (\<exists>n. update_session f
      (\<lambda>r. c_id r = sid \<and> c_status r \<in> {StatusStopped, StatusFinished}) (reenable_row (timestamp now)) d = Inr (d', n) \<and> 0 < n))"
proof (cases "update_session f (\<lambda>r. c_id r = sid \<and> c_status r \<in> {StatusStopped, StatusFinished}) (reenable_row (timestamp now)) d")
  case (Inl x)
  with assms show ?thesis by (auto simp: Reenable_def)
next
  case (Inr dn)
  obtain d1 n where dn: "dn = (d1, n)" by (cases dn)
  have same: "(d', if n = 0 then Some ErrNotRunning else None) = (case update_session f
      (\<lambda>r. c_id r = sid \<and> c_status r \<in> {StatusStopped, StatusFinished}) (reenable_row (timestamp now)) d of
       Inl e \<Rightarrow> (d, Some (Wrapped [] e)) | Inr (d', rows) \<Rightarrow> if rows = 0 then (d', Some ErrNotRunning) else (d', None))"
    using assms Inr dn by (auto simp: Reenable_def split: if_splits)
  have "n = 0 \<longrightarrow> e \<noteq> None" "n \<noteq> 0 \<longrightarrow> e = None"
    using assms Inr dn by (auto simp: Reenable_def split: if_splits sum.splits)
  with update_cases [OF same] show ?thesis by (auto split: if_splits)
qed

lemma SaveTick_cases:
  assumes "SaveTick f d sid snap hits = (d', e)"
  shows "(e \<noteq> None \<and> d' = d) \<or> (e = None \<and> (\<exists>tx n g. update_session g (\<lambda>r. c_id r = sid) (snapshot_row snap) d = Inr (tx, n)
     \<and> (\<exists>g'. save_hits g' sid hits tx = Inr d')))"
  using assms by (auto simp: SaveTick_def split: option.splits sum.splits) blast+

lemma CreateRun_cases:
  assumes "CreateRun f d r children = (d', e)"
  shows "(e \<noteq> None \<and> d' = d) \<or> (e = None \<and> (\<exists>tx. insert_run r d = Inr tx
     \<and> (\<exists>g. insert_children g (run_ID r) children tx = Inr d')))"
  using assms by (auto simp: CreateRun_def split: option.splits sum.splits)

lemma RenameRun_cases:
  assumes "RenameRun decode jsonb f d rid name = (d', e)"
  shows "(e \<noteq> None \<and> d' = d) \<or> (e = None \<and> find_run d rid \<noteq> None
     \<and> (\<exists>g tx. tx = d\<lparr>t_runs := map (\<lambda>r. if run_ID r = rid then r\<lparr>run_Name := name\<rparr> else r) (t_runs d)\<rparr>
        \<and> rename_children decode jsonb g name (ordered_children tx rid) tx = Inr d'))"
proof -
  have "filter (\<lambda>r. run_ID r = rid) (t_runs d) = [] \<longleftrightarrow> find_run d rid = None"
    by (auto simp: find_run_def find_None_iff filter_empty_conv)
  with assms show ?thesis by (auto simp: RenameRun_def split: option.splits sum.splits if_splits)
qed

lemma same_keys_simps [simp]:
  "same_keys (\<lambda>r. r\<lparr>c_status := s, c_stopped_at := t\<rparr>)"
  "same_keys (\<lambda>r. r\<lparr>c_name := n, c_name_customized := b\<rparr>)"
  "same_keys (reenable_row (timestamp now))" "same_keys (snapshot_row snap)"
  by (simp_all add: same_keys_def reenable_row_def snapshot_row_def)

lemma rename_run_runs_ok:
  "db_ok d \<Longrightarrow> db_ok (d\<lparr>t_runs := map (\<lambda>r. if run_ID r = rid then r\<lparr>run_Name := name\<rparr> else r) (t_runs d)\<rparr>)"
proof -
  assume d: "db_ok d"
  define rs where "rs = map (\<lambda>r. if run_ID r = rid then r\<lparr>run_Name := name\<rparr> else r) (t_runs d)"
  have ids: "map run_ID rs = map run_ID (t_runs d)" by (simp add: rs_def)
  then have "run_ID ` set rs = run_ID ` set (t_runs d)" by (metis list.set_map)
  then show ?thesis using d ids unfolding db_ok_def rs_def [symmetric] by simp
qed

lemma DeleteRun_ok: "db_ok d \<Longrightarrow> db_ok (fst (DeleteRun f d rid))"
proof -
  assume d: "db_ok d"
  have "db_ok (delete_sessions (\<lambda>r. c_run_id r = Some rid) d)" by (rule delete_sessions_ok [OF d])
  then have "db_ok ((delete_sessions (\<lambda>r. c_run_id r = Some rid) d)\<lparr>t_runs := filter (\<lambda>r. run_ID r \<noteq> rid) (t_runs d)\<rparr>)"
    by (auto simp: db_ok_def delete_sessions_def distinct_map_filter image_iff) force
  with d show ?thesis by (simp add: DeleteRun_def split: option.splits)
qed

lemma SaveReputation_ok: "db_ok d \<Longrightarrow> db_ok (fst (SaveReputation f d r))"
  by (auto simp: SaveReputation_def Let_def db_ok_def split: option.splits if_splits)

lemma apply_op_ok:
  assumes "db_ok d" shows "db_ok (apply_op decode jsonb f op d)"
proof (cases op)
  case (DoCreate v)
  then show ?thesis using Create_cases [of f d v] insert_row_ok [OF _ assms] assms by auto
next
  case (DoStop sid now)
  then show ?thesis using Stop_cases [of f d sid now] update_session_ok [OF _ assms] assms
    by (cases "Stop f d sid now") fastforce
next
  case (DoFinish sid now)
  then show ?thesis using Finish_cases [of f d sid now] update_session_ok [OF _ assms] assms
    by (cases "Finish f d sid now") fastforce
next
  case (DoReenable sid now)
  then show ?thesis using Reenable_cases [of f d sid now] update_session_ok [OF _ assms] assms
    by (cases "Reenable f d sid now") fastforce
next
  case (DoRename sid name)
  then show ?thesis using Rename_cases [of f d sid name] update_session_ok [OF _ assms] assms
    by (cases "Rename f d sid name") fastforce
next
  case (DoDelete sid)
  then show ?thesis using delete_sessions_ok [OF assms] assms by (simp add: Delete_def split: option.splits)
next
  case (DoSaveTick sid snap hits)
  then show ?thesis using SaveTick_cases [of f d sid snap hits] update_session_ok [OF _ assms] save_hits_ok assms
    by (cases "SaveTick f d sid snap hits") (fastforce dest: update_session_ok [OF _ assms])
next
  case (DoSaveReputation r)
  then show ?thesis using SaveReputation_ok [OF assms] by simp
next
  case (DoCreateRun r children)
  then show ?thesis using CreateRun_cases [of f d r children] insert_run_ok [OF _ assms] insert_children_ok assms
    by (cases "CreateRun f d r children") fastforce
next
  case (DoRenameRun rid name)
  then show ?thesis
    using RenameRun_cases [of decode jsonb f d rid name] rename_children_ok [OF _ rename_run_runs_ok [OF assms]] assms
    by (cases "RenameRun decode jsonb f d rid name") auto
next
  case (DoDeleteRun rid)
  then show ?thesis using DeleteRun_ok [OF assms] by simp
qed



subsection \<open>Rows before and after an operation\<close>

lemma find_map: "find P (map f xs) = map_option f (find (\<lambda>x. P (f x)) xs)"
  by (induction xs) auto

lemma find_update:
  assumes "update_session f P g d = Inr (d', n)" and "same_keys g"
  shows "find_session d' sid = map_option (\<lambda>r. if P r then g r else r) (find_session d sid)"
    and "t_session_ips d' = t_session_ips d" and "t_reputation d' = t_reputation d" and "t_runs d' = t_runs d"
proof -
  have d': "d' = d\<lparr>t_sessions := map (\<lambda>r. if P r then g r else r) (t_sessions d)\<rparr>"
    using assms(1) by (auto simp: update_session_def update_rows_def split: option.splits if_splits)
  have "(\<lambda>r. c_id (if P r then g r else r) = sid) = (\<lambda>r. c_id r = sid)"
    using assms(2) by (auto simp: same_keys_def)
  then show "find_session d' sid = map_option (\<lambda>r. if P r then g r else r) (find_session d sid)"
    by (simp add: d' find_session_def find_map)
  show "t_session_ips d' = t_session_ips d" "t_reputation d' = t_reputation d" "t_runs d' = t_runs d"
    by (simp_all add: d')
qed

lemma find_append_Some: "find P xs = Some y \<Longrightarrow> find P (xs @ ys) = Some y"
  by (induction xs) auto

lemma insert_row_find: "insert_row r d = Inr d' \<Longrightarrow> find_session d sid = Some r0 \<Longrightarrow> find_session d' sid = Some r0"
  by (auto simp: insert_row_def find_session_def find_append_Some split: if_splits)

lemma insert_run_sessions: "insert_run r d = Inr d' \<Longrightarrow> t_sessions d' = t_sessions d"
  by (auto simp: insert_run_def split: if_splits)

lemma insert_children_find:
  "insert_children f rid cs d = Inr d' \<Longrightarrow> find_session d sid = Some r \<Longrightarrow> find_session d' sid = Some r"
  by (induction f rid cs d rule: insert_children.induct)
     (auto split: option.splits sum.splits dest: insert_row_find)

lemma upsert_ip_other:
  "upsert_ip sid hit d = Inr d' \<Longrightarrow> t_sessions d' = t_sessions d \<and> t_reputation d' = t_reputation d \<and> t_runs d' = t_runs d"
  by (auto simp: upsert_ip_def Let_def split: if_splits)

lemma save_hits_other:
  "save_hits f sid hits d = Inr d' \<Longrightarrow> t_sessions d' = t_sessions d \<and> t_reputation d' = t_reputation d \<and> t_runs d' = t_runs d"
  by (induction f sid hits d rule: save_hits.induct)
     (auto split: option.splits sum.splits dest!: upsert_ip_other)

lemma find_unique: "distinct (map c_id rs) \<Longrightarrow> r \<in> set rs \<Longrightarrow> find (\<lambda>x. c_id x = c_id r) rs = Some r"
  by (induction rs) force+

lemma delete_sessions_find:
  assumes "db_ok d" and "find_session (delete_sessions P d) sid = Some r'" and "find_session d sid = Some r"
  shows "r' = r"
proof -
  from assms(2) have "r' \<in> set (t_sessions d)" "c_id r' = sid"
    by (auto dest!: find_session_Some simp: delete_sessions_def)
  with find_unique [of "t_sessions d" r'] assms(1,3) show ?thesis by (simp add: db_ok_def find_session_def)
qed

lemma rename_children_find:
  "rename_children decode jsonb f name cs d = Inr d' \<Longrightarrow> find_session d sid = Some r \<Longrightarrow>
     \<exists>n. find_session d' sid = Some (r\<lparr>c_name := n\<rparr>)"
proof (induction cs arbitrary: f d r)
  case Nil
  then show ?case by (intro exI [of _ "c_name r"]) (auto split: option.splits)
next
  case (Cons child children)
  define params where "params = (if coalesce_params jsonb child = [] then Some [] else decode (coalesce_params jsonb child))"
  show ?case
  proof (cases params)
    case None
    with Cons show ?thesis by (auto simp: params_def Let_def split: if_splits)
  next
    case (Some p)
    obtain d1 n where u: "update_session f (\<lambda>r. c_id r = c_id child \<and> \<not> c_name_customized r)
        (\<lambda>r. r\<lparr>c_name := VariantName name p\<rparr>) d = Inr (d1, n)"
      and rest: "rename_children decode jsonb (\<lambda>k. f (Suc k)) name children d1 = Inr d'"
      using Cons.prems(1) Some by (auto simp: params_def Let_def split: sum.splits if_splits)
    have keys: "same_keys (\<lambda>r. r\<lparr>c_name := VariantName name p\<rparr>)" by (simp add: same_keys_def)
    have "find_session d1 sid = Some (r\<lparr>c_name := if c_id r = c_id child \<and> \<not> c_name_customized r
        then VariantName name p else c_name r\<rparr>)"
      using find_update(1) [OF u keys, of sid] Cons.prems(2) by simp
    then obtain m where m: "find_session d1 sid = Some (r\<lparr>c_name := m\<rparr>)" ..
    from Cons.IH [OF rest m] show ?thesis by simp
  qed
qed

text \<open>The part of a row no operation changes.\<close>

definition config_of :: "session_row \<Rightarrow> session_row" where
  "config_of r =
     r\<lparr>c_name := [], c_status := StatusRunning, c_samples_taken := 0, c_probes_ok := 0, c_probes_total := 0,
       c_distinct_ips := 0, c_last_sample_at := None, c_last_primary_ip := NoAddr, c_last_rtt_ms := None,
       c_last_error := None, c_started_at := None, c_stopped_at := None, c_sequence_offset := 0,
       c_name_customized := False\<rparr>"

definition allowed_status :: "uuid \<Rightarrow> store_op \<Rightarrow> status \<Rightarrow> status \<Rightarrow> bool" where
  "allowed_status sid op s s' \<longleftrightarrow> s' = s
     \<or> (s = StatusRunning \<and> ((\<exists>now. op = DoStop sid now) \<and> s' = StatusStopped
                           \<or> (\<exists>now. op = DoFinish sid now) \<and> s' = StatusFinished))
     \<or> (s \<noteq> StatusRunning \<and> (\<exists>now. op = DoReenable sid now) \<and> s' = StatusRunning)"

lemma updated_row:
  assumes "(e \<noteq> None \<and> d' = d) \<or> (e = None \<and> (\<exists>n. update_session f P g d = Inr (d', n) \<and> 0 < n))"
    and "same_keys g" and "find_session d sid = Some r" and "find_session d' sid = Some r'"
  shows "r' = r \<or> (P r \<and> r' = g r)"
  using assms find_update(1) [of f P g d d' _ sid] by (auto split: if_splits)

lemma SaveTick_row:
  assumes "SaveTick f d s snap hits = (d', e)" "find_session d sid = Some r" "find_session d' sid = Some r'"
  shows "r' = r \<or> r' = snapshot_row snap r"
proof (cases e)
  case None
  with SaveTick_cases [OF assms(1)] obtain tx n g g' where
    u: "update_session g (\<lambda>r. c_id r = s) (snapshot_row snap) d = Inr (tx, n)" and sh: "save_hits g' s hits tx = Inr d'"
    by auto
  have "find_session d' sid = find_session tx sid" using save_hits_other [OF sh] by (simp add: find_session_def)
  with find_update(1) [OF u, of sid] assms(2,3) show ?thesis by (auto split: if_splits)
next
  case (Some x)
  with SaveTick_cases [OF assms(1)] assms(2,3) show ?thesis by auto
qed

lemma CreateRun_row:
  assumes "CreateRun f d rn children = (d', e)" "find_session d sid = Some r" "find_session d' sid = Some r'"
  shows "r' = r"
proof (cases e)
  case None
  with CreateRun_cases [OF assms(1)] obtain tx g where
    i: "insert_run rn d = Inr tx" and c: "insert_children g (run_ID rn) children tx = Inr d'" by auto
  have "find_session tx sid = Some r" using insert_run_sessions [OF i] assms(2) by (simp add: find_session_def)
  with insert_children_find [OF c this] assms(3) show ?thesis by simp
next
  case (Some x)
  with CreateRun_cases [OF assms(1)] assms(2,3) show ?thesis by auto
qed

lemma RenameRun_row:
  assumes "RenameRun decode jsonb f d rid name = (d', e)" "find_session d sid = Some r" "find_session d' sid = Some r'"
  shows "\<exists>n. r' = r\<lparr>c_name := n\<rparr>"
proof (cases e)
  case None
  with RenameRun_cases [OF assms(1)] obtain g tx where
    tx: "tx = d\<lparr>t_runs := map (\<lambda>r. if run_ID r = rid then r\<lparr>run_Name := name\<rparr> else r) (t_runs d)\<rparr>"
    and c: "rename_children decode jsonb g name (ordered_children tx rid) tx = Inr d'" by auto
  have "find_session tx sid = Some r" using assms(2) by (simp add: tx find_session_def)
  with rename_children_find [OF c this] assms(3) show ?thesis by auto
next
  case (Some x)
  with RenameRun_cases [OF assms(1)] assms(2,3) have "r' = r\<lparr>c_name := c_name r\<rparr>" by auto
  then show ?thesis by blast
qed

lemma DeleteRun_row:
  assumes "db_ok d" "DeleteRun f d rid = (d', e)" "find_session d sid = Some r" "find_session d' sid = Some r'"
  shows "r' = r"
proof -
  have "find_session (delete_sessions (\<lambda>r. c_run_id r = Some rid) d) sid = Some r' \<or> r' = r"
    using assms(2-4) by (auto simp: DeleteRun_def find_session_def split: option.splits)
  with delete_sessions_find [OF assms(1) _ assms(3)] show ?thesis by blast
qed

lemma life_cycle_rows:
  assumes "find_session d sid = Some r"
  shows "find_session (fst (Stop f d s now)) sid = Some r' \<Longrightarrow>
      r' = r \<or> s = sid \<and> c_status r = StatusRunning \<and> r' = r\<lparr>c_status := StatusStopped, c_stopped_at := Some (timestamp now)\<rparr>"
    and "find_session (fst (Finish f d s now)) sid = Some r' \<Longrightarrow>
      r' = r \<or> s = sid \<and> c_status r = StatusRunning \<and> r' = r\<lparr>c_status := StatusFinished, c_stopped_at := Some (timestamp now)\<rparr>"
    and "find_session (fst (Reenable f d s now)) sid = Some r' \<Longrightarrow>
      r' = r \<or> s = sid \<and> c_status r \<in> {StatusStopped, StatusFinished} \<and> r' = reenable_row (timestamp now) r"
    and "find_session (fst (Rename f d s name)) sid = Some r' \<Longrightarrow> r' = r \<or> s = sid \<and> r' = r\<lparr>c_name := name, c_name_customized := True\<rparr>"
proof -
  have sid: "c_id r = sid" using assms by (auto dest: find_session_Some)
  show "r' = r \<or> s = sid \<and> c_status r = StatusRunning \<and> r' = r\<lparr>c_status := StatusStopped, c_stopped_at := Some (timestamp now)\<rparr>"
    if "find_session (fst (Stop f d s now)) sid = Some r'"
    using updated_row [OF Stop_cases [OF prod.collapse [symmetric]] _ assms that] sid by auto
  show "r' = r \<or> s = sid \<and> c_status r = StatusRunning \<and> r' = r\<lparr>c_status := StatusFinished, c_stopped_at := Some (timestamp now)\<rparr>"
    if "find_session (fst (Finish f d s now)) sid = Some r'"
    using updated_row [OF Finish_cases [OF prod.collapse [symmetric]] _ assms that] sid by auto
  show "r' = r \<or> s = sid \<and> c_status r \<in> {StatusStopped, StatusFinished} \<and> r' = reenable_row (timestamp now) r"
    if "find_session (fst (Reenable f d s now)) sid = Some r'"
    using updated_row [OF Reenable_cases [OF prod.collapse [symmetric]] _ assms that] sid by auto
  show "r' = r \<or> s = sid \<and> r' = r\<lparr>c_name := name, c_name_customized := True\<rparr>"
    if "find_session (fst (Rename f d s name)) sid = Some r'"
    using updated_row [OF Rename_cases [OF prod.collapse [symmetric]] _ assms that] sid by auto
qed

text \<open>
  C40: the life cycle of a stored session: it leaves running only by its own Stop or Finish and returns
  only by its own Reenable; every other operation keeps the status, and none changes what the session
  samples (proxy, mode, cadence, limits, run and parameters).
\<close>

theorem status_machine:
  assumes "db_ok d" and "find_session d sid = Some r"
    and "find_session (apply_op decode jsonb f op d) sid = Some r'"
  shows "allowed_status sid op (c_status r) (c_status r') \<and> config_of r' = config_of r"
proof (cases op)
  case (DoCreate v)
  then have "r' = r" using Create_cases [of f d v] insert_row_find assms by fastforce
  then show ?thesis by (simp add: allowed_status_def)
next
  case (DoStop s now)
  with life_cycle_rows(1) [OF assms(2)] assms(3) show ?thesis by (fastforce simp: allowed_status_def config_of_def)
next
  case (DoFinish s now)
  with life_cycle_rows(2) [OF assms(2)] assms(3) show ?thesis by (fastforce simp: allowed_status_def config_of_def)
next
  case (DoReenable s now)
  with life_cycle_rows(3) [OF assms(2)] assms(3) show ?thesis by (fastforce simp: allowed_status_def config_of_def reenable_row_def)
next
  case (DoRename s name)
  with life_cycle_rows(4) [OF assms(2)] assms(3) show ?thesis by (fastforce simp: allowed_status_def config_of_def)
next
  case (DoDelete s)
  then have "r' = r" using delete_sessions_find [OF assms(1)] assms(2,3) by (auto simp: Delete_def split: option.splits)
  then show ?thesis by (simp add: allowed_status_def)
next
  case (DoSaveTick s snap hits)
  then have "r' = r \<or> r' = snapshot_row snap r"
    using SaveTick_row [OF prod.collapse [symmetric] assms(2)] assms(3) by simp
  then show ?thesis by (auto simp: allowed_status_def config_of_def snapshot_row_def)
next
  case (DoSaveReputation rep)
  then have "find_session (apply_op decode jsonb f op d) sid = find_session d sid"
    by (simp add: SaveReputation_def Let_def find_session_def split: option.splits)
  then show ?thesis using assms by (simp add: allowed_status_def)
next
  case (DoCreateRun rn children)
  with CreateRun_row [OF prod.collapse [symmetric] assms(2)] assms(3) show ?thesis by (simp add: allowed_status_def)
next
  case (DoRenameRun rid name)
  with RenameRun_row [OF prod.collapse [symmetric] assms(2)] assms(3) show ?thesis by (fastforce simp: allowed_status_def config_of_def)
next
  case (DoDeleteRun rid)
  with DeleteRun_row [OF assms(1) prod.collapse [symmetric] assms(2)] assms(3) show ?thesis by (simp add: allowed_status_def)
qed

definition demo_row :: session_row where "demo_row = insertSessionParams demo_session"

definition demo_db :: db where "demo_db = empty_db\<lparr>t_sessions := [demo_row]\<rparr>"

lemma demo_row_ok: "row_ok demo_row"
  by (simp add: row_ok_def demo_row_def insertSessionParams_def demo_session_def durationSeconds_def
      durationMillis32_def go_div_nonneg second_def millisecond_def wrap32_def zero_snapshot_def inet_ok_def int32_def)

lemma demo_row_simps [simp]: "c_id demo_row = 7" "c_status demo_row = StatusRunning" "c_run_id demo_row = None"
  "c_samples_taken demo_row = 0" "c_sequence_offset demo_row = 0"
  by (simp_all add: demo_row_def insertSessionParams_def demo_session_def zero_snapshot_def wrap32_def)

lemma demo_db_ok: "db_ok demo_db"
  using demo_row_ok by (simp add: db_ok_def demo_db_def empty_db_def)

lemma demo_find: "find_session demo_db 7 = Some demo_row"
  by (simp add: find_session_def demo_db_def)

theorem status_machine_witness:
  "allowed_status 7 (DoStop 7 5000) StatusRunning StatusStopped"
proof -
  have "find_session (apply_op (\<lambda>_. None) id no_faults (DoStop 7 5000) demo_db) 7
      = Some (demo_row\<lparr>c_status := StatusStopped, c_stopped_at := Some (timestamp 5000)\<rparr>)"
    using demo_row_ok
    by (simp add: Stop_def update_session_def no_faults_def update_rows_def demo_db_def find_session_def row_ok_def)
  from status_machine [OF demo_db_ok demo_find this] show ?thesis by simp
qed

text \<open>
  re-enabling either fails and changes nothing - with "not found" exactly when the session does not
  exist and "already running" when it runs - or puts a stopped or finished session back to running with
  empty counters, moving the samples already taken into the sequence offset, so that offset plus
  samples is unchanged and no event number is ever used twice.
\<close>

theorem Reenable_bookkeeping:
  assumes "Reenable f d sid now = (d', e)" and "db_ok d"
  shows "case e of
     None \<Rightarrow> (\<exists>r. find_session d sid = Some r \<and> c_status r \<noteq> StatusRunning
        \<and> (\<exists>r'. find_session d' sid = Some r' \<and> c_status r' = StatusRunning \<and> c_samples_taken r' = 0
           \<and> c_sequence_offset r' + c_samples_taken r' = c_sequence_offset r + c_samples_taken r
           \<and> c_probes_ok r' = 0 \<and> c_probes_total r' = 0 \<and> c_last_primary_ip r' = NoAddr
           \<and> c_distinct_ips r' = c_distinct_ips r \<and> c_started_at r' = Some (timestamp now) \<and> c_stopped_at r' = None))
        \<and> t_session_ips d' = t_session_ips d
   | Some x \<Rightarrow> d' = d \<and> (if f = no_faults then x = ErrNotFound \<and> find_session d sid = None
        \<or> x = ErrAlreadyRunning \<and> map_option c_status (find_session d sid) = Some StatusRunning
        \<or> x = Wrapped ''reenable session'' (sql_error ''integer out of range'') else True)"
proof (cases e)
  case None
  with Reenable_cases [OF assms(1)] obtain n where u: "update_session f
      (\<lambda>r. c_id r = sid \<and> c_status r \<in> {StatusStopped, StatusFinished}) (reenable_row (timestamp now)) d = Inr (d', n)"
    and n: "0 < n" by auto
  have "n = length (filter (\<lambda>r. c_id r = sid \<and> c_status r \<in> {StatusStopped, StatusFinished}) (t_sessions d))"
    using u by (auto simp: update_session_def update_rows_def split: option.splits if_splits)
  with n have "filter (\<lambda>r. c_id r = sid \<and> c_status r \<in> {StatusStopped, StatusFinished}) (t_sessions d) \<noteq> []" by auto
  then obtain r where r: "r \<in> set (t_sessions d)" "c_id r = sid" "c_status r \<in> {StatusStopped, StatusFinished}"
    by (auto simp: filter_empty_conv)
  have f0: "find_session d sid = Some r"
    using find_unique [of "t_sessions d" r] r assms(2) by (simp add: db_ok_def find_session_def)
  have f1: "find_session d' sid = Some (reenable_row (timestamp now) r)"
    using find_update(1) [OF u, of sid] f0 r by simp
  have "t_session_ips d' = t_session_ips d" by (rule find_update(2) [OF u]) simp
  with None f0 f1 r(3) show ?thesis by (auto simp: reenable_row_def)
next
  case (Some x)
  with Reenable_cases [OF assms(1)] have d': "d' = d" by simp
  have "x = ErrNotFound \<and> find_session d sid = None
        \<or> x = ErrAlreadyRunning \<and> map_option c_status (find_session d sid) = Some StatusRunning
        \<or> x = Wrapped ''reenable session'' (sql_error ''integer out of range'')" if "f = no_faults"
  proof (cases "update_session f (\<lambda>r. c_id r = sid \<and> c_status r \<in> {StatusStopped, StatusFinished}) (reenable_row (timestamp now)) d")
    case (Inl y)
    then show ?thesis using assms(1) Some that
      by (auto simp: Reenable_def update_session_def update_rows_def no_faults_def split: if_splits)
  next
    case (Inr dn)
    obtain d1 n where dn: "dn = (d1, n)" by (cases dn)
    have n: "n = 0" "(case SessionByID (\<lambda>k. f (Suc k)) d1 sid of Inl e \<Rightarrow> Some e | Inr _ \<Rightarrow> Some ErrAlreadyRunning) = Some x"
      using assms(1) Some Inr dn by (auto simp: Reenable_def split: if_splits)
    have "d1 = d" using assms(1) Inr dn n d' by (auto simp: Reenable_def)
    have none: "filter (\<lambda>r. c_id r = sid \<and> c_status r \<in> {StatusStopped, StatusFinished}) (t_sessions d) = []"
      using Inr dn n(1) by (auto simp: update_session_def update_rows_def split: option.splits if_splits)
    show ?thesis
    proof (cases "find_session d sid")
      case None
      with n(2) that \<open>d1 = d\<close> show ?thesis by (simp add: SessionByID_def no_faults_def)
    next
      case (Some r)
      with none have "c_status r = StatusRunning"
        by (cases "c_status r") (auto simp: filter_empty_conv dest!: find_session_Some)
      with Some n(2) that \<open>d1 = d\<close> show ?thesis by (simp add: SessionByID_def no_faults_def)
    qed
  qed
  with Some d' show ?thesis by simp
qed

theorem Reenable_bookkeeping_witness:
  "\<exists>d'. Reenable no_faults (fst (Stop no_faults demo_db 7 5000)) 7 9000 = (d', None) \<and> d' \<noteq> demo_db"
proof -
  define d1 where "d1 = fst (Stop no_faults demo_db 7 5000)"
  have s: "t_sessions d1 = [demo_row\<lparr>c_status := StatusStopped, c_stopped_at := Some (timestamp 5000)\<rparr>]"
    using demo_row_ok
    by (simp add: d1_def Stop_def update_session_def no_faults_def update_rows_def demo_db_def row_ok_def)
  have ok: "db_ok d1" using apply_op_ok [OF demo_db_ok, of "\<lambda>_. None" id no_faults "DoStop 7 5000"] by (simp add: d1_def)
  have "snd (Reenable no_faults d1 7 9000) = None"
    using demo_row_ok
    by (simp add: Reenable_def update_session_def no_faults_def update_rows_def s row_ok_def reenable_row_def int32_def inet_ok_def)
  then obtain d' where d': "Reenable no_faults d1 7 9000 = (d', None)" by (metis prod.collapse)
  from Reenable_bookkeeping [OF d' ok] have "\<exists>r'. find_session d' 7 = Some r' \<and> c_started_at r' = Some (timestamp 9000)" by auto
  moreover have "c_started_at demo_row = Some 1000000"
    by (simp add: demo_row_def insertSessionParams_def demo_session_def timestamp_def)
  ultimately have "d' \<noteq> demo_db" using demo_find by (auto simp: timestamp_def)
  with d' show ?thesis unfolding d1_def by blast
qed


subsection \<open>Ticks\<close>

definition hit_count :: "db \<Rightarrow> uuid \<Rightarrow> addr \<Rightarrow> int" where
  "hit_count d sid ip = (case map_of (t_session_ips d) (sid, ip) of None \<Rightarrow> 0 | Some c \<Rightarrow> i_hit_count c)"

definition hits_for :: "ip_hit list \<Rightarrow> addr \<Rightarrow> int" where
  "hits_for hits ip = sum_list (map Hits (filter (\<lambda>h. h_IP h = ip) hits))"

lemma upsert_ip_count:
  "upsert_ip sid hit d = Inr d' \<Longrightarrow>
     hit_count d' s ip = hit_count d s ip + (if s = sid \<and> ip = h_IP hit then Hits hit else 0)"
  by (auto simp: upsert_ip_def hit_count_def Let_def AList.update_conv' split: if_splits option.splits)

lemma save_hits_count:
  "save_hits f sid hits d = Inr d' \<Longrightarrow>
     hit_count d' s ip = hit_count d s ip + (if s = sid then hits_for hits ip else 0)"
  by (induction f sid hits d rule: save_hits.induct)
     (auto simp: hits_for_def upsert_ip_count split: option.splits sum.splits)

lemma SaveTick_ok:
  assumes "SaveTick f d sid snap hits = (d', None)"
  shows "hit_count d' s ip = hit_count d s ip + (if s = sid then hits_for hits ip else 0)"
    and "find_session d' s = map_option (\<lambda>r. if s = sid then snapshot_row snap r else r) (find_session d s)"
    and "t_reputation d' = t_reputation d" and "t_runs d' = t_runs d"
proof -
  from SaveTick_cases [OF assms] obtain tx n g g' where
    u: "update_session g (\<lambda>r. c_id r = sid) (snapshot_row snap) d = Inr (tx, n)"
    and sh: "save_hits g' sid hits tx = Inr d'" by auto
  note tx = find_update [OF u same_keys_simps(4)]
  show "hit_count d' s ip = hit_count d s ip + (if s = sid then hits_for hits ip else 0)"
    using save_hits_count [OF sh, of s ip] tx(2) by (simp add: hit_count_def)
  have "find_session d' s = find_session tx s" using save_hits_other [OF sh] by (simp add: find_session_def)
  also have "\<dots> = map_option (\<lambda>r. if s = sid then snapshot_row snap r else r) (find_session d s)"
    unfolding tx(1) by (cases "find_session d s") (auto dest: find_session_Some)
  finally show "find_session d' s = map_option (\<lambda>r. if s = sid then snapshot_row snap r else r) (find_session d s)" .
  show "t_reputation d' = t_reputation d" "t_runs d' = t_runs d"
    using save_hits_other [OF sh] tx(3,4) by simp_all
qed

text \<open>
  C26: saving a tick is all or nothing: when any statement of the transaction fails, or the commit does,
  the database is untouched; otherwise the session has exactly the new snapshot and every address
  exactly its additional hits, and no other session, reputation or run changes.
\<close>

theorem SaveTick_atomic:
  "case SaveTick f d sid snap hits of
     (d', Some e) \<Rightarrow> d' = d
   | (d', None) \<Rightarrow> hit_count d' = (\<lambda>s ip. hit_count d s ip + (if s = sid then hits_for hits ip else 0))
       \<and> find_session d' = (\<lambda>s. map_option (\<lambda>r. if s = sid then snapshot_row snap r else r) (find_session d s))
       \<and> t_reputation d' = t_reputation d \<and> t_runs d' = t_runs d"
proof (cases "SaveTick f d sid snap hits")
  case (Pair d' e)
  show ?thesis
  proof (cases e)
    case None
    with Pair show ?thesis
      using SaveTick_ok [of f d sid snap hits d'] by (simp add: fun_eq_iff)
  next
    case (Some x)
    with Pair SaveTick_cases [OF Pair] show ?thesis by simp
  qed
qed


subsection \<open>Renaming a run\<close>

definition child_params ::
  "(string \<Rightarrow> (string, string) gomap option) \<Rightarrow> (string \<Rightarrow> string) \<Rightarrow> session_row \<Rightarrow> (string, string) gomap option" where
  "child_params decode jsonb r =
     (if coalesce_params jsonb r = [] then Some [] else decode (coalesce_params jsonb r))"

definition renamed :: "(session_row \<Rightarrow> (string, string) gomap option) \<Rightarrow> string \<Rightarrow> session_row \<Rightarrow> session_row" where
  "renamed params name r =
     (case params r of None \<Rightarrow> r | Some p \<Rightarrow> if c_name_customized r then r else r\<lparr>c_name := VariantName name p\<rparr>)"

lemma rename_children_rows:
  assumes "rename_children decode jsonb f name cs d = Inr d'" and "distinct (map c_id cs)"
    and "\<forall>c \<in> set cs. \<forall>r \<in> set (t_sessions d). c_id c = c_id r \<longrightarrow> c_variant_params c = c_variant_params r"
  shows "d' = d\<lparr>t_sessions := map (\<lambda>r. if c_id r \<in> c_id ` set cs then renamed (child_params decode jsonb) name r else r) (t_sessions d)\<rparr>"
  using assms
proof (induction cs arbitrary: f d)
  case Nil
  then show ?case by (auto split: option.splits)
next
  case (Cons child children)
  define g where "g p r = (if c_id r = c_id child \<and> \<not> c_name_customized r then r\<lparr>c_name := VariantName name p\<rparr> else r)"
    for p and r :: session_row
  have same: "child_params decode jsonb r = child_params decode jsonb child"
    if "r \<in> set (t_sessions d)" "c_id r = c_id child" for r
    using Cons.prems(3) that by (auto simp: child_params_def coalesce_params_def)
  show ?case
  proof (cases "child_params decode jsonb child")
    case None
    then have "rename_children decode jsonb f name children d = Inr d'"
      using Cons.prems(1) by (auto simp: child_params_def Let_def split: if_splits)
    from Cons.IH [OF this] Cons.prems have d': "d' = d\<lparr>t_sessions := map (\<lambda>r. if c_id r \<in> c_id ` set children
        then renamed (child_params decode jsonb) name r else r) (t_sessions d)\<rparr>" by simp
    have "renamed (child_params decode jsonb) name r = r" if "r \<in> set (t_sessions d)" "c_id r = c_id child" for r
      using same [OF that] None by (simp add: renamed_def)
    then have "map (\<lambda>r. if c_id r \<in> c_id ` set children then renamed (child_params decode jsonb) name r else r) (t_sessions d)
        = map (\<lambda>r. if c_id r \<in> c_id ` set (child # children) then renamed (child_params decode jsonb) name r else r) (t_sessions d)"
      by (intro map_cong refl) auto
    then show ?thesis unfolding d' by simp
  next
    case (Some p)
    obtain d1 n where u: "update_session f (\<lambda>r. c_id r = c_id child \<and> \<not> c_name_customized r)
        (\<lambda>r. r\<lparr>c_name := VariantName name p\<rparr>) d = Inr (d1, n)"
      and rest: "rename_children decode jsonb (\<lambda>k. f (Suc k)) name children d1 = Inr d'"
      using Cons.prems(1) Some by (auto simp: child_params_def Let_def split: sum.splits if_splits)
    have d1: "d1 = d\<lparr>t_sessions := map (g p) (t_sessions d)\<rparr>"
      using u by (auto simp: update_session_def update_rows_def g_def split: option.splits if_splits)
    have keep: "c_id (g p r) = c_id r" "c_variant_params (g p r) = c_variant_params r"
      "c_name_customized (g p r) = c_name_customized r" for r by (simp_all add: g_def)
    have "\<forall>c \<in> set children. \<forall>r \<in> set (t_sessions d1). c_id c = c_id r \<longrightarrow> c_variant_params c = c_variant_params r"
      using Cons.prems(3) by (simp add: d1 keep)
    from Cons.IH [OF rest _ this] Cons.prems(2) have d': "d' = d1\<lparr>t_sessions := map (\<lambda>r. if c_id r \<in> c_id ` set children
        then renamed (child_params decode jsonb) name r else r) (t_sessions d1)\<rparr>" by simp
    have "(if c_id (g p r) \<in> c_id ` set children then renamed (child_params decode jsonb) name (g p r) else g p r)
        = (if c_id r \<in> c_id ` set (child # children) then renamed (child_params decode jsonb) name r else r)"
      if r: "r \<in> set (t_sessions d)" for r
    proof (cases "c_id r = c_id child")
      case True
      with same [OF r True] Some Cons.prems(2) show ?thesis by (auto simp: keep renamed_def g_def)
    next
      case False
      then have "g p r = r" by (simp add: g_def)
      with False show ?thesis by auto
    qed
    then show ?thesis unfolding d' d1 by simp
  qed
qed

text \<open>
  renaming a run is atomic and touches only names: on success the run has the new name and each of
  its children whose name nobody customized and whose parameters can be read has the name generated from
  them; customized children, children of other runs and every other column are untouched.
\<close>

theorem RenameRun_names:
  assumes "RenameRun decode jsonb f d rid name = (d', e)" and "db_ok d"
  shows "if e = None then
      d' = d\<lparr>t_sessions := map (\<lambda>r. if c_run_id r = Some rid then renamed (child_params decode jsonb) name r else r) (t_sessions d),
             t_runs := map (\<lambda>r. if run_ID r = rid then r\<lparr>run_Name := name\<rparr> else r) (t_runs d)\<rparr>
      \<and> rid \<in> run_ID ` set (t_runs d)
     else d' = d"
proof (cases e)
  case None
  with RenameRun_cases [OF assms(1)] obtain g tx where run: "find_run d rid \<noteq> None"
    and tx: "tx = d\<lparr>t_runs := map (\<lambda>r. if run_ID r = rid then r\<lparr>run_Name := name\<rparr> else r) (t_runs d)\<rparr>"
    and c: "rename_children decode jsonb g name (ordered_children tx rid) tx = Inr d'" by auto
  have ids: "distinct (map c_id (t_sessions d))" using assms(2) by (simp add: db_ok_def)
  have sess: "t_sessions tx = t_sessions d" by (simp add: tx)
  have cs: "set (ordered_children tx rid) = {r \<in> set (t_sessions d). c_run_id r = Some rid}"
    by (simp add: ordered_children_def children_of_def sess)
  have "mset (map c_id (ordered_children tx rid)) = mset (map c_id (children_of tx rid))"
    by (simp add: ordered_children_def)
  then have "distinct (map c_id (ordered_children tx rid)) = distinct (map c_id (children_of tx rid))"
    by (rule mset_eq_imp_distinct_iff)
  moreover have "distinct (map c_id (children_of tx rid))" using ids by (simp add: children_of_def sess distinct_map_filter)
  ultimately have dist: "distinct (map c_id (ordered_children tx rid))" by simp
  have uniq: "r = r'" if "r \<in> set (t_sessions d)" "r' \<in> set (t_sessions d)" "c_id r = c_id r'" for r r'
    using ids that by (auto simp: distinct_map dest: inj_onD)
  have "\<forall>c \<in> set (ordered_children tx rid). \<forall>r \<in> set (t_sessions tx). c_id c = c_id r \<longrightarrow> c_variant_params c = c_variant_params r"
    using uniq unfolding cs sess by blast
  from rename_children_rows [OF c dist this]
  have d': "d' = tx\<lparr>t_sessions := map (\<lambda>r. if c_id r \<in> c_id ` {r \<in> set (t_sessions d). c_run_id r = Some rid}
      then renamed (child_params decode jsonb) name r else r) (t_sessions d)\<rparr>" unfolding cs sess .
  have "c_id r \<in> c_id ` {r \<in> set (t_sessions d). c_run_id r = Some rid} \<longleftrightarrow> c_run_id r = Some rid"
    if r: "r \<in> set (t_sessions d)" for r
  proof
    assume "c_id r \<in> c_id ` {r \<in> set (t_sessions d). c_run_id r = Some rid}"
    then obtain r' where "r' \<in> set (t_sessions d)" "c_run_id r' = Some rid" "c_id r = c_id r'" by blast
    with uniq [OF r] show "c_run_id r = Some rid" by simp
  qed (use r in blast)
  then have "map (\<lambda>r. if c_id r \<in> c_id ` {r \<in> set (t_sessions d). c_run_id r = Some rid}
      then renamed (child_params decode jsonb) name r else r) (t_sessions d)
    = map (\<lambda>r. if c_run_id r = Some rid then renamed (child_params decode jsonb) name r else r) (t_sessions d)"
    by (intro map_cong refl) presburger
  then show ?thesis using None run by (simp only: d' tx find_run_None) simp
next
  case (Some x)
  with RenameRun_cases [OF assms(1)] show ?thesis by simp
qed


subsection \<open>The export agrees with the report\<close>

lemma stream_loop_collect: "stream_loop (\<lambda>row acc. (acc @ [row], None)) rows s = (s @ rows, None)"
  by (induction rows arbitrary: s) simp_all

lemma observation_of_simps [simp]:
  "o_IP (observation_of d x) = snd (fst x)" "o_HitCount (observation_of d x) = i_hit_count (snd x)"
  "o_FirstSeen (observation_of d x) = i_first_seen (snd x)" "o_LastSeen (observation_of d x) = i_last_seen (snd x)"
  "o_Reputation (observation_of d x) = reputation_for d (snd (fst x))"
  by (simp_all add: observation_of_def observation_row_def case_prod_beta)

lemma pool_row_merged:
  assumes "xs \<noteq> []" and "\<forall>x \<in> set xs. snd (fst x) = ip" and "\<forall>x \<in> set xs. i_first_seen (snd x) \<noteq> 0"
    and "mset xs = mset ys"
  shows "merged_row (map (observation_of d) xs) = pool_row d ip (map snd ys)"
proof -
  have s: "set ys = set xs" using assms(4) by (metis mset_eq_setD)
  have h: "snd (fst (hd xs)) = ip" using assms(1,2) by simp
  have sums: "sum_list (map (i_hit_count \<circ> snd) xs) = sum_list (map (i_hit_count \<circ> snd) ys)"
  proof -
    have "sum_mset (mset (map (i_hit_count \<circ> snd) xs)) = sum_mset (mset (map (i_hit_count \<circ> snd) ys))"
      using assms(4) by simp
    then show ?thesis by (simp only: sum_mset_sum_list)
  qed
  define ts where "ts = map (i_first_seen \<circ> snd) xs"
  have nz: "\<forall>t \<in> set ts. t \<noteq> 0" and ne: "ts \<noteq> []" using assms(1,3) by (simp_all add: ts_def)
  have "\<not> (\<forall>t \<in> set ts. t = 0)" using nz ne by (cases ts) auto
  moreover have "set ts - {0} = set ts" using nz by auto
  ultimately have "earliest ts = Min (set ts)" by (auto simp: earliest_def)
  then have "earliest (map (i_first_seen \<circ> snd) xs) = Min ((i_first_seen \<circ> snd) ` set xs)"
    by (simp add: ts_def)
  then show ?thesis
    using assms(1) h sums
    by (simp add: merged_row_def newIPRow_def pool_row_def hd_map s image_image comp_def Let_def split: option.splits)
qed

lemma pool_rows_report:
  fixes d rid
  defines "obs \<equiv> map (observation_of d) (sort_key (\<lambda>(_, c). - i_last_seen c) (run_ips d rid))"
  assumes "\<forall>x \<in> set (run_ips d rid). i_first_seen (snd x) \<noteq> 0"
  shows "pool_rows d rid = pr_IPs (BuildPoolReport uni lower unmarshal vs obs)"
proof -
  define xs where "xs = sort_key (\<lambda>(_, c). - i_last_seen c) (run_ips d rid)"
  have obs: "obs = map (observation_of d) xs" by (simp add: obs_def xs_def)
  have ms: "mset xs = mset (run_ips d rid)" by (simp add: xs_def)
  then have set_xs: "set xs = set (run_ips d rid)" by (metis mset_eq_setD)
  have "sort (dedup_from [] (map (\<lambda>((_, ip), _). ip) (run_ips d rid))) = sorted_list_of_set ((\<lambda>((_, ip), _). ip) ` set (run_ips d rid))"
    using sort_distinct_set [OF distinct_dedup_from [of "[]" "map (\<lambda>((_, ip), _). ip) (run_ips d rid)"]]
    by (simp add: set_dedup_from)
  also have "(\<lambda>((_, ip), _). ip) ` set (run_ips d rid) = o_IP ` set obs"
    by (simp add: obs set_xs image_image case_prod_beta)
  finally have ips: "sort (dedup_from [] (map (\<lambda>((_, ip), _). ip) (run_ips d rid))) = observed_ips obs"
    by (simp add: observed_ips_def)
  have "merged_row (obs_at obs ip) = pool_row d ip (map snd (filter (\<lambda>((_, a), _). a = ip) (run_ips d rid)))"
    if "ip \<in> set (observed_ips obs)" for ip
  proof -
    define fx where "fx = filter (\<lambda>((_, a), _). a = ip) xs"
    have at: "obs_at obs ip = map (observation_of d) fx"
    proof -
      have "(\<lambda>((_, a), _). a = ip) = (\<lambda>x :: (uuid \<times> addr) \<times> ip_cols. snd (fst x) = ip)" by auto
      then show ?thesis by (simp add: obs_at_def obs filter_map comp_def fx_def)
    qed
    have ne: "fx \<noteq> []"
    proof
      assume "fx = []"
      then have "obs_at obs ip = []" by (simp add: at)
      with that show False by (simp add: obs_at_Nil_iff)
    qed
    have m: "mset fx = mset (filter (\<lambda>((_, a), _). a = ip) (run_ips d rid))"
      unfolding fx_def by (metis ms mset_filter)
    have "\<forall>x \<in> set fx. snd (fst x) = ip" "\<forall>x \<in> set fx. i_first_seen (snd x) \<noteq> 0"
      using assms(2) set_xs by (auto simp: fx_def)
    from pool_row_merged [OF ne this m] show ?thesis by (simp add: at)
  qed
  then show ?thesis
    by (simp add: pool_rows_def ips BuildPoolReport_spec)
qed

text \<open>
  C30: the streamed pool export and the pool report agree: collecting what \<open>StreamPoolIPs\<close> visits gives
  exactly the address rows \<open>BuildPoolReport\<close> computes from the observations of the same run, whenever
  the observation limit did not cut any off.
\<close>

theorem export_matches_report:
  assumes "\<forall>x \<in> set (run_ips d rid). i_first_seen (snd x) \<noteq> 0"
    and "int (length (run_ips d rid)) \<le> limit" and "0 < limit" and "int32 limit"
    and "RunIPObservations no_faults d rid limit = Inr obs"
  shows "StreamPoolIPs no_faults d rid (\<lambda>row acc. (acc @ [row], None)) []
           = (pr_IPs (BuildPoolReport uni lower unmarshal vs obs), None)"
proof -
  have "obs = map (observation_of d) (sort_key (\<lambda>(_, c). - i_last_seen c) (run_ips d rid))"
    using assms(2-5) by (simp add: RunIPObservations_def no_faults_def observation_of_def [abs_def] comp_def)
  with pool_rows_report [OF assms(1)] show ?thesis
    by (simp add: StreamPoolIPs_def no_faults_def stream_loop_collect)
qed

definition demo_run_db :: db where
  "demo_run_db =
     \<lparr>t_sessions = [demo_row\<lparr>c_run_id := Some 3\<rparr>],
      t_session_ips = [((7, V4 9), \<lparr>i_first_seen = 1000, i_last_seen = 2000, i_hit_count = 4\<rparr>)],
      t_reputation = [], t_runs = []\<rparr>"

theorem export_matches_report_witness:
  "\<exists>obs. StreamPoolIPs no_faults demo_run_db 3 (\<lambda>row acc. (acc @ [row], None)) []
           = (pr_IPs (BuildPoolReport (\<lambda>_ _. False) id (\<lambda>_. []) [] obs), None)"
proof -
  have r: "run_ips demo_run_db 3 = [((7, V4 9), \<lparr>i_first_seen = 1000, i_last_seen = 2000, i_hit_count = 4\<rparr>)]"
    by (simp add: run_ips_def demo_run_db_def)
  then obtain obs where o: "RunIPObservations no_faults demo_run_db 3 100 = Inr obs"
    by (simp add: RunIPObservations_def no_faults_def)
  have "\<forall>x \<in> set (run_ips demo_run_db 3). i_first_seen (snd x) \<noteq> 0" "int (length (run_ips demo_run_db 3)) \<le> 100"
    "(0::int) < 100" "int32 100" by (simp_all add: r int32_def)
  from export_matches_report [OF this o] show ?thesis by blast
qed


subsection \<open>What is created is what is read back\<close>

text \<open>Sessions the columns can hold: whole seconds and milliseconds, 32-bit counters, microsecond times.\<close>

definition whole :: "duration \<Rightarrow> duration \<Rightarrow> bool" where
  "whole u t \<longleftrightarrow> 0 < t \<and> t mod u = 0 \<and> int32 (t div u)"

definition storable :: "session \<Rightarrow> bool" where
  "storable s \<longleftrightarrow> whole second (Cadence s) \<and> 1 \<le> ProbesPerSample s \<and> ProbesPerSample s \<le> 255
     \<and> whole millisecond (DialTimeout s)
     \<and> (\<forall>m \<in> set_option (MaxSamples s). 0 < m \<and> int32 m)
     \<and> (\<forall>m \<in> set_option (MaxDuration s). whole second m)
     \<and> int32 (SequenceOffset s) \<and> s_Snapshot s = zero_snapshot
     \<and> s_CreatedAt s mod 1000 = 0 \<and> (\<forall>t \<in> set_option (StartedAt s). t mod 1000 = 0)
     \<and> (\<forall>t \<in> set_option (StoppedAt s). t mod 1000 = 0)"

lemma whole_roundtrip:
  assumes "whole u t" and "0 < u"
  shows "wrap32 (go_div t u) * u = t" and "0 < wrap32 (go_div t u)"
proof -
  have g: "wrap32 (go_div t u) = t div u" using assms by (simp add: whole_def go_div_nonneg)
  have e: "t div u * u = t" using assms by (simp add: whole_def mult.commute minus_mod_eq_mult_div [symmetric])
  then show "wrap32 (go_div t u) * u = t" by (simp add: g)
  show "0 < wrap32 (go_div t u)" using assms e unfolding g
    by (metis whole_def zero_less_mult_pos2)
qed

lemma storable_row:
  assumes "storable s"
  shows "row_ok (insertSessionParams s)" and "mapSession (insertSessionParams s) [] = s"
proof -
  have u: "0 < second" "0 < millisecond" by (simp_all add: second_def millisecond_def)
  have cad: "durationSeconds (Cadence s) * second = Cadence s" "0 < durationSeconds (Cadence s)"
    using whole_roundtrip [OF _ u(1)] assms by (simp_all add: storable_def durationSeconds_def)
  have dial: "durationMillis32 (DialTimeout s) * millisecond = DialTimeout s" "0 < durationMillis32 (DialTimeout s)"
    using whole_roundtrip [OF _ u(2)] assms by (simp_all add: storable_def durationMillis32_def)
  have dur: "durationSeconds m * second = m" "0 < durationSeconds m" if "MaxDuration s = Some m" for m
    using whole_roundtrip [OF _ u(1)] assms that by (simp_all add: storable_def durationSeconds_def)
  have small: "wrap32 (ProbesPerSample s) = ProbesPerSample s" "wrap32 (SequenceOffset s) = SequenceOffset s"
    "wrap32 0 = 0"
    using assms by (simp_all add: storable_def int32_def)
  have ms: "map_option wrap32 (MaxSamples s) = MaxSamples s"
    using assms by (cases "MaxSamples s") (simp_all add: storable_def)
  have times: "map_option timestamp (StartedAt s) = StartedAt s" "map_option timestamp (StoppedAt s) = StoppedAt s"
    "timestamp (s_CreatedAt s) = s_CreatedAt s"
    using assms by (cases "StartedAt s"; cases "StoppedAt s"; simp add: storable_def timestamp_def)+
  have md: "map_option (\<lambda>s. s * second) (map_option durationSeconds (MaxDuration s)) = MaxDuration s"
    using dur by (cases "MaxDuration s") simp_all
  have snap: "s_Snapshot s = zero_snapshot" using assms by (simp add: storable_def)
  have "int32 0" by (simp add: int32_def)
  then show "row_ok (insertSessionParams s)"
    using assms cad dial dur small ms
    by (auto simp: row_ok_def insertSessionParams_def snap zero_snapshot_def storable_def inet_ok_def)
  show "mapSession (insertSessionParams s) [] = s"
    using cad dial md small ms times
    by (simp add: mapSession_def insertSessionParams_def snap zero_snapshot_def nullif_empty_def stringValue_def
        option.map_comp comp_def)
qed

lemma find_snoc_session: "find P (xs @ [x]) = (case find P xs of Some y \<Rightarrow> Some y | None \<Rightarrow> if P x then Some x else None)"
  by (induction xs) auto

text \<open>
  a session created with values the columns can hold is read back unchanged, by \<open>Create\<close> itself and
  by every later \<open>SessionByID\<close>; creating it a second time fails and changes nothing.
\<close>

theorem Create_roundtrip:
  assumes "storable s" and "find_session d (s_ID s) = None"
  shows "\<exists>d'. Create no_faults d s = (d', Inr s) \<and> SessionByID no_faults d' (s_ID s) = Inr s
     \<and> find_session d' = (find_session d)(s_ID s \<mapsto> insertSessionParams s)
     \<and> fst (Create no_faults d' s) = d' \<and> (\<exists>e. snd (Create no_faults d' s) = Inl e)"
proof -
  note row = storable_row [OF assms(1)]
  define d' where "d' = d\<lparr>t_sessions := t_sessions d @ [insertSessionParams s]\<rparr>"
  have id_: "c_id (insertSessionParams s) = s_ID s" "c_run_id (insertSessionParams s) = None"
    "c_last_primary_ip (insertSessionParams s) = NoAddr"
    using assms(1) by (simp_all add: insertSessionParams_def storable_def zero_snapshot_def)
  have ins: "insert_row (insertSessionParams s) d = Inr d'"
    using row(1) assms(2) by (simp add: insert_row_def id_ d'_def)
  have found: "find_session d' x = (if x = s_ID s then Some (insertSessionParams s) else find_session d x)" for x
    using assms(2) by (auto simp: find_session_def d'_def find_snoc_session id_ split: option.splits)
  have cat: "last_category d' (insertSessionParams s) = []" by (simp add: last_category_def id_)
  have byid: "SessionByID f d' (s_ID s) = Inr s" if "f 0 = None" for f
    using that by (simp add: SessionByID_def found cat row(2))
  have "Create no_faults d s = (d', Inr s)"
    using ins byid by (simp add: Create_def no_faults_def)
  moreover have "insert_row (insertSessionParams s) d' = Inl (sql_error ''duplicate key'')"
    by (simp add: insert_row_def id_ found)
  then have "Create no_faults d' s = (d', Inl (Wrapped ''insert session'' (sql_error ''duplicate key'')))"
    by (simp add: Create_def no_faults_def)
  ultimately show ?thesis using byid found by (auto simp: no_faults_def fun_eq_iff)
qed

lemma demo_storable: "storable demo_session"
  by (simp add: storable_def demo_session_def whole_def second_def millisecond_def int32_def)

theorem Create_roundtrip_witness: "\<exists>d'. Create no_faults empty_db demo_session = (d', Inr demo_session)"
  using Create_roundtrip [OF demo_storable, of empty_db] by (auto simp: find_session_def empty_db_def)


definition demo_named_db :: db where
  "demo_named_db =
     \<lparr>t_sessions = [demo_row\<lparr>c_run_id := Some 3, c_name_customized := False\<rparr>], t_session_ips = [], t_reputation = [],
      t_runs = [\<lparr>run_ID = 3, run_Name = ''old'', TemplateCiphertext = [], TemplateNonce = [], TemplateDisplay = [],
                run_Axes = [], run_CreatedAt = 0\<rparr>]\<rparr>"

theorem RenameRun_names_witness:
  "\<exists>d'. RenameRun (\<lambda>_. Some []) id no_faults demo_named_db 3 ''new'' = (d', None)
     \<and> map c_name (t_sessions d') = [''new''] \<and> map run_Name (t_runs d') = [''new'']"
proof -
  have ok: "db_ok demo_named_db" using demo_row_ok by (simp add: db_ok_def demo_named_db_def row_ok_def)
  have "snd (RenameRun (\<lambda>_. Some []) id no_faults demo_named_db 3 ''new'') = None"
    using demo_row_ok
    by (simp add: RenameRun_def no_faults_def demo_named_db_def ordered_children_def children_of_def Let_def
        update_session_def update_rows_def row_ok_def)
  then obtain d' where d': "RenameRun (\<lambda>_. Some []) id no_faults demo_named_db 3 ''new'' = (d', None)"
    by (metis prod.collapse)
  from RenameRun_names [OF d' ok]
  have "map c_name (t_sessions d') = [''new''] \<and> map run_Name (t_runs d') = [''new'']"
    by (simp add: demo_named_db_def renamed_def child_params_def VariantName_def)
  with d' show ?thesis by (intro exI [of _ d'] conjI) simp_all
qed



subsection \<open>The store contract\<close>


definition seq_view :: "db \<Rightarrow> uuid \<Rightarrow> seq_state option" where
  "seq_view d sid = map_option (\<lambda>r. (c_status r, c_sequence_offset r, c_samples_taken r)) (find_session d sid)"

lemma keeps_numbers:
  assumes "(e \<noteq> None \<and> d' = d) \<or> (e = None \<and> (\<exists>n. update_session f P g d = Inr (d', n) \<and> 0 < n))"
    and "same_keys g" and "db_ok d"
    and "\<And>r. c_sequence_offset (g r) + c_samples_taken (g r) = c_sequence_offset r + c_samples_taken r"
  shows "db_ok d' \<and> numbered (seq_view d' s) = numbered (seq_view d s)"
proof (cases e)
  case None
  with assms(1) obtain n where u: "update_session f P g d = Inr (d', n)" by auto
  from find_update(1) [OF u assms(2), of s] update_session_ok [OF u assms(3,2)] assms(4) show ?thesis
    by (cases "find_session d s") (auto simp: seq_view_def numbered_def)
qed (use assms in auto)

interpretation postgres: session_store db_ok seq_view SaveTick Stop Finish Reenable
proof
  fix f d sid snap hits d' s
  assume st: "SaveTick f d sid snap hits = (d', None)" and ok: "db_ok d"
    and n: "0 \<le> SamplesTaken snap" "SamplesTaken snap < 2 ^ 31"
  have "db_ok d'" using apply_op_ok [OF ok, of "\<lambda>_. None" id f "DoSaveTick sid snap hits"] st by simp
  moreover have "int32 (SamplesTaken snap)" using n by (simp add: int32_def)
  ultimately show "db_ok d' \<and> seq_view d' s =
        (if s = sid then map_option (\<lambda>(st, offset, _). (st, offset, SamplesTaken snap)) (seq_view d s) else seq_view d s)"
    using SaveTick_ok(2) [OF st, of s]
    by (cases "s = sid"; cases "find_session d s") (simp_all add: seq_view_def snapshot_row_def)
next
  fix f d sid snap hits d' e
  assume "SaveTick f d sid snap hits = (d', Some e)"
  from SaveTick_cases [OF this] show "d' = d" by simp
next
  fix f d sid now d' e s
  assume "Stop f d sid now = (d', e)" and ok: "db_ok d"
  from keeps_numbers [OF Stop_cases [OF this(1)] _ ok]
  show "db_ok d' \<and> numbered (seq_view d' s) = numbered (seq_view d s)" by simp
next
  fix f d sid now d' e s
  assume "Finish f d sid now = (d', e)" and ok: "db_ok d"
  from keeps_numbers [OF Finish_cases [OF this(1)] _ ok]
  show "db_ok d' \<and> numbered (seq_view d' s) = numbered (seq_view d s)" by simp
next
  fix f d sid now d' e s
  assume "Reenable f d sid now = (d', e)" and ok: "db_ok d"
  from keeps_numbers [OF Reenable_cases [OF this(1)] _ ok]
  show "db_ok d' \<and> numbered (seq_view d' s) = numbered (seq_view d s)" by (simp add: reenable_row_def)
qed

text \<open>
  C32: however a session is ticked, stopped, finished and re-enabled, and whatever statements fail, the
  event numbers it emits are consecutive: they start right after the number its row accounts for and
  none is skipped or repeated across re-enables.
\<close>

theorem event_numbers_consecutive:
  assumes "db_ok d" and "postgres.lives sid xs d = (ns, d')"
  shows "ns = [numbered (seq_view d sid) + 1..numbered (seq_view d' sid)] \<and> sorted_wrt (<) ns \<and> db_ok d'"
  using postgres.lives_numbers [OF assms(2,1)] by simp

theorem event_numbers_consecutive_witness:
  "fst (postgres.lives 7 [LifeTick no_faults (zero_snapshot\<lparr>SamplesTaken := 1\<rparr>) [], LifeStop no_faults 5000] demo_db) = [1]"
proof -
  let ?xs = "[LifeTick no_faults (zero_snapshot\<lparr>SamplesTaken := 1\<rparr>) [], LifeStop no_faults 5000]"
  obtain ns d' where l: "postgres.lives 7 ?xs demo_db = (ns, d')" by fastforce
  have v: "seq_view demo_db 7 = Some (StatusRunning, 0, 0)" by (simp add: seq_view_def demo_find)
  have "\<exists>d1. SaveTick no_faults demo_db 7 (zero_snapshot\<lparr>SamplesTaken := 1\<rparr>) [] = (d1, None)"
    using demo_row_ok
    by (simp add: SaveTick_def no_faults_def update_session_def update_rows_def demo_db_def row_ok_def
        snapshot_row_def zero_snapshot_def inet_ok_def)
  then obtain d1 where "SaveTick no_faults demo_db 7 (zero_snapshot\<lparr>SamplesTaken := 1\<rparr>) [] = (d1, None)" ..
  then have "ns = [1]" using l by (simp add: v)
  moreover have "ns = [1..numbered (seq_view d' 7)]"
    using event_numbers_consecutive [OF demo_db_ok l] by (simp add: v numbered_def)
  ultimately show ?thesis using l by simp
qed

end
