(* ===== verification/Schedules.thy ===== *)
theory Schedules
  imports Prelude
begin

text \<open>
  What the concurrent parts of the program share. The goroutines of a component are a list of local
  states, a step replaces one of them. The locale states that every step uses up some of the work still
  ahead; the client lemma bounds every schedule by the work at its start.
\<close>

lemma replace_count:
  assumes "i < length xs" and "xs ! i = x"
  shows "int (length (filter P (xs[i := y]))) = int (length (filter P xs)) - (if P x then 1 else 0) + (if P y then 1 else 0)"
proof -
  have "filter P xs = filter P (take i xs) @ filter P (x # drop (Suc i) xs)"
    using assms by (metis append_take_drop_id filter_append Cons_nth_drop_Suc)
  then show ?thesis using assms by (simp add: upd_conv_take_nth_drop)
qed

lemma sum_list_replace:
  fixes f :: "'a \<Rightarrow> nat"
  assumes "i < length xs"
  shows "sum_list (map f (xs[i := y])) + f (xs ! i) = sum_list (map f xs) + f y"
proof -
  have "sum_list (map f xs) = sum_list (map f (take i xs)) + (f (xs ! i) + sum_list (map f (drop (Suc i) xs)))"
    using assms by (subst id_take_nth_drop [of i xs]) simp_all
  then show ?thesis using assms by (simp add: upd_conv_take_nth_drop)
qed

lemma sum_list_replace_less:
  fixes f :: "'a \<Rightarrow> nat"
  assumes "i < length xs" and "f y < f (xs ! i)"
  shows "sum_list (map f (xs[i := y])) < sum_list (map f xs)"
  using sum_list_replace [OF assms(1), of f y] assms(2) by simp

locale bounded_steps =
  fixes step :: "'s \<Rightarrow> 's \<Rightarrow> bool" and work :: "'s \<Rightarrow> nat"
  assumes step_work: "step s s' \<Longrightarrow> work s' < work s"
begin

lemma runs_bounded: "(step ^^ n) s s' \<Longrightarrow> n + work s' \<le> work s"
proof (induction n arbitrary: s')
  case (Suc n)
  then obtain r where "(step ^^ n) s r" "step r s'" by auto
  with Suc.IH step_work show ?case by fastforce
qed simp

end

end
