(* ===== verification/Worker.thy ===== *)
theory Worker
  imports Schedules Aggregate Events Contracts
begin

text \<open>
  \<open>internal/sampler/worker.go\<close>: one session's sampling worker. What it calls is passed in: the store's
  \<open>save\<close> and \<open>finish\<close>, the reputation \<open>lookup\<close> (a function on a service state \<open>'l\<close>), the event sink's
  \<open>enqueue\<close>. The clock readings, the probe results and the answers of the context are the inputs of a
  round; \<open>'f\<close> decides which store statements fail.
\<close>

subsection \<open>State\<close>

record prepared_worker =
  pw_session :: session
  pw_seen :: "addr set"
  pw_previousPrimary :: addr
  pw_sampleSeq :: "32 word"

record ('d, 'q, 'l) world =
  w_store :: 'd
  w_sink :: 'q
  w_lookup :: 'l
  w_dropped :: int

type_synonym 'l lookup = "addr \<Rightarrow> 'l \<Rightarrow> (reputation \<times> go_error option) \<times> 'l"

definition terminalTransitionRetry :: duration where "terminalTransitionRetry = second"
definition unknownPrimaryCategory :: string where "unknownPrimaryCategory = ''unknown''"
definition maxConcurrentProbes :: nat where "maxConcurrentProbes = 8"


subsection \<open>Preparation\<close>

text \<open>
  \<open>Prepare\<close>: decrypting, building the dialer and listing the known addresses may fail (\<open>dec\<close>, \<open>dial\<close>,
  \<open>records\<close> are their outcomes); the stored sample count becomes the 32-bit sequence.
\<close>

definition Prepare :: "string result \<Rightarrow> (string \<Rightarrow> 'c result) \<Rightarrow> ip_record list result \<Rightarrow> session \<Rightarrow> (prepared_worker \<times> 'c) result" where
  "Prepare dec dial records s =
     (case dec of
        Inl e \<Rightarrow> Inl (Wrapped ''prepare session'' e)
      | Inr proxyURL \<Rightarrow>
     (case dial proxyURL of
        Inl e \<Rightarrow> Inl (Wrapped ''prepare session dialer'' e)
      | Inr dialer \<Rightarrow>
     (case records of
        Inl e \<Rightarrow> Inl (Wrapped ''prepare session seen IPs'' e)
      | Inr rs \<Rightarrow>
          (let seen = (\<lambda>r. unmap (ir_IP r)) ` {r \<in> set rs. is_valid (ir_IP r)};
               sequence0 = SamplesTaken (s_Snapshot s);
               sequence1 = (if sequence0 < 0 then 0 else sequence0);
               sequence2 = (if sequence1 > 2 ^ 32 - 1 then 2 ^ 32 - 1 else sequence1)
           in Inr (\<lparr>pw_session = s, pw_seen = seen, pw_previousPrimary = LastPrimaryIP (s_Snapshot s),
                    pw_sampleSeq = word_of_int sequence2\<rparr>, dialer)))))"


subsection \<open>Events\<close>

definition addrIP :: "addr \<Rightarrow> addr" where
  "addrIP a = (case unmap a of V6 w _ \<Rightarrow> V6 w [] | x \<Rightarrow> x)"

definition durationMillis :: "duration \<Rightarrow> 32 word" where
  "durationMillis d =
     (if d \<le> 0 then 0
      else let millis = go_div d millisecond in
           if millis > 2 ^ 32 - 1 then word_of_int (2 ^ 32 - 1) else word_of_int millis)"

definition riskByte :: "int option \<Rightarrow> 8 word" where
  "riskByte r =
     (case r of None \<Rightarrow> 0
      | Some n \<Rightarrow> if n \<le> 0 then 0 else if n > 255 then 255 else word_of_int n)"

definition boolByte :: "bool \<Rightarrow> 8 word" where
  "boolByte b = (if b then 1 else 0)"

definition sampleEvent :: "uuid \<Rightarrow> time \<Rightarrow> 32 word \<Rightarrow> sample \<Rightarrow> reputation \<Rightarrow> event" where
  "sampleEvent sid t sequence s rep =
     (let category = (if Category rep = [] then unknownPrimaryCategory else Category rep) in
      \<lparr>e_SessionID = sid, e_SampledAt = t, e_SampleSeq = sequence,
       e_ProbesAttempted = word_of_int (ProbesAttempted s), e_ProbesOK = word_of_int (ProbesOK s),
       e_PrimaryIP = addrIP (PrimaryIP s), e_DistinctIPs = word_of_int (DistinctIPs s),
       e_IPChanged = boolByte (IPChanged s), e_NewIPs = word_of_int (NewIPs s),
       e_RTTMinMS = durationMillis (RTTMin s), e_RTTMedMS = durationMillis (RTTMed s),
       e_RTTMaxMS = durationMillis (RTTMax s), e_EgressCountry = EgressCountry s,
       e_PrimaryCategory = category, e_PrimaryRisk = riskByte (RiskScore rep),
       e_ProbeIPs = map addrIP (ProbeIPs s), e_ProbeRTTsMS = map durationMillis (ProbeRTTs s),
       e_ProbeOK = map boolByte (ProbeOK s), e_Error = Error s\<rparr>)"


subsection \<open>One tick\<close>

text \<open>The hits of a tick: each unmapped probe address once, in probe order.\<close>

fun tick_hits :: "sample \<Rightarrow> time \<Rightarrow> addr set \<Rightarrow> addr list \<Rightarrow> ip_hit list" where
  "tick_hits s t added [] = []"
| "tick_hits s t added (ip # ips) =
     (if \<not> is_valid ip then tick_hits s t added ips
      else let ip' = unmap ip in
           if ip' \<in> added then tick_hits s t added ips
           else \<lparr>h_IP = ip', SeenAt = t, Hits = count_of (IPHits s) ip'\<rparr> # tick_hits s t (insert ip' added) ips)"

fun enrich_loop :: "'l lookup \<Rightarrow> (addr, reputation) gomap \<Rightarrow> addr list \<Rightarrow> 'l \<Rightarrow> (addr, reputation) gomap \<times> 'l" where
  "enrich_loop lookup res [] l = (res, l)"
| "enrich_loop lookup res (ip # ips) l =
     (if \<not> is_valid ip then enrich_loop lookup res ips l
      else let ip' = unmap ip in
           if map_of res ip' \<noteq> None then enrich_loop lookup res ips l
           else (case lookup ip' l of
                   ((rep, err), l') \<Rightarrow>
                     enrich_loop lookup
                       (AList.update ip' (if Category rep = [] then rep\<lparr>Category := unknownPrimaryCategory\<rparr> else rep) res)
                       ips l'))"

definition next_seen :: "prepared_worker \<Rightarrow> ip_hit list \<Rightarrow> addr set" where
  "next_seen p hits = pw_seen p \<union> h_IP ` set hits"

definition next_snapshot :: "prepared_worker \<Rightarrow> time \<Rightarrow> sample \<Rightarrow> (addr, reputation) gomap \<Rightarrow> ip_hit list \<Rightarrow> snapshot" where
  "next_snapshot p sampledAt s reputations hits =
     \<lparr>SamplesTaken = uint (pw_sampleSeq p + 1),
      sn_ProbesOK = sn_ProbesOK (s_Snapshot (pw_session p)) + ProbesOK s,
      ProbesTotal = ProbesTotal (s_Snapshot (pw_session p)) + ProbesAttempted s,
      sn_DistinctIPs = int (card (next_seen p hits)),
      LastSampleAt = Some sampledAt,
      LastPrimaryIP = (if is_valid (PrimaryIP s) then PrimaryIP s else pw_previousPrimary p),
      LastCategory = (case map_of reputations (PrimaryIP s) of
                        Some r \<Rightarrow> Category r | None \<Rightarrow> LastCategory (s_Snapshot (pw_session p))),
      LastRTT = (if ProbesOK s > 0 then Some (RTTMed s) else None),
      LastError = Error s\<rparr>"

definition tick ::
  "'l lookup \<Rightarrow> ('f \<Rightarrow> 'd \<Rightarrow> uuid \<Rightarrow> snapshot \<Rightarrow> ip_hit list \<Rightarrow> 'd \<times> go_error option) \<Rightarrow>
   (event \<Rightarrow> 'q \<Rightarrow> bool \<times> 'q) \<Rightarrow> 'f \<Rightarrow> time \<Rightarrow> probe_result list \<Rightarrow>
   prepared_worker \<Rightarrow> ('d, 'q, 'l) world \<Rightarrow> prepared_worker \<times> ('d, 'q, 'l) world \<times> go_error option" where
  "tick lookup save enqueue f sampledAt results p w =
     (let s = Aggregate results (pw_previousPrimary p) (pw_seen p);
          (reputations, l) = enrich_loop lookup [] (ProbeIPs s) (w_lookup w);
          w1 = w\<lparr>w_lookup := l\<rparr>;
          hits = tick_hits s sampledAt {} (ProbeIPs s);
          nextSequence = pw_sampleSeq p + 1;
          clickhouseSequence = word_of_int (SequenceOffset (pw_session p)) + nextSequence;
          snap = next_snapshot p sampledAt s reputations hits;
          rep = (case map_of reputations (PrimaryIP s) of Some r \<Rightarrow> r | None \<Rightarrow> zero_reputation);
          event = sampleEvent (s_ID (pw_session p)) sampledAt clickhouseSequence s rep
      in case save f (w_store w1) (s_ID (pw_session p)) snap hits of
           (d, Some e) \<Rightarrow> (p, w1\<lparr>w_store := d\<rparr>, Some e)
         | (d, None) \<Rightarrow>
             (let p' = \<lparr>pw_session = (pw_session p)\<lparr>s_Snapshot := snap\<rparr>, pw_seen = next_seen p hits,
                        pw_previousPrimary = LastPrimaryIP snap, pw_sampleSeq = nextSequence\<rparr>
              in case enqueue event (w_sink w1) of
                   (True, q) \<Rightarrow> (p', w1\<lparr>w_store := d, w_sink := q\<rparr>, None)
                 | (False, q) \<Rightarrow> (p', w1\<lparr>w_store := d, w_sink := q, w_dropped := w_dropped w1 + 1\<rparr>, None)))"


subsection \<open>The sampling loop\<close>

definition maxSamplesReached :: "prepared_worker \<Rightarrow> bool" where
  "maxSamplesReached p =
     (case MaxSamples (pw_session p) of None \<Rightarrow> False | Some m \<Rightarrow> uint (pw_sampleSeq p) \<ge> m)"

definition capReached :: "prepared_worker \<Rightarrow> time \<Rightarrow> bool" where
  "capReached p now =
     (if maxSamplesReached p then True
      else (case (MaxDuration (pw_session p), StartedAt (pw_session p)) of
              (Some md, Some st) \<Rightarrow> time_sub now st \<ge> md
            | _ \<Rightarrow> False))"

text \<open>One attempt of \<open>finish\<close>, and one turn of the loop in \<open>Run\<close>, with what the environment answers.\<close>

record 'f attempt =
  at_fault :: 'f
  at_now :: time
  at_cancelled :: bool
  at_done :: bool

record 'f round =
  rd_cancelled :: bool
  rd_now :: time
  rd_sampledAt :: time
  rd_results :: "probe_result list"
  rd_fault :: 'f
  rd_cancelled_after :: bool
  rd_now_after :: time
  rd_done :: bool
  rd_attempts :: "'f attempt list"

fun finish_loop ::
  "('f \<Rightarrow> 'd \<Rightarrow> uuid \<Rightarrow> time \<Rightarrow> 'd \<times> go_error option) \<Rightarrow> uuid \<Rightarrow> 'f attempt list \<Rightarrow> 'd \<Rightarrow> 'd \<times> bool" where
  "finish_loop finish sid [] d = (d, False)"
| "finish_loop finish sid (a # as) d =
     (case finish (at_fault a) d sid (at_now a) of
        (d', None) \<Rightarrow> (d', True)
      | (d', Some e) \<Rightarrow> if at_cancelled a then (d', True)
                     else if at_done a then (d', True)
                     else finish_loop finish sid as d')"

datatype run_end = RunCancelled | RunFinishing bool | RunSampling

fun Run ::
  "'l lookup \<Rightarrow> ('f \<Rightarrow> 'd \<Rightarrow> uuid \<Rightarrow> snapshot \<Rightarrow> ip_hit list \<Rightarrow> 'd \<times> go_error option) \<Rightarrow>
   ('f \<Rightarrow> 'd \<Rightarrow> uuid \<Rightarrow> time \<Rightarrow> 'd \<times> go_error option) \<Rightarrow> (event \<Rightarrow> 'q \<Rightarrow> bool \<times> 'q) \<Rightarrow>
   'f round list \<Rightarrow> prepared_worker \<Rightarrow> ('d, 'q, 'l) world \<Rightarrow> prepared_worker \<times> ('d, 'q, 'l) world \<times> run_end" where
  "Run lookup save finish enqueue [] p w = (p, w, RunSampling)"
| "Run lookup save finish enqueue (rd # rds) p w =
     (let sid = s_ID (pw_session p);
          finished = (\<lambda>p w. case finish_loop finish sid (rd_attempts rd) (w_store w) of
                        (d, over) \<Rightarrow> (p, w\<lparr>w_store := d\<rparr>, RunFinishing over))
      in if rd_cancelled rd then (p, w, RunCancelled)
         else if capReached p (rd_now rd) then finished p w
         else (case tick lookup save enqueue (rd_fault rd) (rd_sampledAt rd) (rd_results rd) p w of
                 (p', w', err) \<Rightarrow>
                   if rd_cancelled_after rd then (p', w', RunCancelled)
                   else if err = None \<and> capReached p' (rd_now_after rd) then finished p' w'
                   else if rd_done rd then (p', w', RunCancelled)
                   else Run lookup save finish enqueue rds p' w'))"


subsection \<open>Concurrent probing\<close>

text \<open>
  \<open>runOrderedProbes\<close>: one goroutine per index waits for one of \<open>limit\<close> semaphore units (or the context's
  end), probes, and writes its own slot.
\<close>

datatype phase = Waiting | Probing | Finished

record probe_pool =
  pool_results :: "probe_result list"
  pool_phases :: "phase list"

definition zero_result :: probe_result where
  "zero_result = \<lparr>pb_IP = NoAddr, pb_Country = [], pb_Colo = [], pb_RTT = 0, pb_Err = None\<rparr>"

definition probe_count :: "session \<Rightarrow> nat" where
  "probe_count s = (let count0 = (if ProbesPerSample s < 0 then 0 else ProbesPerSample s);
                        count1 = (if count0 > int maxUInt8Value then int maxUInt8Value else count0)
                    in nat count1)"

definition probe_limit :: "nat \<Rightarrow> nat" where
  "probe_limit n = (if n > maxConcurrentProbes then maxConcurrentProbes else n)"

definition start_pool :: "nat \<Rightarrow> probe_pool" where
  "start_pool n = \<lparr>pool_results = replicate n zero_result, pool_phases = replicate n Waiting\<rparr>"

definition probing :: "probe_pool \<Rightarrow> nat" where
  "probing q = length (filter (\<lambda>x. x = Probing) (pool_phases q))"

inductive pool_step :: "nat \<Rightarrow> (nat \<Rightarrow> probe_result) \<Rightarrow> go_error option \<Rightarrow> probe_pool \<Rightarrow> probe_pool \<Rightarrow> bool"
  for limit outcome ctxErr where
  acquire: "i < length (pool_phases q) \<Longrightarrow> pool_phases q ! i = Waiting \<Longrightarrow> probing q < limit \<Longrightarrow>
      pool_step limit outcome ctxErr q (q\<lparr>pool_phases := (pool_phases q)[i := Probing]\<rparr>)"
| give_up: "i < length (pool_phases q) \<Longrightarrow> pool_phases q ! i = Waiting \<Longrightarrow> ctxErr = Some e \<Longrightarrow>
      pool_step limit outcome ctxErr q (q\<lparr>pool_phases := (pool_phases q)[i := Finished],
        pool_results := (pool_results q)[i := zero_result\<lparr>pb_Err := Some e\<rparr>]\<rparr>)"
| probe: "i < length (pool_phases q) \<Longrightarrow> pool_phases q ! i = Probing \<Longrightarrow>
      pool_step limit outcome ctxErr q (q\<lparr>pool_phases := (pool_phases q)[i := Finished],
        pool_results := (pool_results q)[i := outcome i]\<rparr>)"

inductive_cases pool_stepE: "pool_step limit outcome ctxErr q q'"

definition pool_done :: "probe_pool \<Rightarrow> bool" where
  "pool_done q \<longleftrightarrow> set (pool_phases q) \<subseteq> {Finished}"

subsection \<open>Encoding a sample\<close>

lemma uint_of_int32: "0 \<le> n \<Longrightarrow> n < 2 ^ 32 \<Longrightarrow> uint (word_of_int n :: 32 word) = n"
  by (simp add: uint_word_of_int)

lemma uint_of_int8: "0 \<le> n \<Longrightarrow> n < 256 \<Longrightarrow> uint (word_of_int n :: 8 word) = n"
  by (simp add: uint_word_of_int)

lemma uint_durationMillis: "uint (durationMillis d) = min (max 0 (d div millisecond)) (2 ^ 32 - 1)"
proof (cases "d \<le> 0")
  case True
  then have "d div millisecond \<le> 0" by (simp add: millisecond_def)
  with True show ?thesis by (simp add: durationMillis_def max_def)
next
  case False
  then have g: "go_div d millisecond = d div millisecond" and nn: "0 \<le> d div millisecond"
    by (simp_all add: go_div_nonneg millisecond_def pos_imp_zdiv_nonneg_iff)
  show ?thesis
  proof (cases "d div millisecond > 2 ^ 32 - 1")
    case True
    with False g show ?thesis by (simp add: durationMillis_def Let_def uint_of_int32 min_def max_def)
  next
    case small: False
    with False g nn show ?thesis by (simp add: durationMillis_def Let_def uint_of_int32 min_def max_def)
  qed
qed

lemma uint_riskByte: "uint (riskByte r) = (case r of None \<Rightarrow> 0 | Some n \<Rightarrow> min (max 0 n) 255)"
  by (auto simp: riskByte_def uint_of_int8 split: option.splits)

lemma uint_boolByte: "uint (boolByte b) = (if b then 1 else 0)"
  by (simp add: boolByte_def)

lemma base_fields:
  fixes results previous seen
  defines "s \<equiv> Aggregate results previous seen" and "b \<equiv> base_sample results previous seen"
  shows "ProbesAttempted s = ProbesAttempted b" "ProbesOK s = ProbesOK b" "DistinctIPs s = DistinctIPs b"
    "NewIPs s = NewIPs b" "IPHits s = IPHits b" "ProbeIPs s = ProbeIPs b" "ProbeRTTs s = ProbeRTTs b" "ProbeOK s = ProbeOK b"
  unfolding s_def b_def Aggregate_base by simp_all

lemma agg_counts:
  fixes results previous seen
  defines "s \<equiv> Aggregate results previous seen"
  shows "ProbesAttempted s = int (min 255 (length results))" "0 \<le> ProbesOK s" "ProbesOK s \<le> ProbesAttempted s"
    "0 \<le> DistinctIPs s" "DistinctIPs s \<le> 255" "0 \<le> NewIPs s" "NewIPs s \<le> 255"
    "length (ProbeIPs s) = min 255 (length results)" "length (ProbeRTTs s) = min 255 (length results)"
    "length (ProbeOK s) = min 255 (length results)"
    "ProbeIPs s = map (\<lambda>r. if res_ok r then pb_IP r else NoAddr) (take 255 results)"
    "ProbesOK s = int (length (good results))"
    "gomap (IPHits s)" "count_of (IPHits s) = hits_in (map pb_IP (good results))"
proof -
  note f = base_fields [of results previous seen, folded s_def]
  have len: "length (good results) \<le> min 255 (length results)"
    unfolding good_def by (metis length_filter_le length_take min.commute)
  show "ProbesAttempted s = int (min 255 (length results))" unfolding f by (simp add: base_sample_def Let_def min.commute)
  moreover show pok: "ProbesOK s = int (length (good results))" unfolding f by (simp add: base_sample_def Let_def)
  ultimately show "0 \<le> ProbesOK s" "ProbesOK s \<le> ProbesAttempted s" using len by simp_all
  have d: "DistinctIPs s = int (card (set (map pb_IP (good results))))" unfolding f by (simp add: base_sample_def Let_def)
  have n: "NewIPs s = int (card (set (map pb_IP (good results)) - seen))" unfolding f by (simp add: base_sample_def Let_def)
  have "card (set (map pb_IP (good results))) \<le> 255"
    using card_length [of "map pb_IP (good results)"] len by simp
  moreover have "card (set (map pb_IP (good results)) - seen) \<le> card (set (map pb_IP (good results)))"
    by (rule card_mono) auto
  ultimately show "0 \<le> DistinctIPs s" "DistinctIPs s \<le> 255" "0 \<le> NewIPs s" "NewIPs s \<le> 255"
    unfolding d n by simp_all
  show ips: "ProbeIPs s = map (\<lambda>r. if res_ok r then pb_IP r else NoAddr) (take 255 results)"
    unfolding f by (simp add: base_sample_def Let_def)
  show "length (ProbeIPs s) = min 255 (length results)" unfolding ips by (simp add: min.commute)
  show "length (ProbeRTTs s) = min 255 (length results)" "length (ProbeOK s) = min 255 (length results)"
    unfolding f by (simp_all add: base_sample_def Let_def min.commute)
  define st where "st = foldl agg_step empty_agg (take 255 results)"
  note ok = agg_loop [OF st_def [symmetric], folded good_def]
  have hits: "IPHits s = ag_hits st" unfolding f by (simp add: base_sample_def Let_def st_def)
  show "gomap (IPHits s)" unfolding hits using ok by blast
  show "count_of (IPHits s) = hits_in (map pb_IP (good results))" unfolding hits by (rule ext) (use ok in blast)
qed

lemma sampleEvent_valid: "validEvent (sampleEvent sid t sq (Aggregate results previous seen) rep)"
proof -
  have "unat (word_of_int (int (min 255 (length results))) :: 8 word) = min 255 (length results)"
    using uint_of_int8 [of "int (min 255 (length results))"] by (simp add: unat_eq_nat_uint)
  then show ?thesis
    unfolding validEvent_def sampleEvent_def Let_def using agg_counts(1,8-10) [of results previous seen] by simp
qed

text \<open>
  encoding a sample as an event loses nothing: every counter fits its byte, the three probe arrays
  have the announced length (so the writer never rejects the event as malformed), durations become
  milliseconds saturating at the 32-bit maximum and the risk score is clamped to a byte.
\<close>

theorem event_encoding:
  fixes results previous seen sid t sq rep
  defines "s \<equiv> Aggregate results previous seen" and "e \<equiv> sampleEvent sid t sq (Aggregate results previous seen) rep"
  shows "validEvent e \<and> e_SampleSeq e = sq
     \<and> uint (e_ProbesAttempted e) = ProbesAttempted s \<and> uint (e_ProbesOK e) = ProbesOK s
     \<and> uint (e_DistinctIPs e) = DistinctIPs s \<and> uint (e_NewIPs e) = NewIPs s
     \<and> uint (e_RTTMedMS e) = min (max 0 (RTTMed s div millisecond)) (2 ^ 32 - 1)
     \<and> map uint (e_ProbeRTTsMS e) = map (\<lambda>d. min (max 0 (d div millisecond)) (2 ^ 32 - 1)) (ProbeRTTs s)
     \<and> map uint (e_ProbeOK e) = map (\<lambda>b. if b then 1 else 0) (ProbeOK s)
     \<and> uint (e_PrimaryRisk e) = (case RiskScore rep of None \<Rightarrow> 0 | Some n \<Rightarrow> min (max 0 n) 255)"
proof -
  note c = agg_counts [of results previous seen, folded s_def]
  have le: "ProbesAttempted s \<le> 255" "0 \<le> ProbesAttempted s" unfolding c(1) by simp_all
  have "validEvent e" unfolding e_def by (rule sampleEvent_valid)
  moreover have "uint (e_ProbesAttempted e) = ProbesAttempted s" "uint (e_ProbesOK e) = ProbesOK s"
    "uint (e_DistinctIPs e) = DistinctIPs s" "uint (e_NewIPs e) = NewIPs s"
    using c(2-7) le by (simp_all add: e_def s_def [symmetric] sampleEvent_def Let_def uint_of_int8)
  ultimately show ?thesis
    by (simp add: e_def s_def [symmetric] sampleEvent_def Let_def uint_durationMillis uint_riskByte uint_boolByte comp_def)
qed


subsection \<open>Hits\<close>

lemma tick_hits_ok:
  "h_IP ` set (tick_hits s t added ips) = unmap ` {ip \<in> set ips. is_valid ip} - added
   \<and> distinct (map h_IP (tick_hits s t added ips))
   \<and> (\<forall>h \<in> set (tick_hits s t added ips). SeenAt h = t \<and> Hits h = count_of (IPHits s) (h_IP h))"
proof (induction ips arbitrary: added)
  case (Cons ip ips)
  show ?case
  proof (cases "is_valid ip \<and> unmap ip \<notin> added")
    case True
    have "h_IP ` set (tick_hits s t added (ip # ips))
        = insert (unmap ip) (unmap ` {ip \<in> set ips. is_valid ip} - insert (unmap ip) added)"
      using True Cons [of "insert (unmap ip) added"] by (simp add: Let_def)
    also have "\<dots> = unmap ` {x \<in> set (ip # ips). is_valid x} - added" using True by auto
    finally have img: "h_IP ` set (tick_hits s t added (ip # ips)) = unmap ` {x \<in> set (ip # ips). is_valid x} - added" .
    have "unmap ip \<notin> h_IP ` set (tick_hits s t (insert (unmap ip) added) ips)"
      using Cons [of "insert (unmap ip) added"] by blast
    with True img Cons [of "insert (unmap ip) added"] show ?thesis by (simp add: Let_def)
  next
    case False
    then have "unmap ` {x \<in> set (ip # ips). is_valid x} - added = unmap ` {ip \<in> set ips. is_valid ip} - added" by auto
    with False Cons [of added] show ?thesis by (auto simp: Let_def)
  qed
qed simp

lemma valid_probe_ips:
  "{ip \<in> set (map (\<lambda>r. if res_ok r then pb_IP r else NoAddr) rs). is_valid ip} = pb_IP ` set (filter res_ok rs)"
  by (auto simp: res_ok_def is_valid_def)

lemma hits_in_total: "distinct ks \<Longrightarrow> set xs \<subseteq> set ks \<Longrightarrow> sum_list (map (hits_in xs) ks) = int (length xs)"
proof (induction xs)
  case (Cons x xs)
  have one: "sum_list (map (\<lambda>k. if x = k then 1 else (0::int)) ks) = 1"
    using Cons.prems by (simp add: sum_list_distinct_conv_sum_set)
  have "hits_in (x # xs) = (\<lambda>k. (if x = k then 1 else 0) + hits_in xs k)" by (auto simp: hits_in_def)
  with Cons one show ?case by (simp add: sum_list_addf)
next
  case Nil
  have "hits_in [] = (\<lambda>k. 0)" by (auto simp: hits_in_def)
  then show ?case by simp
qed

text \<open>
  the addresses a tick stores are the unmapped usable probe addresses, each once, with the tick's
  time; as long as probes report addresses already unmapped (which \<open>parseTrace\<close> ensures) their hits add
  up to the successful probes of the sample.
\<close>

theorem tick_hits_complete:
  assumes "\<forall>r \<in> set results. unmap (pb_IP r) = pb_IP r"
  shows "let s = Aggregate results previous seen; hits = tick_hits s t {} (ProbeIPs s) in
     distinct (map h_IP hits) \<and> h_IP ` set hits = pb_IP ` set (good results)
   \<and> sum_list (map Hits hits) = ProbesOK s \<and> list_all (\<lambda>h. SeenAt h = t \<and> 0 < Hits h) hits"
proof -
  define s where "s = Aggregate results previous seen"
  define hits where "hits = tick_hits s t {} (ProbeIPs s)"
  note c = agg_counts [of results previous seen, folded s_def]
  note h = tick_hits_ok [of s t "{}" "ProbeIPs s", folded hits_def]
  have gs: "set (good results) \<subseteq> set results" by (auto simp: good_def dest: in_set_takeD)
  have "unmap ` pb_IP ` set (good results) = pb_IP ` set (good results)"
    using assms gs by (force simp: image_image)
  then have img: "h_IP ` set hits = pb_IP ` set (good results)"
    using h unfolding c(11) valid_probe_ips good_def [symmetric] by simp
  have "map Hits hits = map (hits_in (map pb_IP (good results))) (map h_IP hits)"
    using h c(14) by simp
  moreover have "sum_list (map (hits_in (map pb_IP (good results))) (map h_IP hits)) = int (length (good results))"
    using hits_in_total [of "map h_IP hits" "map pb_IP (good results)"] h img by simp
  ultimately have sum: "sum_list (map Hits hits) = ProbesOK s" unfolding c(12) by (rule trans [OF arg_cong])
  have "0 < Hits x" if "x \<in> set hits" for x
  proof -
    from that img have "h_IP x \<in> set (map pb_IP (good results))" by auto
    from hits_in_pos [OF this] h c(14) that show ?thesis by simp
  qed
  with h img sum show ?thesis by (simp add: Let_def s_def [symmetric] hits_def [symmetric] list_all_iff)
qed

theorem tick_hits_complete_witness:
  "let s = Aggregate [zero_result\<lparr>pb_IP := V4 9\<rparr>] NoAddr {} in sum_list (map Hits (tick_hits s 5 {} (ProbeIPs s))) = ProbesOK s"
  using tick_hits_complete [of "[zero_result\<lparr>pb_IP := V4 9\<rparr>]" NoAddr "{}" 5] by (simp add: zero_result_def Let_def)

subsection \<open>What concurrent probing guarantees\<close>

text \<open>The steps still ahead: two for a waiting slot, one for a probing slot.\<close>

definition phase_work :: "phase \<Rightarrow> nat" where
  "phase_work x = (case x of Waiting \<Rightarrow> 2 | Probing \<Rightarrow> 1 | Finished \<Rightarrow> 0)"

definition pool_work :: "probe_pool \<Rightarrow> nat" where
  "pool_work q = sum_list (map phase_work (pool_phases q))"

definition slot_ok :: "(nat \<Rightarrow> probe_result) \<Rightarrow> go_error option \<Rightarrow> probe_pool \<Rightarrow> nat \<Rightarrow> bool" where
  "slot_ok outcome ctxErr q i =
     (if pool_phases q ! i = Finished
      then pool_results q ! i = outcome i \<or> (ctxErr \<noteq> None \<and> pool_results q ! i = zero_result\<lparr>pb_Err := ctxErr\<rparr>)
      else pool_results q ! i = zero_result)"

definition pool_inv :: "nat \<Rightarrow> nat \<Rightarrow> (nat \<Rightarrow> probe_result) \<Rightarrow> go_error option \<Rightarrow> probe_pool \<Rightarrow> bool" where
  "pool_inv n limit outcome ctxErr q \<longleftrightarrow>
     length (pool_phases q) = n \<and> length (pool_results q) = n \<and> probing q \<le> limit \<and> (\<forall>i < n. slot_ok outcome ctxErr q i)"

lemma pool_inv_start: "pool_inv n limit outcome ctxErr (start_pool n)"
  by (simp add: pool_inv_def start_pool_def probing_def slot_ok_def)

lemma pool_step_inv: "pool_step limit outcome ctxErr q q' \<Longrightarrow> pool_inv n limit outcome ctxErr q \<Longrightarrow> pool_inv n limit outcome ctxErr q'"
proof (induction rule: pool_step.induct)
  case (acquire i q)
  then show ?case
    using replace_count [of i "pool_phases q" Waiting "\<lambda>x. x = Probing" Probing]
    by (auto simp: pool_inv_def probing_def slot_ok_def nth_list_update)
next
  case (give_up i q e)
  then show ?case
    using replace_count [of i "pool_phases q" Waiting "\<lambda>x. x = Probing" Finished]
    by (auto simp: pool_inv_def probing_def slot_ok_def nth_list_update)
next
  case (probe i q)
  then show ?case
    using replace_count [of i "pool_phases q" Probing "\<lambda>x. x = Probing" Finished]
    by (auto simp: pool_inv_def probing_def slot_ok_def nth_list_update)
qed

lemma pool_reach_inv:
  "(pool_step limit outcome ctxErr)\<^sup>*\<^sup>* (start_pool n) q \<Longrightarrow> pool_inv n limit outcome ctxErr q"
  by (induction rule: rtranclp_induct) (auto intro: pool_inv_start pool_step_inv)

lemma pool_step_work: "pool_step limit outcome ctxErr q q' \<Longrightarrow> pool_work q' < pool_work q"
  by (induction rule: pool_step.induct) (simp_all add: pool_work_def phase_work_def sum_list_replace_less)

interpretation pool: bounded_steps "pool_step limit outcome ctxErr" pool_work for limit outcome ctxErr
  by unfold_locales (rule pool_step_work)

lemma pool_progress:
  assumes "0 < limit" and "\<not> pool_done q"
  shows "\<exists>q'. pool_step limit outcome ctxErr q q'"
proof (cases "Probing \<in> set (pool_phases q)")
  case True
  then obtain i where "i < length (pool_phases q)" "pool_phases q ! i = Probing" by (auto simp: in_set_conv_nth)
  then show ?thesis by (intro exI) (rule pool_step.probe)
next
  case False
  then have "probing q = 0" by (auto simp: probing_def filter_empty_conv)
  moreover from assms(2) obtain x where "x \<in> set (pool_phases q)" "x \<noteq> Finished" by (auto simp: pool_done_def)
  with False have "Waiting \<in> set (pool_phases q)" by (cases x) auto
  then obtain i where "i < length (pool_phases q)" "pool_phases q ! i = Waiting" by (auto simp: in_set_conv_nth)
  ultimately show ?thesis using assms(1) by (intro exI) (rule pool_step.acquire, simp_all)
qed

text \<open>
  C35: whatever the interleaving of the probe goroutines, at most eight probe at any time (and never more
  than the configured number), and if the context stays alive the results are exactly the probes in
  index order, as if they had run one after another.
\<close>

theorem probing_bounded_and_ordered:
  assumes "(pool_step (probe_limit (probe_count s)) outcome None)\<^sup>*\<^sup>* (start_pool (probe_count s)) q"
  shows "probing q \<le> 8 \<and> probing q \<le> probe_count s \<and> probe_count s \<le> 255
    \<and> (pool_done q = (pool_phases q = replicate (probe_count s) Finished))
    \<and> (if pool_done q then pool_results q = map outcome [0..<probe_count s] else True)"
proof -
  note inv = pool_reach_inv [OF assms, unfolded pool_inv_def]
  have "probe_limit (probe_count s) \<le> 8" "probe_limit (probe_count s) \<le> probe_count s" "probe_count s \<le> 255"
    by (auto simp: probe_limit_def probe_count_def maxConcurrentProbes_def maxUInt8Value_def Let_def)
  moreover have fin: "pool_done q = (pool_phases q = replicate (probe_count s) Finished)"
    using inv by (auto simp: pool_done_def intro!: replicate_eqI)
  moreover have "pool_results q = map outcome [0..<probe_count s]" if "pool_done q"
    using inv that fin by (intro nth_equalityI) (auto simp: slot_ok_def)
  ultimately show ?thesis using inv by auto
qed

theorem probing_bounded_and_ordered_witness:
  "probing (\<lparr>pool_results = [zero_result], pool_phases = [Probing]\<rparr>) \<le> 8"
proof -
  let ?s = "demo_session\<lparr>ProbesPerSample := 1\<rparr>"
  have "probe_count ?s = 1" by (simp add: probe_count_def maxUInt8Value_def)
  moreover have "pool_step 1 (\<lambda>_. zero_result) None (start_pool 1) \<lparr>pool_results = [zero_result], pool_phases = [Probing]\<rparr>"
    using pool_step.acquire [of 0 "start_pool 1" 1 "\<lambda>_. zero_result" None] by (simp add: start_pool_def probing_def)
  ultimately show ?thesis
    using probing_bounded_and_ordered [of ?s "\<lambda>_. zero_result" "\<lparr>pool_results = [zero_result], pool_phases = [Probing]\<rparr>"]
    by (simp add: probe_limit_def maxConcurrentProbes_def r_into_rtranclp)
qed

text \<open>
  a tick's probing always ends: no schedule of the goroutines is longer than two steps per probe, and
  as long as one goroutine has not finished some goroutine can move (the semaphore is never held by
  nobody while all wait).
\<close>

theorem probing_terminates:
  assumes "(pool_step (probe_limit (probe_count s)) outcome ctxErr ^^ k) (start_pool (probe_count s)) q"
  shows "k \<le> 2 * probe_count s
    \<and> (pool_done q \<or> (\<exists>q'. pool_step (probe_limit (probe_count s)) outcome ctxErr q q'))"
proof -
  have "pool_work (start_pool (probe_count s)) = 2 * probe_count s"
    by (simp add: pool_work_def start_pool_def phase_work_def sum_list_replicate)
  with pool.runs_bounded [OF assms] have "k \<le> 2 * probe_count s" by simp
  moreover have "pool_done q" if "probe_count s = 0"
    using pool_reach_inv [OF relpowp_imp_rtranclp [OF assms]] that by (simp add: pool_inv_def pool_done_def)
  moreover have "0 < probe_limit (probe_count s)" if "probe_count s \<noteq> 0"
    using that by (simp add: probe_limit_def maxConcurrentProbes_def)
  ultimately show ?thesis using pool_progress by blast
qed

theorem probing_terminates_witness:
  "\<exists>q. (0::nat) \<le> 2 * probe_count (demo_session\<lparr>ProbesPerSample := 3\<rparr>)
     \<and> (pool_done q \<or> (\<exists>q'. pool_step (probe_limit (probe_count (demo_session\<lparr>ProbesPerSample := 3\<rparr>))) (\<lambda>_. zero_result) None q q'))"
  using probing_terminates [of 0 "demo_session\<lparr>ProbesPerSample := 3\<rparr>" "\<lambda>_. zero_result" None] by auto

subsection \<open>Ticks and rounds\<close>

text \<open>Everything a tick can do: fail to save and change nothing but the store's answer, or save and offer one event.\<close>

lemma tick_cases:
  fixes results p w
  defines "s \<equiv> Aggregate results (pw_previousPrimary p) (pw_seen p)"
  assumes "tick lookup save enqueue f t results p w = (p', w', err)"
  obtains snap hits ev accepted where
    "save f (w_store w) (s_ID (pw_session p)) snap hits = (w_store w', err)"
    and "SamplesTaken snap = uint (pw_sampleSeq p + 1)"
    and "sn_ProbesOK snap = sn_ProbesOK (s_Snapshot (pw_session p)) + uint (e_ProbesOK ev)"
    and "ProbesTotal snap = ProbesTotal (s_Snapshot (pw_session p)) + uint (e_ProbesAttempted ev)"
    and "validEvent ev" and "e_SessionID ev = s_ID (pw_session p)"
    and "e_SampleSeq ev = word_of_int (SequenceOffset (pw_session p)) + (pw_sampleSeq p + 1)"
    and "sn_DistinctIPs snap = int (card (pw_seen p \<union> h_IP ` set hits))"
    and "if err = None
         then enqueue ev (w_sink w) = (accepted, w_sink w')
            \<and> w_dropped w' = w_dropped w + (if accepted then 0 else 1)
            \<and> pw_session p' = (pw_session p)\<lparr>s_Snapshot := snap\<rparr> \<and> pw_sampleSeq p' = pw_sampleSeq p + 1
            \<and> pw_seen p' = pw_seen p \<union> h_IP ` set hits
         else p' = p \<and> w_sink w' = w_sink w \<and> w_dropped w' = w_dropped w"
proof -
  obtain reps l where e: "enrich_loop lookup [] (ProbeIPs s) (w_lookup w) = (reps, l)" by fastforce
  define hits where "hits = tick_hits s t {} (ProbeIPs s)"
  define snap where "snap = next_snapshot p t s reps hits"
  define ev where "ev = sampleEvent (s_ID (pw_session p)) t (word_of_int (SequenceOffset (pw_session p)) + (pw_sampleSeq p + 1)) s
      (case map_of reps (PrimaryIP s) of Some r \<Rightarrow> r | None \<Rightarrow> zero_reputation)"
  obtain d r where sv: "save f (w_store w) (s_ID (pw_session p)) snap hits = (d, r)" by fastforce
  obtain b q where en: "enqueue ev (w_sink w) = (b, q)" by fastforce
  note t = assms(2) [unfolded tick_def Let_def, folded s_def, unfolded e prod.case, folded hits_def, folded snap_def ev_def]
  note c = agg_counts(1-3) [of results "pw_previousPrimary p" "pw_seen p", folded s_def]
  have le: "0 \<le> ProbesAttempted s" "ProbesAttempted s < 256" unfolding c(1) by simp_all
  have ok: "validEvent ev" unfolding ev_def s_def by (rule sampleEvent_valid)
  have cnt: "uint (e_ProbesOK ev) = ProbesOK s" "uint (e_ProbesAttempted ev) = ProbesAttempted s"
    unfolding ev_def using c(2,3) le by (simp_all add: sampleEvent_def Let_def uint_of_int8)
  show ?thesis
  proof (rule that [of snap hits ev b])
    show "save f (w_store w) (s_ID (pw_session p)) snap hits = (w_store w', err)"
      using t sv en by (cases r; cases b) auto
    show "if err = None
         then enqueue ev (w_sink w) = (b, w_sink w') \<and> w_dropped w' = w_dropped w + (if b then 0 else 1)
            \<and> pw_session p' = (pw_session p)\<lparr>s_Snapshot := snap\<rparr> \<and> pw_sampleSeq p' = pw_sampleSeq p + 1
            \<and> pw_seen p' = pw_seen p \<union> h_IP ` set hits
         else p' = p \<and> w_sink w' = w_sink w \<and> w_dropped w' = w_dropped w"
      using t sv en by (cases r; cases b) (auto simp: next_seen_def)
  qed (use ok cnt in \<open>simp_all add: snap_def next_snapshot_def next_seen_def ev_def sampleEvent_def Let_def\<close>)
qed

lemma tick_seq:
  assumes "tick lookup save enqueue f t results p w = (p', w', err)"
  shows "pw_sampleSeq p' = (if err = None then pw_sampleSeq p + 1 else pw_sampleSeq p)"
    "MaxSamples (pw_session p') = MaxSamples (pw_session p)" "s_ID (pw_session p') = s_ID (pw_session p)"
  by (rule tick_cases [OF assms]; simp split: if_splits)+

lemma uint_succ_le: "uint ((x :: 32 word) + 1) \<le> uint x + 1"
  by (simp add: uint_word_ariths zmod_le_nonneg_dividend)

text \<open>One turn of the loop, as an equation over its tick.\<close>

lemma Run_turn:
  assumes "tick lookup save enqueue (rd_fault rd) (rd_sampledAt rd) (rd_results rd) p w = (p1, w1, err)"
  shows "Run lookup save finish enqueue (rd # rds) p w =
    (if rd_cancelled rd then (p, w, RunCancelled)
     else if capReached p (rd_now rd)
     then (case finish_loop finish (s_ID (pw_session p)) (rd_attempts rd) (w_store w) of
             (d, over) \<Rightarrow> (p, w\<lparr>w_store := d\<rparr>, RunFinishing over))
     else if rd_cancelled_after rd then (p1, w1, RunCancelled)
     else if err = None \<and> capReached p1 (rd_now_after rd)
     then (case finish_loop finish (s_ID (pw_session p)) (rd_attempts rd) (w_store w1) of
             (d, over) \<Rightarrow> (p1, w1\<lparr>w_store := d\<rparr>, RunFinishing over))
     else if rd_done rd then (p1, w1, RunCancelled)
     else Run lookup save finish enqueue rds p1 w1)"
  using assms by (simp add: Let_def)

text \<open>
  a session with a sample limit never takes more samples than it allows, whatever is saved, dropped or
  cancelled on the way (a worker prepared at or above the limit takes none).
\<close>

theorem max_samples_respected:
  "case MaxSamples (pw_session p) of None \<Rightarrow> True
   | Some m \<Rightarrow> uint (pw_sampleSeq (fst (Run lookup save finish enqueue rds p w))) \<le> max (uint (pw_sampleSeq p)) m"
proof (cases "MaxSamples (pw_session p)")
  case (Some m)
  have "MaxSamples (pw_session p) = Some m \<Longrightarrow>
      uint (pw_sampleSeq (fst (Run lookup save finish enqueue rds p w))) \<le> max (uint (pw_sampleSeq p)) m"
  proof (induction rds arbitrary: p w)
    case (Cons rd rds)
    obtain p1 w1 err where t: "tick lookup save enqueue (rd_fault rd) (rd_sampledAt rd) (rd_results rd) p w = (p1, w1, err)"
      by (metis prod_cases3)
    have m1: "MaxSamples (pw_session p1) = Some m" using tick_seq(2) [OF t] Cons.prems by simp
    show ?case
    proof (cases "capReached p (rd_now rd)")
      case False
      then have "uint (pw_sampleSeq p) < m"
        using Cons.prems by (simp add: capReached_def maxSamplesReached_def split: if_splits)
      then have "uint (pw_sampleSeq p1) \<le> m" using tick_seq(1) [OF t] uint_succ_le [of "pw_sampleSeq p"] by simp
      then show ?thesis unfolding Run_turn [OF t] using False Cons.IH [OF m1, of w1]
        by (simp add: le_max_iff_disj split: prod.splits)
    qed (simp add: Run_turn [OF t] split: prod.splits del: Run.simps)
  qed simp
  with Some show ?thesis by simp
qed simp

lemma finish_loop_succeeds:
  assumes "\<forall>a \<in> set as. \<not> at_cancelled a \<and> \<not> at_done a"
    and "\<exists>a \<in> set as. \<forall>d. snd (finish (at_fault a) d sid (at_now a)) = None"
  shows "\<exists>d'. \<exists>a \<in> set as. \<exists>d1. finish_loop finish sid as d = (d', True) \<and> finish (at_fault a) d1 sid (at_now a) = (d', None)"
  using assms
proof (induction as arbitrary: d)
  case (Cons a as)
  obtain d1 e where f: "finish (at_fault a) d sid (at_now a) = (d1, e)" by fastforce
  show ?case
  proof (cases e)
    case None
    with f have "finish_loop finish sid (a # as) d = (d1, True)" "finish (at_fault a) d sid (at_now a) = (d1, None)" by simp_all
    then show ?thesis by (meson list.set_intros(1))
  next
    case (Some x)
    have "snd (finish (at_fault a) d sid (at_now a)) \<noteq> None" using f Some by simp
    with Cons.prems have "\<exists>a \<in> set as. \<forall>d. snd (finish (at_fault a) d sid (at_now a)) = None" by (metis set_ConsD)
    with Cons.IH [of d1] Cons.prems(1) obtain d' where
      "finish_loop finish sid as d1 = (d', True)" "\<exists>a \<in> set as. \<exists>d1. finish (at_fault a) d1 sid (at_now a) = (d', None)"
      by auto
    moreover from this(1) have "finish_loop finish sid (a # as) d = (d', True)"
      using f Some Cons.prems(1) by simp
    ultimately show ?thesis by (meson list.set_intros(2))
  qed
qed simp

text \<open>
  a session with a sample limit is finished: if the context lives, saves succeed and some attempt to
  mark it finished succeeds, then after as many rounds as samples are missing, plus one, the run has
  ended and the store's last action was a successful \<open>finish\<close> of that session.
\<close>

theorem capped_session_finishes:
  assumes "MaxSamples (pw_session p) = Some m" and "m < 2 ^ 32" and "m - uint (pw_sampleSeq p) < int (length rds)"
    and "\<forall>rd \<in> set rds. \<not> rd_cancelled rd \<and> \<not> rd_cancelled_after rd \<and> \<not> rd_done rd
      \<and> (\<forall>d snap hits. snd (save (rd_fault rd) d (s_ID (pw_session p)) snap hits) = None)
      \<and> (\<forall>a \<in> set (rd_attempts rd). \<not> at_cancelled a \<and> \<not> at_done a)
      \<and> (\<exists>a \<in> set (rd_attempts rd). \<forall>d. snd (finish (at_fault a) d (s_ID (pw_session p)) (at_now a)) = None)"
    and "0 < length rds"
  shows "\<exists>p' w'. Run lookup save finish enqueue rds p w = (p', w', RunFinishing True)
      \<and> (\<exists>rd \<in> set rds. \<exists>a \<in> set (rd_attempts rd). \<exists>d. finish (at_fault a) d (s_ID (pw_session p)) (at_now a) = (w_store w', None))"
  using assms
proof (induction rds arbitrary: p w)
  case (Cons rd rds)
  let ?sid = "s_ID (pw_session p)"
  obtain p1 w1 err where t: "tick lookup save enqueue (rd_fault rd) (rd_sampledAt rd) (rd_results rd) p w = (p1, w1, err)"
    by (metis prod_cases3)
  note q = tick_seq [OF t]
  have "err = None"
    by (rule tick_cases [OF t]) (use Cons.prems(4) in \<open>metis list.set_intros(1) snd_conv\<close>)
  have ends: "\<exists>d'. finish_loop finish ?sid (rd_attempts rd) (w_store v) = (d', True)
      \<and> (\<exists>r \<in> set (rd # rds). \<exists>a \<in> set (rd_attempts r). \<exists>d. finish (at_fault a) d ?sid (at_now a) = (d', None))" for v
  proof -
    from Cons.prems(4) have "\<exists>d'. \<exists>a \<in> set (rd_attempts rd). \<exists>d1. finish_loop finish ?sid (rd_attempts rd) (w_store v) = (d', True)
        \<and> finish (at_fault a) d1 ?sid (at_now a) = (d', None)"
      by (intro finish_loop_succeeds) simp_all
    then show ?thesis by (meson list.set_intros(1))
  qed
  show ?case
  proof (cases "capReached p (rd_now rd) \<or> capReached p1 (rd_now_after rd)")
    case True
    define q v where "q = (if capReached p (rd_now rd) then p else p1)" and "v = (if capReached p (rd_now rd) then w else w1)"
    obtain d' where d': "finish_loop finish ?sid (rd_attempts rd) (w_store v) = (d', True)"
      "\<exists>r \<in> set (rd # rds). \<exists>a \<in> set (rd_attempts r). \<exists>d. finish (at_fault a) d ?sid (at_now a) = (d', None)"
      using ends [of v] by blast
    then have "Run lookup save finish enqueue (rd # rds) p w = (q, v\<lparr>w_store := d'\<rparr>, RunFinishing True)"
      using True Cons.prems(4) \<open>err = None\<close> unfolding Run_turn [OF t] by (auto simp: q_def v_def)
    with d'(2) show ?thesis by (intro exI [of _ q] exI [of _ "v\<lparr>w_store := d'\<rparr>"]) simp
  next
    case False
    then have lt: "uint (pw_sampleSeq p) < m" "uint (pw_sampleSeq p1) < m"
      using Cons.prems(1) q by (auto simp: capReached_def maxSamplesReached_def split: if_splits)
    then have "uint (pw_sampleSeq p1) = uint (pw_sampleSeq p) + 1"
      using q(1) \<open>err = None\<close> Cons.prems(2) by (simp add: uint_word_ariths)
    with Cons.prems(3) lt have "m - uint (pw_sampleSeq p1) < int (length rds)" "0 < length rds" by auto
    with Cons.IH [of p1 w1] Cons.prems(1,2,4) q(2,3) have "\<exists>p' w'. Run lookup save finish enqueue rds p1 w1 = (p', w', RunFinishing True)
        \<and> (\<exists>rd \<in> set rds. \<exists>a \<in> set (rd_attempts rd). \<exists>d. finish (at_fault a) d ?sid (at_now a) = (w_store w', None))"
      by simp
    then obtain p' w' where "Run lookup save finish enqueue rds p1 w1 = (p', w', RunFinishing True)"
      "\<exists>rd \<in> set rds. \<exists>a \<in> set (rd_attempts rd). \<exists>d. finish (at_fault a) d ?sid (at_now a) = (w_store w', None)" by blast
    moreover from this(1) have "Run lookup save finish enqueue (rd # rds) p w = (p', w', RunFinishing True)"
      using False Cons.prems(4) by (simp add: Run_turn [OF t] del: Run.simps)
    ultimately show ?thesis by (meson list.set_intros(2))
  qed
qed simp

text \<open>An example: a store that counts its calls, one sample missing.\<close>

definition one_round :: "unit round" where
  "one_round = \<lparr>rd_cancelled = False, rd_now = 0, rd_sampledAt = 5, rd_results = [], rd_fault = (),
     rd_cancelled_after = False, rd_now_after = 6, rd_done = False,
     rd_attempts = [\<lparr>at_fault = (), at_now = 7, at_cancelled = False, at_done = False\<rparr>]\<rparr>"

definition one_left :: prepared_worker where
  "one_left = \<lparr>pw_session = demo_session\<lparr>MaxSamples := Some 1\<rparr>, pw_seen = {}, pw_previousPrimary = NoAddr, pw_sampleSeq = 0\<rparr>"

theorem capped_session_finishes_witness:
  "\<exists>p' w'. Run (\<lambda>a l. ((zero_reputation, None), l)) (\<lambda>f d sid snap hits. (d + 1, None)) (\<lambda>f d sid now. (d + 100, None))
     (\<lambda>e q. (True, q + 1)) [one_round, one_round] one_left \<lparr>w_store = 0 :: nat, w_sink = 0 :: nat, w_lookup = (), w_dropped = 0\<rparr>
     = (p', w', RunFinishing True)"
  using capped_session_finishes [of one_left 1 "[one_round, one_round]" "\<lambda>f d sid snap hits. (d + 1, None)"
      "\<lambda>f d sid now. (d + 100, None)" "\<lambda>a l. ((zero_reputation, None), l)" "\<lambda>e q. (True, q + 1)"]
  by (fastforce simp: one_left_def one_round_def simp del: Run.simps)

lemma upto_append: "0 \<le> a \<Longrightarrow> 0 \<le> b \<Longrightarrow> [i + 1..i + a + b] = [i + 1..i + a] @ [i + a + 1..i + a + (b :: int)]"
  using upto_split1 [of "i + 1" "i + a + 1" "i + a + b"] by (cases "b = 0") (simp_all add: algebra_simps)
lemma Run_out:
  assumes "tick lookup save enqueue (rd_fault rd) (rd_sampledAt rd) (rd_results rd) p w = (p1, w1, err)"
    and "Run lookup save finish enqueue (rd # rds) p w = (p', w', out)"
  obtains (still) "p' = p" "w' = w" | (ticked) "p' = p1" "w' = w1"
    | (finished) q v d over where "(q, v) = (p, w) \<or> (q, v) = (p1, w1)"
        "finish_loop finish (s_ID (pw_session q)) (rd_attempts rd) (w_store v) = (d, over)" "p' = q" "w' = v\<lparr>w_store := d\<rparr>"
    | (again) "Run lookup save finish enqueue rds p1 w1 = (p', w', out)"
proof -
  obtain d over d1 over1 where
    f: "finish_loop finish (s_ID (pw_session p)) (rd_attempts rd) (w_store w) = (d, over)"
      "finish_loop finish (s_ID (pw_session p1)) (rd_attempts rd) (w_store w1) = (d1, over1)" by (metis surj_pair)
  have sid: "s_ID (pw_session p1) = s_ID (pw_session p)" using tick_seq(3) [OF assms(1)] .
  note r = assms(2) [unfolded Run_turn [OF assms(1)] sid [symmetric] f(2), unfolded sid f(1) prod.case]
  show ?thesis
  proof (cases "rd_cancelled rd \<or> capReached p (rd_now rd)")
    case True
    with r that(1) that(3) [OF _ f(1)] show ?thesis by (auto split: if_splits)
  next
    case False
    with r that(2,4) that(3) [OF _ f(2)] show ?thesis by (auto split: if_splits)
  qed
qed


subsection \<open>The worker over any store and any sink\<close>

text \<open>
  What the worker needs of its two partners, and what a run then guarantees: \<open>emits\<close> relates the world
  before and after to the events \<open>es\<close> it produced and the events \<open>kept\<close> the sink took.
\<close>

locale sampling = session_store ok seq_view save stop finish reenable + event_sink enqueue taken
  for ok :: "'d \<Rightarrow> bool"
    and seq_view :: "'d \<Rightarrow> uuid \<Rightarrow> seq_state option"
    and save :: "'f \<Rightarrow> 'd \<Rightarrow> uuid \<Rightarrow> snapshot \<Rightarrow> ip_hit list \<Rightarrow> 'd \<times> go_error option"
    and stop :: "'f \<Rightarrow> 'd \<Rightarrow> uuid \<Rightarrow> time \<Rightarrow> 'd \<times> go_error option"
    and finish :: "'f \<Rightarrow> 'd \<Rightarrow> uuid \<Rightarrow> time \<Rightarrow> 'd \<times> go_error option"
    and reenable :: "'f \<Rightarrow> 'd \<Rightarrow> uuid \<Rightarrow> time \<Rightarrow> 'd \<times> go_error option"
    and enqueue :: "event \<Rightarrow> 'q \<Rightarrow> bool \<times> 'q"
    and taken :: "'q \<Rightarrow> event list"
begin

definition synced :: "prepared_worker \<Rightarrow> 'd \<Rightarrow> bool" where
  "synced p d \<longleftrightarrow> (\<exists>st. seq_view d (s_ID (pw_session p)) = Some (st, SequenceOffset (pw_session p), uint (pw_sampleSeq p)))"

definition emits ::
  "prepared_worker \<Rightarrow> ('d, 'q, 'l) world \<Rightarrow> prepared_worker \<Rightarrow> ('d, 'q, 'l) world \<Rightarrow> event list \<Rightarrow> event list \<Rightarrow> bool" where
  "emits p w p' w' es kept \<longleftrightarrow>
     (let sid = s_ID (pw_session p); n = numbered (seq_view (w_store w) sid) in
      ok (w_store w') \<and> s_ID (pw_session p') = sid
    \<and> list_all (\<lambda>e. validEvent e \<and> e_SessionID e = sid) es
    \<and> map e_SampleSeq es = map word_of_int [n + 1..n + int (length es)]
    \<and> numbered (seq_view (w_store w') sid) = n + int (length es)
    \<and> ProbesTotal (s_Snapshot (pw_session p')) = ProbesTotal (s_Snapshot (pw_session p)) + sum_list (map (uint \<circ> e_ProbesAttempted) es)
    \<and> sn_ProbesOK (s_Snapshot (pw_session p')) = sn_ProbesOK (s_Snapshot (pw_session p)) + sum_list (map (uint \<circ> e_ProbesOK) es)
    \<and> subseq kept es \<and> taken (w_sink w') = taken (w_sink w) @ kept
    \<and> w_dropped w' = w_dropped w + int (length es) - int (length kept))"

lemma emits_nothing:
  "ok (w_store w') \<Longrightarrow> numbered (seq_view (w_store w') (s_ID (pw_session p))) = numbered (seq_view (w_store w) (s_ID (pw_session p))) \<Longrightarrow>
   w_sink w' = w_sink w \<Longrightarrow> w_dropped w' = w_dropped w \<Longrightarrow> emits p w p w' [] []"
  by (simp add: emits_def Let_def)

lemma emits_trans:
  assumes "emits p w p1 w1 es1 kept1" and "emits p1 w1 p2 w2 es2 kept2"
  shows "emits p w p2 w2 (es1 @ es2) (kept1 @ kept2)"
proof -
  let ?n = "numbered (seq_view (w_store w) (s_ID (pw_session p)))"
  have "[?n + 1..?n + int (length (es1 @ es2))]
      = [?n + 1..?n + int (length es1)] @ [?n + int (length es1) + 1..?n + int (length es1) + int (length es2)]"
    using upto_append [of "int (length es1)" "int (length es2)" ?n] by (simp add: add.assoc)
  with assms show ?thesis
    by (auto simp: emits_def Let_def intro: list_emb_append_mono)
qed

lemma tick_emits:
  assumes "tick lookup save enqueue f t results p w = (p', w', err)"
    and "ok (w_store w)" and "synced p (w_store w)" and "uint (pw_sampleSeq p) + 1 < 2 ^ 31"
  shows "synced p' (w_store w') \<and> (\<exists>es kept. emits p w p' w' es kept \<and> length es = (if err = None then 1 else 0))"
proof (rule tick_cases [OF assms(1)])
  fix snap hits ev accepted
  assume sv: "save f (w_store w) (s_ID (pw_session p)) snap hits = (w_store w', err)"
    and sn: "SamplesTaken snap = uint (pw_sampleSeq p + 1)"
      "sn_ProbesOK snap = sn_ProbesOK (s_Snapshot (pw_session p)) + uint (e_ProbesOK ev)"
      "ProbesTotal snap = ProbesTotal (s_Snapshot (pw_session p)) + uint (e_ProbesAttempted ev)"
    and ev: "validEvent ev" "e_SessionID ev = s_ID (pw_session p)"
      "e_SampleSeq ev = word_of_int (SequenceOffset (pw_session p)) + (pw_sampleSeq p + 1)"
    and out: "if err = None
         then enqueue ev (w_sink w) = (accepted, w_sink w')
            \<and> w_dropped w' = w_dropped w + (if accepted then 0 else 1)
            \<and> pw_session p' = (pw_session p)\<lparr>s_Snapshot := snap\<rparr> \<and> pw_sampleSeq p' = pw_sampleSeq p + 1
            \<and> pw_seen p' = pw_seen p \<union> h_IP ` set hits
         else p' = p \<and> w_sink w' = w_sink w \<and> w_dropped w' = w_dropped w"
  obtain st where v: "seq_view (w_store w) (s_ID (pw_session p)) = Some (st, SequenceOffset (pw_session p), uint (pw_sampleSeq p))"
    using assms(3) by (auto simp: synced_def)
  have succ: "uint (pw_sampleSeq p + 1) = uint (pw_sampleSeq p) + 1" using assms(4) by (simp add: uint_word_ariths)
  show ?thesis
  proof (cases err)
    case None
    have "SamplesTaken snap < 2 ^ 31" "0 \<le> SamplesTaken snap" using assms(4) sn(1) succ by simp_all
    from save_done [OF sv [unfolded None] assms(2) this(2,1), of "s_ID (pw_session p)"]
    have d: "ok (w_store w')" "seq_view (w_store w') (s_ID (pw_session p)) = Some (st, SequenceOffset (pw_session p), SamplesTaken snap)"
      using v by simp_all
    have "e_SampleSeq ev = word_of_int (SequenceOffset (pw_session p) + uint (pw_sampleSeq p) + 1)"
      by (simp add: ev(3) add.assoc)
    moreover have "taken (w_sink w') = taken (w_sink w) @ (if accepted then [ev] else [])"
      using out None enqueue_taken enqueue_refused by (cases accepted) auto
    ultimately have "emits p w p' w' [ev] (if accepted then [ev] else [])"
      using None out d v sn ev succ by (simp add: emits_def Let_def numbered_def algebra_simps)
    then show ?thesis using None out d sn succ by (auto simp: synced_def)
  next
    case (Some e)
    with save_failed sv have "w_store w' = w_store w" by simp
    then show ?thesis using Some out assms(2,3) emits_nothing [of w' p w] by auto
  qed
qed

lemma finish_loop_numbers:
  "finish_loop finish sid as d = (d', over) \<Longrightarrow> ok d \<Longrightarrow> ok d' \<and> numbered (seq_view d' sid) = numbered (seq_view d sid)"
proof (induction as arbitrary: d)
  case (Cons a as)
  obtain d1 e where f: "finish (at_fault a) d sid (at_now a) = (d1, e)" by fastforce
  with finish_keeps [OF f Cons.prems(2), of sid] Cons show ?case by (auto split: option.splits if_splits)
qed simp

lemma Run_emits:
  "Run lookup save finish enqueue rds p w = (p', w', out) \<Longrightarrow> ok (w_store w) \<Longrightarrow> synced p (w_store w) \<Longrightarrow>
   uint (pw_sampleSeq p) + int (length rds) < 2 ^ 31 \<Longrightarrow>
   \<exists>es kept. emits p w p' w' es kept \<and> length es \<le> length rds"
proof (induction rds arbitrary: p w)
  case (Cons rd rds)
  obtain p1 w1 err where t: "tick lookup save enqueue (rd_fault rd) (rd_sampledAt rd) (rd_results rd) p w = (p1, w1, err)"
    by (metis prod_cases3)
  have "uint (pw_sampleSeq p) + 1 < 2 ^ 31" using Cons.prems(4) by simp
  from tick_emits [OF t Cons.prems(2,3) this] obtain es kept where s1: "synced p1 (w_store w1)"
    and e1: "emits p w p1 w1 es kept" and l1: "length es \<le> 1" by (auto split: if_splits)
  have ends: "emits q v q (v\<lparr>w_store := d\<rparr>) [] []"
    if "finish_loop finish (s_ID (pw_session q)) (rd_attempts rd) (w_store v) = (d, over)" "ok (w_store v)"
    for q and d over and v :: "('d, 'q, 'l) world"
    using finish_loop_numbers [OF that] by (intro emits_nothing) simp_all
  have sid: "s_ID (pw_session p1) = s_ID (pw_session p)" and ok1: "ok (w_store w1)"
    using e1 by (simp_all add: emits_def Let_def)
  have seq: "uint (pw_sampleSeq p1) \<le> uint (pw_sampleSeq p) + 1"
    using tick_seq(1) [OF t] uint_succ_le [of "pw_sampleSeq p"] by (simp split: if_splits)
  have self: "emits p w p w [] []" using Cons.prems(2) by (simp add: emits_nothing)
  have "(\<exists>es' kept'. emits p w p' w' es' kept' \<and> length es' \<le> 1)
      \<or> Run lookup save finish enqueue rds p1 w1 = (p', w', out)"
  proof (cases rule: Run_out [OF t Cons.prems(1), case_names still ticked finished again])
    case still
    with self show ?thesis by (intro disjI1 exI [of _ "[]"]) simp
  next
    case ticked
    with e1 l1 show ?thesis by (intro disjI1 exI [of _ es] exI [of _ kept]) simp
  next
    case (finished q v d over)
    from finished(1) show ?thesis
    proof
      assume "(q, v) = (p, w)"
      with finished ends [OF finished(2)] Cons.prems(2) have "emits p w p' w' [] []" by simp
      then show ?thesis by (intro disjI1 exI [of _ "[]"]) simp
    next
      assume "(q, v) = (p1, w1)"
      then have "emits p1 w1 p' w' [] []" using finished(2-4) ends [of p1 w1 d over] ok1 by simp
      from emits_trans [OF e1 this] have "emits p w p' w' es kept" by simp
      with l1 show ?thesis by (intro disjI1 exI [of _ es] exI [of _ kept]) simp
    qed
  qed simp
  then show ?case
  proof (elim disjE exE conjE)
    assume again: "Run lookup save finish enqueue rds p1 w1 = (p', w', out)"
    from Cons.IH [OF again ok1 s1] Cons.prems(4) seq obtain es' kept' where "emits p1 w1 p' w' es' kept'" "length es' \<le> length rds"
      by auto
    with emits_trans [OF e1 this(1)] l1 show ?thesis by (intro exI [of _ "es @ es'"] exI [of _ "kept @ kept'"]) simp
  next
    fix es' kept' assume "emits p w p' w' es' kept'" "length es' \<le> 1"
    then show ?case by (intro exI [of _ es'] exI [of _ kept']) simp
  qed
qed (use emits_nothing in fastforce)

end

end
