(* ===== verification/Sampling.thy ===== *)
theory Sampling
  imports Worker PgStore Writer
begin

text \<open>
  The sampling pipeline: the worker of \<open>internal/sampler/worker.go\<close> over the PostgreSQL store and the
  ClickHouse writer, as an interpretation of the locale \<open>sampling\<close> on the models of both.
\<close>

interpretation pipeline: sampling db_ok seq_view SaveTick Stop Finish Reenable Enqueue wr_accepted ..

text \<open>A worker prepared from a stored session agrees with its row.\<close>

lemma Prepare_session:
  assumes "Prepare dec dial records s = Inr (p, c)"
  shows "pw_session p = s \<and> uint (pw_sampleSeq p) = min (max 0 (SamplesTaken (s_Snapshot s))) (2 ^ 32 - 1)"
  using assms
  by (auto simp: Prepare_def Let_def uint_of_int32 min_def max_def split: sum.splits if_splits)

lemma SessionByID_view:
  assumes "SessionByID f d sid = Inr s"
  shows "s_ID s = sid \<and> seq_view d sid = Some (s_Status s, SequenceOffset s, SamplesTaken (s_Snapshot s))"
  using assms find_session_Some
  by (auto simp: SessionByID_def seq_view_def mapSession_def split: option.splits)

lemma prepared_synced:
  assumes "SessionByID f d sid = Inr s" and "Prepare dec dial records s = Inr (p, c)"
    and "0 \<le> SamplesTaken (s_Snapshot s)" and "SamplesTaken (s_Snapshot s) < 2 ^ 31"
  shows "pipeline.synced p d" and "s_ID (pw_session p) = sid" and "uint (pw_sampleSeq p) = SamplesTaken (s_Snapshot s)"
  using Prepare_session [OF assms(2)] SessionByID_view [OF assms(1)] assms(3,4)
  by (simp_all add: pipeline.synced_def)

text \<open>
  C15: the worker over the real store and writer: however long a session prepared from its row runs, and
  whatever statements fail, the events it offers are well-formed, carry the session's id and exactly the
  numbers the row accounts for, in order and without a gap; the writer accepts a subsequence of them and
  every one it refuses is counted as dropped; the row's probe totals are those of the events.
\<close>

theorem run_numbers_events:
  assumes "db_ok (w_store w)" and "SessionByID f (w_store w) sid = Inr s" and "Prepare dec dial records s = Inr (p, c)"
    and "0 \<le> SamplesTaken (s_Snapshot s)" and "SamplesTaken (s_Snapshot s) + int (length rds) < 2 ^ 31"
    and "Run lookup SaveTick Finish Enqueue rds p w = (p', w', out)"
  shows "\<exists>es kept. length es \<le> length rds \<and> db_ok (w_store w')
     \<and> map e_SampleSeq es = map word_of_int [SequenceOffset s + SamplesTaken (s_Snapshot s) + 1
          ..SequenceOffset s + SamplesTaken (s_Snapshot s) + int (length es)]
     \<and> numbered (seq_view (w_store w') sid) = SequenceOffset s + SamplesTaken (s_Snapshot s) + int (length es)
     \<and> list_all (\<lambda>e. validEvent e \<and> e_SessionID e = sid) es
     \<and> ProbesTotal (s_Snapshot (pw_session p')) = ProbesTotal (s_Snapshot s) + sum_list (map (uint \<circ> e_ProbesAttempted) es)
     \<and> subseq kept es \<and> wr_accepted (w_sink w') = wr_accepted (w_sink w) @ kept
     \<and> w_dropped w' = w_dropped w + int (length es) - int (length kept)"
proof -
  have "SamplesTaken (s_Snapshot s) < 2 ^ 31" using assms(5) by simp
  note sync = prepared_synced [OF assms(2,3,4) this]
  have "uint (pw_sampleSeq p) + int (length rds) < 2 ^ 31" using assms(5) sync(3) by simp
  from pipeline.Run_emits [OF assms(6,1) sync(1) this] obtain es kept
    where "pipeline.emits p w p' w' es kept" "length es \<le> length rds" by blast
  moreover have "numbered (seq_view (w_store w) sid) = SequenceOffset s + SamplesTaken (s_Snapshot s)"
    using SessionByID_view [OF assms(2)] by (simp add: numbered_def)
  ultimately show ?thesis
    using sync(2) Prepare_session [OF assms(3)]
    by (intro exI [of _ es] exI [of _ kept]) (simp add: pipeline.emits_def Let_def)
qed

definition demo_world :: "(db, writer, unit) world" where
  "demo_world = \<lparr>w_store = demo_db, w_sink = newWriter 2 4, w_lookup = (), w_dropped = 0\<rparr>"

definition demo_round :: "fault_plan round" where
  "demo_round = \<lparr>rd_cancelled = False, rd_now = 0, rd_sampledAt = 5, rd_results = [], rd_fault = no_faults,
     rd_cancelled_after = True, rd_now_after = 6, rd_done = False, rd_attempts = []\<rparr>"

theorem run_numbers_events_witness:
  "\<exists>p s. Prepare (Inr ''u'') (\<lambda>_. Inr ()) (Inr []) s = Inr (p, ()) \<and> SessionByID no_faults demo_db 7 = Inr s
    \<and> (case Run (\<lambda>a l. ((zero_reputation, None), l)) SaveTick Finish Enqueue [demo_round] p demo_world of
         (p', w', out) \<Rightarrow> db_ok (w_store w') \<and> numbered (seq_view (w_store w') 7) \<le> 1)"
proof -
  define s where "s = mapSession demo_row (last_category demo_db demo_row)"
  have s: "SessionByID no_faults demo_db 7 = Inr s" by (simp add: SessionByID_def no_faults_def demo_find s_def)
  have st: "SamplesTaken (s_Snapshot s) = 0" "SequenceOffset s = 0"
    by (simp_all add: s_def mapSession_def demo_row_def insertSessionParams_def demo_session_def zero_snapshot_def wrap32_def)
  obtain p where p: "Prepare (Inr ''u'') (\<lambda>_. Inr ()) (Inr []) s = Inr (p, ())"
    by (simp add: Prepare_def Let_def st)
  obtain p' w' out where r: "Run (\<lambda>a l. ((zero_reputation, None), l)) SaveTick Finish Enqueue [demo_round] p demo_world = (p', w', out)"
    by (metis prod_cases3)
  have "db_ok (w_store demo_world)" "SessionByID no_faults (w_store demo_world) 7 = Inr s"
    using demo_db_ok s by (simp_all add: demo_world_def)
  from run_numbers_events [OF this p _ _ r] st obtain es :: "event list" where "length es \<le> length [demo_round]"
    "db_ok (w_store w')" "numbered (seq_view (w_store w') 7) = int (length es)" by auto
  with r p s show ?thesis by (intro exI [of _ p] exI [of _ s]) (simp del: Run.simps)
qed

end
