(* ===== verification/Reader.thy ===== *)
theory Reader
  imports Complex_Main Events
begin

text \<open>
  \<open>internal/ch/reader.go\<close>: queries over the ClickHouse table \<open>sample_events\<close>, here a list of events. A
  fault plan gives the error of each call on the connection in turn, with the scanned rows and the final
  \<open>rows.Err\<close> counted as calls. \<open>quantile p xs\<close> stands for ClickHouse's \<open>quantileExact\<close>.
\<close>

subsection \<open>Results\<close>

record sample_page =
  sg_Items :: "event list"
  sg_Page :: int
  sg_PageSize :: nat
  sg_Total :: nat

record series_point =
  pt_At :: time
  pt_SuccessRate :: real
  pt_LatencyP50MS :: real
  pt_LatencyP95MS :: real
  pt_DistinctPerSample :: real
  pt_IPChanges :: nat
  pt_Mobile :: nat
  pt_Residential :: nat
  pt_Datacenter :: nat
  pt_Unknown :: nat

record hold =
  ho_IP :: string
  ho_StartedAt :: time
  ho_EndedAt :: time
  ho_Samples :: nat
  ho_DurationSeconds :: int

record rotation =
  ro_At :: time
  ro_FromIP :: string
  ro_ToIP :: string
  ro_SincePreviousSeconds :: int

record stickiness =
  sk_Holds :: "hold list"
  sk_Rotations :: "rotation list"
  sk_AverageHoldSeconds :: real
  sk_MedianHoldSeconds :: real

record growth_point =
  gp_At :: time
  gp_DistinctIPs :: "64 word"


subsection \<open>Ranges, pages and rows\<close>

type_synonym faults = "nat \<Rightarrow> go_error option"

definition samplePageSize :: nat where "samplePageSize = 50"

definition optionalRange :: "time option \<Rightarrow> time option \<Rightarrow> go_error option" where
  "optionalRange lo hi = (case (lo, hi) of (Some a, Some b) \<Rightarrow> if a > b then Some ErrInvalidRange else None | _ \<Rightarrow> None)"

definition sampleWhere :: "uuid \<Rightarrow> time option \<Rightarrow> time option \<Rightarrow> event \<Rightarrow> bool" where
  "sampleWhere sid lo hi e \<longleftrightarrow> e_SessionID e = sid
     \<and> (case lo of None \<Rightarrow> True | Some t \<Rightarrow> e_SampledAt e \<ge> t)
     \<and> (case hi of None \<Rightarrow> True | Some t \<Rightarrow> e_SampledAt e \<le> t)"

text \<open>\<open>ORDER BY sampled_at, sample_seq\<close> and its reverse.\<close>

definition chronological :: "event list \<Rightarrow> event list" where
  "chronological es = sort_key e_SampledAt (sort_key (\<lambda>e. uint (e_SampleSeq e)) es)"

definition newest_first :: "event list \<Rightarrow> event list" where
  "newest_first es = sort_key (\<lambda>e. - e_SampledAt e) (sort_key (\<lambda>e. - uint (e_SampleSeq e)) es)"

definition checkedPageOffset :: "int \<Rightarrow> int result" where
  "checkedPageOffset page =
     (let index = (word_of_int (page - 1) :: 64 word) in
      if index > (2 ^ 63 - 1) div word_of_nat samplePageSize then Inl ErrInvalidPage
      else Inr (sint (index * word_of_nat samplePageSize)))"

fun scan_rows :: "string \<Rightarrow> string \<Rightarrow> faults \<Rightarrow> 'a list \<Rightarrow> 'a list result" where
  "scan_rows scan iterate f [] = (case f 0 of Some e \<Rightarrow> Inl (Wrapped iterate e) | None \<Rightarrow> Inr [])"
| "scan_rows scan iterate f (row # rows) =
     (case f 0 of Some e \<Rightarrow> Inl (Wrapped scan e)
      | None \<Rightarrow> (case scan_rows scan iterate (\<lambda>k. f (Suc k)) rows of Inl e \<Rightarrow> Inl e | Inr xs \<Rightarrow> Inr (row # xs)))"

definition Samples :: "faults \<Rightarrow> event list \<Rightarrow> uuid \<Rightarrow> time option \<Rightarrow> time option \<Rightarrow> int \<Rightarrow> sample_page result" where
  "Samples f table sid lo hi page0 =
     (case optionalRange lo hi of
        Some e \<Rightarrow> Inl e
      | None \<Rightarrow>
     (let page = (if page0 < 1 then 1 else page0) in
      case checkedPageOffset page of
        Inl e \<Rightarrow> Inl e
      | Inr offset \<Rightarrow>
     (let rows = filter (sampleWhere sid lo hi) table in
      case f 0 of
        Some e \<Rightarrow> Inl (Wrapped ''count samples'' e)
      | None \<Rightarrow>
     (case f 1 of
        Some e \<Rightarrow> Inl (Wrapped ''query samples'' e)
      | None \<Rightarrow>
     (case scan_rows ''scan sample'' ''iterate samples'' (\<lambda>k. f (k + 2))
             (take samplePageSize (drop (nat offset) (newest_first rows))) of
        Inl e \<Rightarrow> Inl e
      | Inr items \<Rightarrow> Inr \<lparr>sg_Items = items, sg_Page = page, sg_PageSize = samplePageSize, sg_Total = length rows\<rparr>)))))"

text \<open>The visitor changes a state and may fail; a nil visitor is None.\<close>

fun visit_rows :: "faults \<Rightarrow> (event \<Rightarrow> 's \<Rightarrow> 's \<times> go_error option) \<Rightarrow> event list \<Rightarrow> 's \<Rightarrow> 's \<times> go_error option" where
  "visit_rows f visit [] s = (s, case f 0 of Some e \<Rightarrow> Some (Wrapped ''iterate sample stream'' e) | None \<Rightarrow> None)"
| "visit_rows f visit (row # rows) s =
     (case f 0 of Some e \<Rightarrow> (s, Some (Wrapped ''scan sample stream'' e))
      | None \<Rightarrow> (case visit row s of (s', Some e) \<Rightarrow> (s', Some e) | (s', None) \<Rightarrow> visit_rows (\<lambda>k. f (Suc k)) visit rows s'))"

definition StreamSamples ::
  "faults \<Rightarrow> event list \<Rightarrow> uuid \<Rightarrow> time option \<Rightarrow> time option \<Rightarrow> (event \<Rightarrow> 's \<Rightarrow> 's \<times> go_error option) option \<Rightarrow> 's \<Rightarrow> 's \<times> go_error option" where
  "StreamSamples f table sid lo hi visitor s =
     (case optionalRange lo hi of
        Some e \<Rightarrow> (s, Some e)
      | None \<Rightarrow>
     (case visitor of
        None \<Rightarrow> (s, Some (ErrOther ''sample visitor is nil''))
      | Some visit \<Rightarrow>
     (case f 0 of
        Some e \<Rightarrow> (s, Some (Wrapped ''query sample stream'' e))
      | None \<Rightarrow> visit_rows (\<lambda>k. f (Suc k)) visit (chronological (filter (sampleWhere sid lo hi) table)) s)))"


subsection \<open>Series\<close>

definition unix_epoch :: time where "unix_epoch = 62135596800 * second"

definition start_of_interval :: "int \<Rightarrow> time \<Rightarrow> time" where
  "start_of_interval n t = t - (t - unix_epoch) mod (n * second)"

definition succeeded :: "event \<Rightarrow> bool" where "succeeded e \<longleftrightarrow> 0 < e_ProbesOK e"

definition quantile_if :: "(real \<Rightarrow> nat list \<Rightarrow> nat) \<Rightarrow> real \<Rightarrow> event list \<Rightarrow> real" where
  "quantile_if quantile level es =
     (if filter succeeded es = [] then 0
      else real (quantile level (map (\<lambda>e. unat (e_RTTMedMS e)) (filter succeeded es))))"

definition series_of :: "(real \<Rightarrow> nat list \<Rightarrow> nat) \<Rightarrow> time \<Rightarrow> event list \<Rightarrow> series_point" where
  "series_of quantile start es =
     (let attempted = sum_list (map (\<lambda>e. unat (e_ProbesAttempted e)) es);
          succeeded = sum_list (map (\<lambda>e. unat (e_ProbesOK e)) es);
          categories = (\<lambda>c. length (filter (\<lambda>e. e_PrimaryCategory e = c) es)) in
      \<lparr>pt_At = start,
       pt_SuccessRate = (if attempted = 0 then 0 else real succeeded / real attempted),
       pt_LatencyP50MS = quantile_if quantile (1 / 2) es, pt_LatencyP95MS = quantile_if quantile (95 / 100) es,
       pt_DistinctPerSample = real (sum_list (map (\<lambda>e. unat (e_DistinctIPs e)) es)) / real (length es),
       pt_IPChanges = length (filter (\<lambda>e. 0 < e_IPChanged e) es),
       pt_Mobile = categories ''mobile'', pt_Residential = categories ''residential'',
       pt_Datacenter = categories ''datacenter'', pt_Unknown = categories ''unknown''\<rparr>)"

definition series_query :: "(real \<Rightarrow> nat list \<Rightarrow> nat) \<Rightarrow> int \<Rightarrow> event list \<Rightarrow> series_point list" where
  "series_query quantile n es =
     map (\<lambda>b. series_of quantile b (filter (\<lambda>e. start_of_interval n (e_SampledAt e) = b) es))
       (sort (remdups (map (\<lambda>e. start_of_interval n (e_SampledAt e)) es)))"

definition bucket_seconds :: "duration \<Rightarrow> int" where
  "bucket_seconds bucket = (let bucketSeconds = go_div bucket second in if bucketSeconds = 0 then 1 else bucketSeconds)"

definition Series ::
  "(real \<Rightarrow> nat list \<Rightarrow> nat) \<Rightarrow> faults \<Rightarrow> event list \<Rightarrow> uuid \<Rightarrow> time \<Rightarrow> time \<Rightarrow> duration \<Rightarrow> series_point list result" where
  "Series quantile f table sid lo hi bucket =
     (if lo > hi then Inl ErrInvalidRange
      else if bucket \<le> 0 then Inl ErrInvalidBucket
      else (case f 0 of
        Some e \<Rightarrow> Inl (Wrapped ''query series'' e)
      | None \<Rightarrow> scan_rows ''scan series'' ''iterate series'' (\<lambda>k. f (Suc k))
          (series_query quantile (bucket_seconds bucket)
            (filter (\<lambda>e. e_SessionID e = sid \<and> lo \<le> e_SampledAt e \<and> e_SampledAt e \<le> hi) table))))"

definition SeriesForSessions ::
  "(real \<Rightarrow> nat list \<Rightarrow> nat) \<Rightarrow> faults \<Rightarrow> event list \<Rightarrow> uuid list \<Rightarrow> time \<Rightarrow> time \<Rightarrow> duration \<Rightarrow> series_point list result" where
  "SeriesForSessions quantile f table sids lo hi bucket =
     (if lo > hi then Inl ErrInvalidRange
      else if bucket \<le> 0 then Inl ErrInvalidBucket
      else if sids = [] then Inr []
      else (case f 0 of
        Some e \<Rightarrow> Inl (Wrapped ''query run series'' e)
      | None \<Rightarrow> scan_rows ''scan run series'' ''iterate run series'' (\<lambda>k. f (Suc k))
          (series_query quantile (bucket_seconds bucket)
            (filter (\<lambda>e. e_SessionID e \<in> set sids \<and> lo \<le> e_SampledAt e \<and> e_SampledAt e \<le> hi) table))))"


subsection \<open>Stickiness and pool growth\<close>

record observation =
  ob_at :: time
  ob_ip :: addr

text \<open>\<open>net.IP.String\<close>.\<close>

definition ip_string :: "addr \<Rightarrow> string" where
  "ip_string a = (if a = NoAddr then ''<nil>'' else addr_str (unmap a))"

definition close_hold :: "hold \<Rightarrow> hold" where
  "close_hold h = h\<lparr>ho_DurationSeconds := go_div (time_sub (ho_EndedAt h) (ho_StartedAt h)) second\<rparr>"

definition open_hold :: "observation \<Rightarrow> hold" where
  "open_hold o1 = \<lparr>ho_IP = ip_string (ob_ip o1), ho_StartedAt = ob_at o1, ho_EndedAt = ob_at o1, ho_Samples = 1, ho_DurationSeconds = 0\<rparr>"

text \<open>The loop over the observations; the zero time is 0.\<close>

fun hold_loop :: "time \<Rightarrow> hold \<Rightarrow> time \<Rightarrow> observation list \<Rightarrow> hold list \<times> rotation list" where
  "hold_loop firstAt current previousRotation [] = ([close_hold current], [])"
| "hold_loop firstAt current previousRotation (o1 # os) =
     (if ip_string (ob_ip o1) = ho_IP current
      then hold_loop firstAt (current\<lparr>ho_EndedAt := ob_at o1, ho_Samples := ho_Samples current + 1\<rparr>) previousRotation os
      else (let cadenceStart = (if previousRotation = 0 then firstAt else previousRotation);
                rotation = \<lparr>ro_At = ob_at o1, ro_FromIP = ho_IP current, ro_ToIP = ip_string (ob_ip o1),
                            ro_SincePreviousSeconds = go_div (time_sub (ob_at o1) cadenceStart) second\<rparr>;
                (holds, rotations) = hold_loop firstAt (open_hold o1) (ob_at o1) os
            in (close_hold current # holds, rotation # rotations)))"

definition deriveStickiness :: "observation list \<Rightarrow> stickiness" where
  "deriveStickiness observations =
     (case observations of
        [] \<Rightarrow> \<lparr>sk_Holds = [], sk_Rotations = [], sk_AverageHoldSeconds = 0, sk_MedianHoldSeconds = 0\<rparr>
      | o0 # os \<Rightarrow>
          (let (holds, rotations) = hold_loop (ob_at o0) (open_hold o0) 0 os;
               durations = map (\<lambda>h. real_of_int (ho_DurationSeconds h)) holds;
               sorted = sort durations;
               middle = length sorted div 2
           in \<lparr>sk_Holds = holds, sk_Rotations = rotations,
               sk_AverageHoldSeconds = sum_list durations / real (length durations),
               sk_MedianHoldSeconds = (if length sorted mod 2 = 1 then sorted ! middle
                                       else (sorted ! (middle - 1) + sorted ! middle) / 2)\<rparr>))"

definition Stickiness :: "faults \<Rightarrow> event list \<Rightarrow> uuid \<Rightarrow> time \<Rightarrow> time \<Rightarrow> stickiness result" where
  "Stickiness f table sid lo hi =
     (if lo > hi then Inl ErrInvalidRange
      else (case f 0 of
        Some e \<Rightarrow> Inl (Wrapped ''query stickiness'' e)
      | None \<Rightarrow>
     (case scan_rows ''scan stickiness'' ''iterate stickiness'' (\<lambda>k. f (Suc k))
             (map (\<lambda>e. \<lparr>ob_at = e_SampledAt e, ob_ip = e_PrimaryIP e\<rparr>)
               (chronological (filter (\<lambda>e. sampleWhere sid (Some lo) (Some hi) e \<and> succeeded e) table))) of
        Inl e \<Rightarrow> Inl e
      | Inr observations \<Rightarrow> Inr (deriveStickiness observations))))"

fun growth_loop :: "64 word \<Rightarrow> (time \<times> 8 word) list \<Rightarrow> growth_point list" where
  "growth_loop total1 [] = []"
| "growth_loop total1 ((at1, newIPs) # rows) =
     (let total2 = total1 + ucast newIPs in \<lparr>gp_At = at1, gp_DistinctIPs = total2\<rparr> # growth_loop total2 rows)"

definition PoolGrowth :: "faults \<Rightarrow> event list \<Rightarrow> uuid \<Rightarrow> time \<Rightarrow> time \<Rightarrow> growth_point list result" where
  "PoolGrowth f table sid lo hi =
     (if lo > hi then Inl ErrInvalidRange
      else (case f 0 of
        Some e \<Rightarrow> Inl (Wrapped ''query pool growth'' e)
      | None \<Rightarrow>
     (case scan_rows ''scan pool growth'' ''iterate pool growth'' (\<lambda>k. f (Suc k))
             (map (\<lambda>e. (e_SampledAt e, e_NewIPs e)) (chronological (filter (sampleWhere sid (Some lo) (Some hi)) table))) of
        Inl e \<Rightarrow> Inl e
      | Inr rows \<Rightarrow> Inr (growth_loop 0 rows))))"


subsection \<open>Deleting samples\<close>

text \<open>\<open>mutations_sync = 1\<close>: the mutation has finished when the statement returns; a failed one may or may not have run (\<open>applied\<close>).\<close>

definition DeleteSession :: "go_error option \<Rightarrow> bool \<Rightarrow> uuid \<Rightarrow> event list \<Rightarrow> event list \<times> go_error option" where
  "DeleteSession fault applied sid table =
     (case fault of
        Some e \<Rightarrow> (if applied then filter (\<lambda>e. e_SessionID e \<noteq> sid) table else table, Some (Wrapped ''delete clickhouse session samples'' e))
      | None \<Rightarrow> (filter (\<lambda>e. e_SessionID e \<noteq> sid) table, None))"

definition DeleteSessions :: "go_error option \<Rightarrow> bool \<Rightarrow> uuid list \<Rightarrow> event list \<Rightarrow> event list \<times> go_error option" where
  "DeleteSessions fault applied sids table =
     (if sids = [] then (table, None)
      else (case fault of
        Some e \<Rightarrow> (if applied then filter (\<lambda>e. e_SessionID e \<notin> set sids) table else table, Some (Wrapped ''delete clickhouse session samples'' e))
      | None \<Rightarrow> (filter (\<lambda>e. e_SessionID e \<notin> set sids) table, None)))"


subsection \<open>Pages\<close>

lemma scan_rows_ok: "scan_rows scan iterate (\<lambda>k. None) rows = Inr rows"
  by (induction rows) simp_all

text \<open>The unsigned offset: no page wraps, and the largest page served is the last whose offset fits 63 bits.\<close>

lemma sint_of_small: "0 \<le> x \<Longrightarrow> x < 2 ^ 63 \<Longrightarrow> sint (word_of_int x :: 64 word) = x"
  by (simp add: sint_uint uint_word_of_int signed_take_bit_int_eq_self)

lemma checkedPageOffset_exact:
  assumes "1 \<le> page" and "page < 2 ^ 63"
  shows "checkedPageOffset page = (if page - 1 \<le> (2 ^ 63 - 1) div 50 then Inr (50 * (page - 1)) else Inl ErrInvalidPage)"
proof -
  have u: "uint (word_of_int (page - 1) :: 64 word) = page - 1"
    by (subst uint_word_of_int) (use assms in simp)
  have d: "uint ((2 ^ 63 - 1 :: 64 word) div word_of_nat samplePageSize) = (2 ^ 63 - 1) div 50"
    by (simp add: samplePageSize_def uint_div_distrib)
  have gt: "(word_of_int (page - 1) :: 64 word) > (2 ^ 63 - 1) div word_of_nat samplePageSize \<longleftrightarrow> page - 1 > (2 ^ 63 - 1) div 50"
    unfolding word_less_def u d ..
  have "sint ((word_of_int (page - 1) :: 64 word) * word_of_nat samplePageSize) = 50 * (page - 1)" if "page - 1 \<le> (2 ^ 63 - 1) div 50"
  proof -
    have "(word_of_int (page - 1) :: 64 word) * word_of_nat samplePageSize = word_of_int (50 * (page - 1))"
      by (simp add: samplePageSize_def mult.commute)
    moreover have "0 \<le> 50 * (page - 1)" "50 * (page - 1) < 2 ^ 63" using assms that by simp_all
    then have "sint (word_of_int (50 * (page - 1)) :: 64 word) = 50 * (page - 1)" by (rule sint_of_small)
    ultimately show ?thesis by (rule trans [OF arg_cong])
  qed
  then show ?thesis unfolding checkedPageOffset_def Let_def gt by simp
qed

lemma take_take_drop: "take (50 * n) xs @ take 50 (drop (50 * n) xs) = take (50 * Suc n) xs"
  using take_add [of "50 * n" 50 xs] by (simp add: add.commute)




subsection \<open>Holds and rotations\<close>

text \<open>The holds are the run-length encoding of the observed addresses, the rotations the seams between them.\<close>

definition hold_runs :: "hold list \<Rightarrow> string list" where
  "hold_runs hs = concat (map (\<lambda>h. replicate (ho_Samples h) (ho_IP h)) hs)"

lemma hold_loop_runs:
  assumes "hold_loop firstAt current prev os = (holds, rotations)"
  shows "hold_runs holds = replicate (ho_Samples current) (ho_IP current) @ map (\<lambda>x. ip_string (ob_ip x)) os
    \<and> distinct_adj (map ho_IP holds) \<and> map ro_FromIP rotations = butlast (map ho_IP holds)
    \<and> map ro_ToIP rotations = tl (map ho_IP holds) \<and> ho_IP (hd holds) = ho_IP current
    \<and> ho_StartedAt (hd holds) = ho_StartedAt current \<and> holds \<noteq> []
    \<and> map ro_At rotations = map ho_StartedAt (tl holds)"
  using assms
proof (induction os arbitrary: current prev holds rotations)
  case Nil
  then show ?case by (auto simp: hold_runs_def close_hold_def)
next
  case (Cons x os)
  show ?case
  proof (cases "ip_string (ob_ip x) = ho_IP current")
    case True
    with Cons.IH [of "current\<lparr>ho_EndedAt := ob_at x, ho_Samples := ho_Samples current + 1\<rparr>" prev holds rotations] Cons.prems
    show ?thesis by (simp add: replicate_append_same)
  next
    case False
    obtain hs rs where r: "hold_loop firstAt (open_hold x) (ob_at x) os = (hs, rs)" by fastforce
    note IH = Cons.IH [OF r]
    show ?thesis
      using IH r False Cons.prems
      by (cases hs) (auto simp: hold_runs_def close_hold_def open_hold_def Let_def)
  qed
qed

text \<open>
  C34: the stickiness report is the run-length encoding of the observed primary addresses: the holds, each
  repeated by its sample count, spell them out, neighbouring holds differ, every seam between two holds
  is one rotation with their addresses at the start of the later one, and the average is the mean
  duration of the holds.
\<close>

theorem stickiness_runs:
  fixes observations
  defines "s \<equiv> deriveStickiness observations"
  shows "hold_runs (sk_Holds s) = map (\<lambda>x. ip_string (ob_ip x)) observations
     \<and> distinct_adj (map ho_IP (sk_Holds s))
     \<and> map ro_FromIP (sk_Rotations s) = butlast (map ho_IP (sk_Holds s))
     \<and> map ro_ToIP (sk_Rotations s) = tl (map ho_IP (sk_Holds s))
     \<and> map ro_At (sk_Rotations s) = map ho_StartedAt (tl (sk_Holds s))
     \<and> sk_AverageHoldSeconds s * real (length (sk_Holds s)) = real_of_int (sum_list (map ho_DurationSeconds (sk_Holds s)))"
proof (cases observations)
  case Nil
  then show ?thesis by (simp add: s_def deriveStickiness_def hold_runs_def)
next
  case (Cons o0 os)
  obtain holds rotations where l: "hold_loop (ob_at o0) (open_hold o0) 0 os = (holds, rotations)" by fastforce
  have s: "sk_Holds s = holds" "sk_Rotations s = rotations"
    "sk_AverageHoldSeconds s = sum_list (map (\<lambda>h. real_of_int (ho_DurationSeconds h)) holds) / real (length holds)"
    using l Cons by (simp_all add: s_def deriveStickiness_def Let_def)
  note runs = hold_loop_runs [OF l]
  have "sum_list (map (\<lambda>h. real_of_int (ho_DurationSeconds h)) hs) = real_of_int (sum_list (map ho_DurationSeconds hs))" for hs
    by (induction hs) simp_all
  with runs show ?thesis unfolding s by (simp add: Cons open_hold_def)
qed

end
