(* ===== verification/OpLocks.thy ===== *)
theory OpLocks
  imports Model Schedules
begin

text \<open>
  The per-session operation locks of \<open>internal/sampler/supervisor.go\<close>: \<open>withSessionOperation\<close>,
  \<open>withOperations\<close>, \<open>Wait\<close> and the sorted, deduplicated order in which \<open>DeleteSessions\<close> takes them. Any number
  of lifecycle operations run concurrently, each with the list of sessions it must own; a step is one
  critical section of the supervisor's mutex. An operation that finds its session busy waits on the
  channel of the operation in progress and tries again, so it moves only when the lock is free, its
  context is cancelled or the supervisor closes.
\<close>

subsection \<open>The order of the locks\<close>

text \<open>
  The deduplication loop shares its array with the slice it filters (\<open>deduped := ordered[:0]\<close>): \<open>xs\<close> is
  that array, \<open>j\<close> the length of the result so far, \<open>i\<close> the next index.
\<close>

function dedup_loop :: "nat \<Rightarrow> nat \<Rightarrow> uuid list \<Rightarrow> uuid list" where
  "dedup_loop i j xs =
     (if i < length xs
      then (if i = 0 \<or> xs ! i \<noteq> xs ! (i - 1)
            then dedup_loop (Suc i) (Suc j) (xs[j := xs ! i])
            else dedup_loop (Suc i) j xs)
      else take j xs)"
  by pat_completeness auto
termination by (relation "measure (\<lambda>(i, j, xs). length xs - i)") auto

declare dedup_loop.simps [simp del]

definition orderedIDs :: "uuid list \<Rightarrow> uuid list" where
  "orderedIDs ids = dedup_loop 0 0 (sort ids)"

text \<open>Filtering in place never reads a cell it has changed: the result is that of a pure deduplication.\<close>

lemma remdups_adj_snoc:
  "remdups_adj (xs @ [y]) = (if xs \<noteq> [] \<and> last xs = y then remdups_adj xs else remdups_adj xs @ [y])"
  by (cases xs rule: rev_cases) (auto simp: remdups_adj_append_two)

lemma dedup_loop_invariant:
  assumes "i \<le> length xs" and "j \<le> i" and "drop i xs = drop i ys" and "length xs = length ys"
    and "0 < i \<Longrightarrow> xs ! (i - 1) = ys ! (i - 1)" and "take j xs = remdups_adj (take i ys)" and "sorted ys"
  shows "dedup_loop i j xs = remdups_adj ys"
  using assms
proof (induction i j xs rule: dedup_loop.induct)
  case (1 i j xs)
  show ?case
  proof (cases "i < length xs")
    case False
    with "1.prems" show ?thesis by (subst dedup_loop.simps) simp
  next
    case True
    have xi: "xs ! i = ys ! i" using arg_cong [OF "1.prems"(3), of hd] True "1.prems"(4) by (simp add: hd_drop_conv_nth)
    have dr: "drop (Suc i) xs = drop (Suc i) ys" using arg_cong [OF "1.prems"(3), of tl] by (simp add: drop_Suc tl_drop)
    have tk: "take (Suc i) ys = take i ys @ [ys ! i]" using True "1.prems"(4) by (simp add: take_Suc_conv_app_nth)
    have lst: "last (take i ys) = ys ! (i - 1)" if "0 < i"
      using that True "1.prems"(4) by (subst last_conv_nth) (auto simp: min_def)
    have snoc: "remdups_adj (take (Suc i) ys) = (if 0 < i \<and> ys ! (i - 1) = ys ! i then remdups_adj (take i ys)
        else remdups_adj (take i ys) @ [ys ! i])"
      using True "1.prems"(4) lst unfolding tk by (cases "i = 0") (auto simp: remdups_adj_snoc)
    show ?thesis
    proof (cases "i = 0 \<or> xs ! i \<noteq> xs ! (i - 1)")
      case new: True
      have "remdups_adj (take (Suc i) ys) = remdups_adj (take i ys) @ [ys ! i]"
        using new xi "1.prems"(5) snoc by (cases "i = 0") simp_all
      moreover have "take (Suc j) (xs[j := xs ! i]) = take j xs @ [xs ! i]"
        using True "1.prems"(2) by (simp add: take_Suc_conv_app_nth)
      moreover have "drop (Suc i) (xs[j := xs ! i]) = drop (Suc i) ys" using dr "1.prems"(2) by simp
      moreover have "xs[j := xs ! i] ! i = ys ! i" using xi True by (cases "j = i") simp_all
      ultimately show ?thesis
        using True new "1.IH"(1) [OF True new] "1.prems" xi by (simp add: dedup_loop.simps [of i])
    next
      case old: False
      then have "remdups_adj (take (Suc i) ys) = remdups_adj (take i ys)"
        using xi "1.prems"(5) snoc by simp
      then show ?thesis
        using True old "1.IH"(2) [OF True old] "1.prems" dr xi by (simp add: dedup_loop.simps [of i])
    qed
  qed
qed

lemma orderedIDs_remdups_adj: "orderedIDs ids = remdups_adj (sort ids)"
  unfolding orderedIDs_def by (rule dedup_loop_invariant) simp_all

subsection \<open>Operations and their steps\<close>

datatype op_phase = Acquiring | Working | Releasing | Returned

record op =
  op_todo :: "uuid list"
  op_held :: "uuid list"
  op_phase :: op_phase

record locks =
  operations :: "uuid \<Rightarrow> nat option"
  closing :: bool
  ops :: "op list"

definition start_locks :: "uuid list list \<Rightarrow> locks" where
  "start_locks idss = \<lparr>operations = (\<lambda>_. None), closing = False,
     ops = map (\<lambda>ids. \<lparr>op_todo = orderedIDs ids, op_held = [], op_phase = Acquiring\<rparr>) idss\<rparr>"

text \<open>
  \<open>acquire\<close>, \<open>refused\<close> and \<open>cancelled\<close> are the three ways through the loop of \<open>withSessionOperation\<close> for the
  next id; \<open>enter\<close> is the call of the operation under all its locks, \<open>leave\<close> its return, \<open>release\<close> one
  unwinding of the nested calls, \<open>shutdown\<close> is \<open>Wait\<close>.
\<close>

inductive lock_step :: "locks \<Rightarrow> locks \<Rightarrow> bool" where
  acquire: "i < length (ops s) \<Longrightarrow> ops s ! i = \<lparr>op_todo = k # ks, op_held = hs, op_phase = Acquiring\<rparr> \<Longrightarrow>
      \<not> closing s \<Longrightarrow> operations s k = None \<Longrightarrow>
      lock_step s (s\<lparr>operations := (operations s)(k := Some i),
        ops := (ops s)[i := \<lparr>op_todo = ks, op_held = k # hs, op_phase = Acquiring\<rparr>]\<rparr>)"
| refused: "i < length (ops s) \<Longrightarrow> ops s ! i = \<lparr>op_todo = k # ks, op_held = hs, op_phase = Acquiring\<rparr> \<Longrightarrow>
      closing s \<Longrightarrow>
      lock_step s (s\<lparr>ops := (ops s)[i := \<lparr>op_todo = k # ks, op_held = hs, op_phase = Releasing\<rparr>]\<rparr>)"
| cancelled: "i < length (ops s) \<Longrightarrow> ops s ! i = \<lparr>op_todo = k # ks, op_held = hs, op_phase = Acquiring\<rparr> \<Longrightarrow>
      operations s k \<noteq> None \<Longrightarrow>
      lock_step s (s\<lparr>ops := (ops s)[i := \<lparr>op_todo = k # ks, op_held = hs, op_phase = Releasing\<rparr>]\<rparr>)"
| enter: "i < length (ops s) \<Longrightarrow> ops s ! i = \<lparr>op_todo = [], op_held = hs, op_phase = Acquiring\<rparr> \<Longrightarrow>
      lock_step s (s\<lparr>ops := (ops s)[i := \<lparr>op_todo = [], op_held = hs, op_phase = Working\<rparr>]\<rparr>)"
| leave: "i < length (ops s) \<Longrightarrow> ops s ! i = \<lparr>op_todo = [], op_held = hs, op_phase = Working\<rparr> \<Longrightarrow>
      lock_step s (s\<lparr>ops := (ops s)[i := \<lparr>op_todo = [], op_held = hs, op_phase = Releasing\<rparr>]\<rparr>)"
| release: "i < length (ops s) \<Longrightarrow> ops s ! i = \<lparr>op_todo = ks, op_held = h # hs, op_phase = Releasing\<rparr> \<Longrightarrow>
      lock_step s (s\<lparr>operations := (if operations s h = Some i then (operations s)(h := None) else operations s),
        ops := (ops s)[i := \<lparr>op_todo = ks, op_held = hs, op_phase = Releasing\<rparr>]\<rparr>)"
| returned: "i < length (ops s) \<Longrightarrow> ops s ! i = \<lparr>op_todo = ks, op_held = [], op_phase = Releasing\<rparr> \<Longrightarrow>
      lock_step s (s\<lparr>ops := (ops s)[i := \<lparr>op_todo = ks, op_held = [], op_phase = Returned\<rparr>]\<rparr>)"
| shutdown: "\<not> closing s \<Longrightarrow> lock_step s (s\<lparr>closing := True\<rparr>)"

inductive_cases lock_stepE: "lock_step s s'"


subsection \<open>Mutual exclusion\<close>

text \<open>
  Each session's entry names the one operation that holds it; an operation holds a descending prefix of
  its sorted list, whole when it works and nothing once it has returned.
\<close>

definition op_ok :: "uuid list \<Rightarrow> op \<Rightarrow> bool" where
  "op_ok ids x \<longleftrightarrow> (op_phase x \<in> {Acquiring, Working} \<longrightarrow> rev (op_held x) @ op_todo x = orderedIDs ids)"

definition op_shape :: "op \<Rightarrow> bool" where
  "op_shape x \<longleftrightarrow> sorted_wrt (<) (rev (op_held x) @ op_todo x)
     \<and> (op_phase x = Working \<longrightarrow> op_todo x = []) \<and> (op_phase x = Returned \<longrightarrow> op_held x = [])"

definition lock_inv :: "uuid list list \<Rightarrow> locks \<Rightarrow> bool" where
  "lock_inv idss s \<longleftrightarrow> length (ops s) = length idss
     \<and> (\<forall>i < length idss. op_ok (idss ! i) (ops s ! i) \<and> op_shape (ops s ! i))
     \<and> (\<forall>k i. operations s k = Some i \<longleftrightarrow> i < length (ops s) \<and> k \<in> set (op_held (ops s ! i)))"

lemma orderedIDs_strict: "sorted_wrt (<) (orderedIDs ids)"
proof -
  have "sorted xs \<Longrightarrow> sorted_wrt (<) (remdups_adj xs)" for xs :: "uuid list"
    by (induction xs rule: remdups_adj.induct) (auto simp: le_less)
  then show ?thesis by (simp add: orderedIDs_remdups_adj)
qed

lemma set_orderedIDs: "set (orderedIDs ids) = set ids"
  by (simp add: orderedIDs_remdups_adj)

lemma lock_inv_start: "lock_inv idss (start_locks idss)"
  by (auto simp: lock_inv_def start_locks_def op_ok_def op_shape_def orderedIDs_strict)

lemma lock_invD:
  assumes "lock_inv idss s"
  shows "i < length (ops s) \<Longrightarrow> op_ok (idss ! i) (ops s ! i)" "i < length (ops s) \<Longrightarrow> op_shape (ops s ! i)"
    "operations s k = Some i \<longleftrightarrow> i < length (ops s) \<and> k \<in> set (op_held (ops s ! i))"
  using assms by (simp_all add: lock_inv_def)

lemma lock_inv_phase:
  assumes "lock_inv idss s" and "i < length (ops s)"
    and "ops s ! i = \<lparr>op_todo = ks, op_held = hs, op_phase = ph\<rparr>"
    and "ph' \<noteq> Acquiring" "ph' = Working \<Longrightarrow> ph = Acquiring \<and> ks = []" "ph' = Returned \<Longrightarrow> hs = []"
  shows "lock_inv idss (s\<lparr>ops := (ops s)[i := \<lparr>op_todo = ks, op_held = hs, op_phase = ph'\<rparr>]\<rparr>)"
proof -
  let ?x = "\<lparr>op_todo = ks, op_held = hs, op_phase = ph'\<rparr>"
  have "op_ok (idss ! i) ?x" "op_shape ?x"
    using lock_invD(1,2) [OF assms(1,2), unfolded assms(3)] assms(4-6) by (auto simp: op_ok_def op_shape_def)
  then show ?thesis using assms(1-3) unfolding lock_inv_def by (auto simp: nth_list_update)
qed

lemma lock_step_inv: "lock_step s s' \<Longrightarrow> lock_inv idss s \<Longrightarrow> lock_inv idss s'"
proof (induction rule: lock_step.induct)
  case (acquire i s k ks hs)
  let ?x = "\<lparr>op_todo = ks, op_held = k # hs, op_phase = Acquiring\<rparr>"
  note x = lock_invD(1,2) [OF acquire(5,1)] and table = lock_invD(3) [OF acquire(5)]
  from x have "op_ok (idss ! i) ?x" "op_shape ?x" by (simp_all add: acquire(2) op_ok_def op_shape_def)
  moreover have "((operations s)(k := Some i)) k' = Some i' \<longleftrightarrow> i' < length (ops s) \<and> k' \<in> set (op_held ((ops s)[i := ?x] ! i'))" for k' i'
    using table [of k' i'] table [of k i'] acquire(1,2,4) by (cases "k' = k"; cases "i' = i") auto
  ultimately show ?case using acquire(1,5) unfolding lock_inv_def by (auto simp: nth_list_update)
next
  case (release i s ks h hs)
  let ?x = "\<lparr>op_todo = ks, op_held = hs, op_phase = Releasing\<rparr>"
  note x = lock_invD(1,2) [OF release(3,1)] and table = lock_invD(3) [OF release(3)]
  from x have ok: "op_ok (idss ! i) ?x" "op_shape ?x" and h: "h \<notin> set hs"
    by (auto simp: release(2) op_ok_def op_shape_def sorted_wrt_append)
  have own: "operations s h = Some i" using table release(1,2) by simp
  have "((operations s)(h := None)) k' = Some i' \<longleftrightarrow> i' < length (ops s) \<and> k' \<in> set (op_held ((ops s)[i := ?x] ! i'))" for k' i'
    using table [of k' i'] table [of h i'] own release(1,2) h by (cases "k' = h"; cases "i' = i") auto
  with ok own show ?case using release(1,3) unfolding lock_inv_def by (auto simp: nth_list_update)
next
  case (shutdown s)
  then show ?case by (simp add: lock_inv_def)
qed (rule lock_inv_phase; simp)+

lemma lock_reach_inv: "lock_step\<^sup>*\<^sup>* (start_locks idss) s \<Longrightarrow> lock_inv idss s"
  by (induction rule: rtranclp_induct) (auto intro: lock_inv_start lock_step_inv)

text \<open>
  C24: however many lifecycle operations run concurrently, no session is ever owned by two of them, and an
  operation does its work only while it owns every session it names; what returned owns nothing.
\<close>

theorem operations_exclusive:
  assumes "lock_step\<^sup>*\<^sup>* (start_locks idss) s" and "i < length idss"
  shows "(case op_phase (ops s ! i) of Working \<Rightarrow> set (op_held (ops s ! i)) = set (idss ! i)
            | Returned \<Rightarrow> op_held (ops s ! i) = [] | _ \<Rightarrow> distinct (op_held (ops s ! i)))
     \<and> list_all (\<lambda>j. j = i \<or> set (op_held (ops s ! i)) \<inter> set (op_held (ops s ! j)) = {}) [0..<length idss]"
proof -
  note inv = lock_reach_inv [OF assms(1)]
  have len: "length (ops s) = length idss" using inv by (simp add: lock_inv_def)
  note x = lock_invD(1,2) [OF inv, of i, unfolded len, OF assms(2)]
  have "set (op_held (ops s ! i)) = set (idss ! i)" if "op_phase (ops s ! i) = Working"
  proof -
    from x that have "rev (op_held (ops s ! i)) = orderedIDs (idss ! i)" by (simp add: op_ok_def op_shape_def)
    then show ?thesis using set_orderedIDs [of "idss ! i"] by (metis set_rev)
  qed
  moreover have "distinct (op_held (ops s ! i))"
    using x(2) strict_sorted_iff [of "rev (op_held (ops s ! i))"] by (simp add: op_shape_def sorted_wrt_append)
  moreover have "k \<notin> set (op_held (ops s ! j))" if "j \<noteq> i" "j < length idss" "k \<in> set (op_held (ops s ! i))" for j k
    using lock_invD(3) [OF inv, of k i] lock_invD(3) [OF inv, of k j] that assms(2) len by auto
  ultimately show ?thesis using x(2) by (auto simp: op_shape_def list_all_iff split: op_phase.split)
qed

theorem operations_exclusive_witness:
  "set (op_held (ops (start_locks [[2, 1], [1]]) ! 0)) \<inter> set (op_held (ops (start_locks [[2, 1], [1]]) ! 1)) = {}"
  using operations_exclusive [OF rtranclp.rtrancl_refl, of 0 "[[2, 1], [1]]"] by (simp add: upt_rec numeral_2_eq_2)


subsection \<open>No deadlock\<close>

definition op_work :: "op \<Rightarrow> nat" where
  "op_work x = (case op_phase x of
      Acquiring \<Rightarrow> 2 * length (op_todo x) + length (op_held x) + 3
    | Working \<Rightarrow> length (op_held x) + 2
    | Releasing \<Rightarrow> length (op_held x) + 1
    | Returned \<Rightarrow> 0)"

definition lock_work :: "locks \<Rightarrow> nat" where
  "lock_work s = sum_list (map op_work (ops s)) + (if closing s then 0 else 1)"

lemma lock_step_work: "lock_step s s' \<Longrightarrow> lock_work s' < lock_work s"
  by (induction rule: lock_step.induct) (simp_all add: lock_work_def sum_list_replace_less op_work_def)

interpretation lock: bounded_steps lock_step lock_work
  by unfold_locales (rule lock_step_work)

text \<open>An operation that is not waiting for another one can move.\<close>

lemma op_moves:
  assumes "i < length (ops s)" and "op_phase (ops s ! i) \<noteq> Returned" and "op_shape (ops s ! i)"
    and "\<not> (op_phase (ops s ! i) = Acquiring \<and> op_todo (ops s ! i) \<noteq> [] \<and> \<not> closing s \<and> operations s (hd (op_todo (ops s ! i))) \<noteq> None)"
  shows "\<exists>s'. lock_step s s' \<and> closing s' = closing s"
proof (cases "ops s ! i")
  case (fields ks hs ph)
  show ?thesis
  proof (cases ph)
    case Acquiring
    show ?thesis
    proof (cases ks)
      case Nil
      with lock_step.enter [OF assms(1)] fields Acquiring show ?thesis by fastforce
    next
      case (Cons k ks')
      show ?thesis
      proof (cases "closing s")
        case True
        with lock_step.refused [OF assms(1)] fields Acquiring Cons show ?thesis by fastforce
      next
        case False
        with assms(4) fields Acquiring Cons have "operations s k = None" by simp
        with lock_step.acquire [OF assms(1)] fields Acquiring Cons False show ?thesis by fastforce
      qed
    qed
  next
    case Working
    with assms(3) fields have "ks = []" by (simp add: op_shape_def)
    with lock_step.leave [OF assms(1)] fields Working show ?thesis by fastforce
  next
    case Releasing
    with lock_step.release [OF assms(1)] lock_step.returned [OF assms(1)] fields show ?thesis
      by (cases hs) fastforce+
  next
    case Returned
    with assms(2) fields show ?thesis by simp
  qed
qed

text \<open>Every waiting operation waits for a session larger than all it holds, so the largest wait is for an operation that moves.\<close>

lemma locks_progress:
  assumes inv: "lock_inv idss s" and i: "i < length (ops s)" "op_phase (ops s ! i) \<noteq> Returned"
  shows "\<exists>s'. lock_step s s' \<and> closing s' = closing s"
proof (rule ccontr)
  assume stuck: "\<not> ?thesis"
  define W where "W = {j. j < length (ops s) \<and> op_phase (ops s ! j) \<noteq> Returned}"
  define want where "want j = hd (op_todo (ops s ! j))" for j
  have waits: "op_todo (ops s ! j) \<noteq> [] \<and> operations s (want j) \<noteq> None" if "j \<in> W" for j
    using op_moves [of j s] lock_invD(2) [OF inv, of j] that stuck by (auto simp: W_def want_def)
  have "finite (want ` W)" "want ` W \<noteq> {}" using i by (auto simp: W_def)
  then have "Max (want ` W) \<in> want ` W" by (rule Max_in)
  then obtain j where j: "j \<in> W" "want j = Max (want ` W)" by auto
  from waits [OF j(1)] obtain h where h: "operations s (want j) = Some h" by auto
  then have held: "h < length (ops s)" "want j \<in> set (op_held (ops s ! h))" using lock_invD(3) [OF inv] by auto
  have shape: "op_shape (ops s ! h)" using lock_invD(2) [OF inv held(1)] .
  have hW: "h \<in> W" using held shape by (auto simp: W_def op_shape_def)
  then have "want h \<in> set (op_todo (ops s ! h))" using waits [OF hW] by (simp add: want_def)
  then have "want j < want h" using shape held(2) by (auto simp: op_shape_def sorted_wrt_append)
  moreover have "want h \<le> want j" unfolding j(2) using hW by (intro Max_ge) (auto simp: W_def)
  ultimately show False by simp
qed

text \<open>
  C25: lifecycle operations never deadlock, whatever sessions they name and in whatever order the scheduler
  runs them: as long as one has not returned some operation can move without the supervisor being closed,
  and every schedule ends within a bound given by the lists of sessions alone.
\<close>

theorem operations_deadlock_free:
  assumes "(lock_step ^^ n) (start_locks idss) s"
  shows "n \<le> sum_list (map (\<lambda>ids. 2 * length ids + 3) idss) + 1
     \<and> (list_all (\<lambda>x. op_phase x = Returned) (ops s) \<or> (\<exists>s'. lock_step s s' \<and> closing s' = closing s))"
proof -
  note inv = lock_reach_inv [OF relpowp_imp_rtranclp [OF assms]]
  have "length (orderedIDs ids) \<le> length ids" for ids
    by (simp add: orderedIDs_remdups_adj) (metis length_sort remdups_adj_length)
  then have "lock_work (start_locks idss) \<le> sum_list (map (\<lambda>ids. 2 * length ids + 3) idss) + 1"
    by (auto simp: lock_work_def start_locks_def op_work_def comp_def intro!: sum_list_mono)
  with lock.runs_bounded [OF assms] have "n \<le> sum_list (map (\<lambda>ids. 2 * length ids + 3) idss) + 1" by simp
  moreover have "\<exists>s'. lock_step s s' \<and> closing s' = closing s" if "\<not> list_all (\<lambda>x. op_phase x = Returned) (ops s)"
    using that locks_progress [OF inv] by (auto simp: list_all_length)
  ultimately show ?thesis by blast
qed

theorem operations_deadlock_free_witness:
  "\<exists>s'. lock_step (start_locks [[2, 1, 2], [1, 2]]) s' \<and> \<not> closing s'"
  using operations_deadlock_free [of 0 "[[2, 1, 2], [1, 2]]"] by (simp add: start_locks_def)

end
