(* ===== verification/Supervisor.thy ===== *)
theory Supervisor
  imports PgStore Worker Reader OpLocks Writer
begin

text \<open>
  \<open>internal/sampler/supervisor.go\<close>: the owner of the sampling workers. Each lifecycle operation runs under
  its sessions' operation locks (theory OpLocks), so it is a function on the supervisor's state: the
  database, the ClickHouse table with the events still queued for it, and the map of owned workers. The
  answers of the environment are arguments: failing statements, expired deadlines, what preparing a
  worker yields, and what a cancelled worker still writes before its goroutine ends.
\<close>

subsection \<open>State\<close>

text \<open>\<open>runningWorker\<close>; its identity (the pointer) is a number.\<close>

record running_worker =
  rn_ref :: nat
  rn_prepared :: prepared_worker
  rn_cancelled :: bool

record supervisor =
  sv_store :: db
  sv_workers :: "uuid \<Rightarrow> running_worker option"
  sv_closing :: bool
  sv_root :: "go_error option"
  sv_recoveryCtx :: "go_error option"
  sv_recoveryScheduled :: "(uuid \<times> nat) list"
  sv_next :: nat
  sv_pending :: "event list"
  sv_samples :: "event list"

text \<open>What starting a session meets: the fault plan of its read and the outcome of factory and preparation.\<close>

record start_env =
  se_fault :: fault_plan
  se_prepare :: "session \<Rightarrow> prepared_worker result"

definition sessionOperation ::
  "go_error option \<Rightarrow> 'r \<Rightarrow> (supervisor \<Rightarrow> supervisor \<times> 'r \<times> go_error option) \<Rightarrow> supervisor \<Rightarrow> supervisor \<times> 'r \<times> go_error option" where
  "sessionOperation waiting none operation s =
     (if sv_closing s then (s, none, Some ErrSupervisorClosed)
      else (case waiting of Some e \<Rightarrow> (s, none, Some e) | None \<Rightarrow> operation s))"


subsection \<open>Starting\<close>

definition publishPrepared :: "uuid \<Rightarrow> prepared_worker \<Rightarrow> supervisor \<Rightarrow> supervisor \<times> go_error option" where
  "publishPrepared sid prepared s =
     (if sv_closing s then (s, Some ErrSupervisorClosed)
      else (case sv_root s of
        Some e \<Rightarrow> (s, Some e)
      | None \<Rightarrow>
          if sv_workers s sid \<noteq> None then (s, None)
          else (s\<lparr>sv_workers := (sv_workers s)(sid := Some \<lparr>rn_ref = sv_next s, rn_prepared = prepared, rn_cancelled = False\<rparr>),
                  sv_next := sv_next s + 1\<rparr>, None)))"

definition start :: "(session \<Rightarrow> prepared_worker result) \<Rightarrow> session \<Rightarrow> supervisor \<Rightarrow> supervisor \<times> go_error option" where
  "start prepare v s =
     (if s_Status v \<noteq> StatusRunning then (s, Some ErrNotRunning)
      else if sv_workers s (s_ID v) \<noteq> None then (s, None)
      else (case prepare v of
        Inl e \<Rightarrow> (s, Some e)
      | Inr prepared \<Rightarrow> publishPrepared (s_ID v) prepared s))"

definition startCurrent :: "start_env \<Rightarrow> uuid \<Rightarrow> supervisor \<Rightarrow> supervisor \<times> bool \<times> go_error option" where
  "startCurrent env sid s =
     (if sv_workers s sid \<noteq> None then (s, False, None)
      else (case SessionByID (se_fault env) (sv_store s) sid of
        Inl e \<Rightarrow> (s, errors_is e ErrNotFound \<or> errors_is e ErrNotRunning, Some e)
      | Inr v \<Rightarrow>
          if s_Status v \<noteq> StatusRunning then (s, True, Some ErrNotRunning)
          else (case start (se_prepare env) v s of (s', e) \<Rightarrow> (s', False, e))))"

definition Start :: "go_error option \<Rightarrow> start_env \<Rightarrow> uuid \<Rightarrow> supervisor \<Rightarrow> supervisor \<times> go_error option" where
  "Start waiting env sid s =
     (case sv_root s of
        Some e \<Rightarrow> (s, Some e)
      | None \<Rightarrow> (case sessionOperation waiting False (startCurrent env sid) s of (s', _, e) \<Rightarrow> (s', e)))"

definition SupReenable :: "fault_plan \<Rightarrow> time \<Rightarrow> go_error option \<Rightarrow> start_env \<Rightarrow> uuid \<Rightarrow> supervisor \<Rightarrow> supervisor \<times> go_error option" where
  "SupReenable f now waiting env sid s =
     (case sv_root s of
        Some e \<Rightarrow> (s, Some e)
      | None \<Rightarrow>
          (case Reenable f (sv_store s) sid now of
             (d, Some e) \<Rightarrow> (s\<lparr>sv_store := d\<rparr>, Some e)
           | (d, None) \<Rightarrow> Start waiting env sid (s\<lparr>sv_store := d\<rparr>)))"

definition stale_error :: "bool \<Rightarrow> go_error option \<Rightarrow> bool" where
  "stale_error stale e \<longleftrightarrow> stale \<and> (err_is e ErrNotRunning \<or> err_is e ErrNotFound)"

fun resume_loop :: "(uuid \<Rightarrow> go_error option \<times> start_env) \<Rightarrow> session list \<Rightarrow> supervisor \<Rightarrow> supervisor \<times> go_error option" where
  "resume_loop envs [] s = (s, None)"
| "resume_loop envs (v # vs) s =
     (if s_Status v \<noteq> StatusRunning then resume_loop envs vs s
      else (case sessionOperation (fst (envs (s_ID v))) False (startCurrent (snd (envs (s_ID v))) (s_ID v)) s of
        (s', stale, e) \<Rightarrow>
          if stale_error stale e then resume_loop envs vs s'
          else (case e of None \<Rightarrow> resume_loop envs vs s' | Some x \<Rightarrow> (s', Some (Wrapped ''resume session'' x)))))"

definition Resume :: "fault_plan \<Rightarrow> (uuid \<Rightarrow> go_error option \<times> start_env) \<Rightarrow> supervisor \<Rightarrow> supervisor \<times> go_error option" where
  "Resume f envs s =
     (case RunningSessions f (sv_store s) of
        Inl e \<Rightarrow> (s, Some e)
      | Inr vs \<Rightarrow> resume_loop envs vs s)"

text \<open>The goroutine's end: the entry is removed if it is still this worker's.\<close>

definition worker_exit :: "uuid \<Rightarrow> nat \<Rightarrow> supervisor \<Rightarrow> supervisor" where
  "worker_exit sid ref s =
     (case sv_workers s sid of
        None \<Rightarrow> s
      | Some r \<Rightarrow> if rn_ref r = ref then s\<lparr>sv_workers := (sv_workers s)(sid := None)\<rparr> else s)"


subsection \<open>Stopping\<close>

text \<open>What a cancelled worker may still do before it ends.\<close>

datatype last_write = LastTick fault_plan snapshot "ip_hit list" "event option" | LastFinish fault_plan time

fun settle :: "uuid \<Rightarrow> last_write list \<Rightarrow> supervisor \<Rightarrow> supervisor" where
  "settle sid [] s = s"
| "settle sid (LastTick f snap hits ev # ws) s =
     (case SaveTick f (sv_store s) sid snap hits of
        (d, Some e) \<Rightarrow> settle sid ws (s\<lparr>sv_store := d\<rparr>)
      | (d, None) \<Rightarrow>
          settle sid ws (s\<lparr>sv_store := d,
            sv_pending := sv_pending s @ (case ev of None \<Rightarrow> [] | Some x \<Rightarrow> [x\<lparr>e_SessionID := sid\<rparr>])\<rparr>))"
| "settle sid (LastFinish f now # ws) s = settle sid ws (s\<lparr>sv_store := fst (Finish f (sv_store s) sid now)\<rparr>)"

text \<open>
  \<open>en_exited\<close>: the goroutine's end was seen before the deadline; \<open>en_expired\<close>: the context's error when
  it was not, or when retrying stops; the attempts to persist the stop are one and possibly more.
\<close>

record stop_env =
  en_exited :: bool
  en_writes :: "last_write list"
  en_expired :: go_error
  en_read :: fault_plan
  en_attempt :: "fault_plan \<times> time"
  en_retries :: "(fault_plan \<times> time) list"

fun stop_loop :: "uuid \<Rightarrow> go_error \<Rightarrow> fault_plan \<times> time \<Rightarrow> (fault_plan \<times> time) list \<Rightarrow> supervisor \<Rightarrow> supervisor \<times> go_error option" where
  "stop_loop sid expired a retries s =
     (case Stop (fst a) (sv_store s) sid (snd a) of
        (d, e) \<Rightarrow>
          if e = None \<or> err_is e ErrNotRunning then (s\<lparr>sv_store := d\<rparr>, e)
          else (case retries of
                  [] \<Rightarrow> (s\<lparr>sv_store := d\<rparr>, errors_join [e, Some expired])
                | a' # retries' \<Rightarrow> stop_loop sid expired a' retries' (s\<lparr>sv_store := d\<rparr>)))"

declare stop_loop.simps [simp del]

text \<open>\<open>stop\<close>: the prepared worker to restore, the worker that did not end in time, and the error.\<close>

definition stop_worker ::
  "stop_env \<Rightarrow> uuid \<Rightarrow> supervisor \<Rightarrow> supervisor \<times> prepared_worker option \<times> running_worker option \<times> go_error option" where
  "stop_worker env sid s =
     (case sv_workers s sid of
        Some r \<Rightarrow>
          if en_exited env
          then (case stop_loop sid (en_expired env) (en_attempt env) (en_retries env)
                       (worker_exit sid (rn_ref r) (settle sid (en_writes env) s)) of
                  (s', e) \<Rightarrow> (s', Some (rn_prepared r), None, e))
          else (s\<lparr>sv_workers := (sv_workers s)(sid := Some (r\<lparr>rn_cancelled := True\<rparr>))\<rparr>,
                Some (rn_prepared r), Some r, Some (en_expired env))
      | None \<Rightarrow>
          (case SessionByID (en_read env) (sv_store s) sid of
             Inl e \<Rightarrow> (s, None, None, Some e)
           | Inr v \<Rightarrow>
               if s_Status v \<noteq> StatusRunning then (s, None, None, Some ErrNotRunning)
               else (case stop_loop sid (en_expired env) (en_attempt env) (en_retries env) s of
                       (s', e) \<Rightarrow> (s', None, None, e))))"

definition scheduleRecovery :: "uuid \<Rightarrow> running_worker \<Rightarrow> supervisor \<Rightarrow> supervisor \<times> go_error option" where
  "scheduleRecovery sid r s =
     (if (sid, rn_ref r) \<in> set (sv_recoveryScheduled s) then (s, None)
      else if sv_closing s then (s, Some ErrSupervisorClosed)
      else (case sv_recoveryCtx s of
        Some e \<Rightarrow> (s, Some e)
      | None \<Rightarrow> (s\<lparr>sv_recoveryScheduled := (sid, rn_ref r) # sv_recoveryScheduled s\<rparr>, None)))"

definition stopWithOwnership :: "stop_env \<Rightarrow> start_env \<Rightarrow> uuid \<Rightarrow> supervisor \<Rightarrow> supervisor \<times> go_error option" where
  "stopWithOwnership env restore sid s =
     (case stop_worker env sid s of
        (s1, prepared, delayed, err) \<Rightarrow>
          if err = None \<or> err_is err ErrNotRunning \<or> err_is err ErrNotFound then (s1, err)
          else (case delayed of
            Some r \<Rightarrow>
              (case scheduleRecovery sid r s1 of
                 (s2, None) \<Rightarrow> (s2, err)
               | (s2, Some e) \<Rightarrow> (s2, errors_join [err, Some (Wrapped ''schedule worker recovery'' e)]))
          | None \<Rightarrow>
              (case (case prepared of
                       Some p \<Rightarrow> (case publishPrepared sid p s1 of (s2, e) \<Rightarrow> (s2, False, e))
                     | None \<Rightarrow> startCurrent restore sid s1) of
                 (s2, stale, restoreErr) \<Rightarrow>
                   if stale_error stale restoreErr then (s2, err)
                   else (case restoreErr of
                           None \<Rightarrow> (s2, err)
                         | Some e \<Rightarrow> (s2, errors_join [err, Some (Wrapped ''restore worker ownership after failed stop'' e)])))))"

definition SupStop :: "go_error option \<Rightarrow> stop_env \<Rightarrow> start_env \<Rightarrow> uuid \<Rightarrow> supervisor \<Rightarrow> supervisor \<times> go_error option" where
  "SupStop waiting env restore sid s =
     (case sessionOperation waiting () (\<lambda>s. case stopWithOwnership env restore sid s of (s', e) \<Rightarrow> (s', (), e)) s of
        (s', _, e) \<Rightarrow> (s', e))"

text \<open>\<open>recoverAfterExit\<close> once the late worker has ended: one attempt after the other.\<close>

fun recover_loop :: "(go_error option \<times> start_env \<times> bool) list \<Rightarrow> uuid \<Rightarrow> supervisor \<Rightarrow> supervisor" where
  "recover_loop [] sid s = s"
| "recover_loop ((waiting, env, over) # as) sid s =
     (case sessionOperation waiting False (startCurrent env sid) s of
        (s', stale, e) \<Rightarrow>
          if e = None \<or> stale_error stale e then s'
          else if err_is e ErrSupervisorClosed \<or> sv_recoveryCtx s' \<noteq> None then s'
          else if over then s'
          else recover_loop as sid s')"


subsection \<open>Deleting\<close>

text \<open>
  \<open>sink.Flush\<close>: on success every event queued before has reached the table; when it fails, some have
  (\<open>written\<close>) and some are still queued (\<open>left\<close>).
\<close>

definition flush_sink :: "go_error option \<Rightarrow> event list \<Rightarrow> event list \<Rightarrow> supervisor \<Rightarrow> supervisor" where
  "flush_sink fault written left s =
     (case fault of
        None \<Rightarrow> s\<lparr>sv_samples := sv_samples s @ sv_pending s, sv_pending := []\<rparr>
      | Some e \<Rightarrow> s\<lparr>sv_samples := sv_samples s @ written, sv_pending := left\<rparr>)"

record delete_env =
  de_read :: "uuid \<Rightarrow> fault_plan"
  de_stop :: "uuid \<Rightarrow> stop_env"
  de_restore :: "uuid \<Rightarrow> start_env"
  de_flush :: "go_error option"
  de_written :: "event list"
  de_left :: "event list"
  de_mutation :: "go_error option"
  de_applied :: bool
  de_row :: "uuid \<Rightarrow> fault_plan"

definition delete_session :: "delete_env \<Rightarrow> uuid \<Rightarrow> supervisor \<Rightarrow> supervisor \<times> unit \<times> go_error option" where
  "delete_session env sid s =
     (case SessionByID (de_read env sid) (sv_store s) sid of
        Inl e \<Rightarrow> (s, (), Some e)
      | Inr v \<Rightarrow>
     (case (if s_Status v = StatusRunning then stopWithOwnership (de_stop env sid) (de_restore env sid) sid s else (s, None)) of
        (s1, err) \<Rightarrow>
     if err \<noteq> None \<and> \<not> err_is err ErrNotRunning then (s1, (), err)
     else (let s2 = flush_sink (de_flush env) (de_written env) (de_left env) s1 in
     case de_flush env of
        Some e \<Rightarrow> (s2, (), Some (Wrapped ''flush samples before delete'' e))
      | None \<Rightarrow>
     (case DeleteSession (de_mutation env) (de_applied env) sid (sv_samples s2) of
        (table, Some e) \<Rightarrow> (s2\<lparr>sv_samples := table\<rparr>, (), Some e)
      | (table, None) \<Rightarrow>
     (case Delete (de_row env sid) (sv_store s2) sid of
        (d, e) \<Rightarrow> (s2\<lparr>sv_samples := table, sv_store := d\<rparr>, (), e))))))"

definition SupDelete :: "go_error option \<Rightarrow> delete_env \<Rightarrow> uuid \<Rightarrow> supervisor \<Rightarrow> supervisor \<times> go_error option" where
  "SupDelete waiting env sid s =
     (case sessionOperation waiting () (delete_session env sid) s of (s', _, e) \<Rightarrow> (s', e))"

fun stop_each :: "delete_env \<Rightarrow> uuid list \<Rightarrow> supervisor \<Rightarrow> supervisor \<times> go_error option" where
  "stop_each env [] s = (s, None)"
| "stop_each env (sid # sids) s =
     (case SessionByID (de_read env sid) (sv_store s) sid of
        Inl e \<Rightarrow> if errors_is e ErrNotFound then stop_each env sids s else (s, Some e)
      | Inr v \<Rightarrow>
          if s_Status v \<noteq> StatusRunning then stop_each env sids s
          else (case stopWithOwnership (de_stop env sid) (de_restore env sid) sid s of
                  (s', err) \<Rightarrow> if err \<noteq> None \<and> \<not> err_is err ErrNotRunning then (s', err) else stop_each env sids s'))"

fun delete_each :: "delete_env \<Rightarrow> uuid list \<Rightarrow> supervisor \<Rightarrow> supervisor \<times> go_error option" where
  "delete_each env [] s = (s, None)"
| "delete_each env (sid # sids) s =
     (case Delete (de_row env sid) (sv_store s) sid of
        (d, Some e) \<Rightarrow> (s\<lparr>sv_store := d\<rparr>, Some e)
      | (d, None) \<Rightarrow> delete_each env sids (s\<lparr>sv_store := d\<rparr>))"

definition delete_ordered :: "delete_env \<Rightarrow> uuid list \<Rightarrow> supervisor \<Rightarrow> supervisor \<times> unit \<times> go_error option" where
  "delete_ordered env ordered s =
     (case stop_each env ordered s of
        (s1, Some e) \<Rightarrow> (s1, (), Some e)
      | (s1, None) \<Rightarrow>
     (let s2 = flush_sink (de_flush env) (de_written env) (de_left env) s1 in
      case de_flush env of
        Some e \<Rightarrow> (s2, (), Some (Wrapped ''flush samples before delete'' e))
      | None \<Rightarrow>
     (case DeleteSessions (de_mutation env) (de_applied env) ordered (sv_samples s2) of
        (table, Some e) \<Rightarrow> (s2\<lparr>sv_samples := table\<rparr>, (), Some e)
      | (table, None) \<Rightarrow>
     (case delete_each env ordered (s2\<lparr>sv_samples := table\<rparr>) of (s3, e) \<Rightarrow> (s3, (), e)))))"

text \<open>\<open>withOperations\<close> nests the locks of the ordered ids.\<close>

fun withOperations ::
  "(uuid \<Rightarrow> go_error option) \<Rightarrow> uuid list \<Rightarrow> (supervisor \<Rightarrow> supervisor \<times> unit \<times> go_error option) \<Rightarrow> supervisor \<Rightarrow> supervisor \<times> unit \<times> go_error option" where
  "withOperations waiting [] operation s = operation s"
| "withOperations waiting (sid # sids) operation s =
     sessionOperation (waiting sid) () (withOperations waiting sids operation) s"

definition SupDeleteSessions :: "(uuid \<Rightarrow> go_error option) \<Rightarrow> delete_env \<Rightarrow> uuid list \<Rightarrow> supervisor \<Rightarrow> supervisor \<times> go_error option" where
  "SupDeleteSessions waiting env ids s =
     (if ids = [] then (s, None)
      else (let ordered = orderedIDs ids in
            case withOperations waiting ordered (delete_ordered env ordered) s of (s', _, e) \<Rightarrow> (s', e)))"

definition Wait :: "supervisor \<Rightarrow> supervisor" where
  "Wait s = s\<lparr>sv_closing := True, sv_recoveryCtx := (case sv_recoveryCtx s of None \<Rightarrow> Some CtxCanceled | e \<Rightarrow> e)\<rparr>"

subsection \<open>What the statements do to a row\<close>

text \<open>The connection's errors are none of the sentinels of package \<open>session\<close>.\<close>

definition foreign_faults :: "fault_plan \<Rightarrow> bool" where
  "foreign_faults f \<longleftrightarrow> (\<forall>k e. f k = Some e \<longrightarrow> \<not> errors_is e ErrNotFound \<and> \<not> errors_is e ErrNotRunning)"

lemma Stop_rows:
  assumes "Stop f d sid now = (d', e)"
  shows "find_session d' x = (if e = None then map_option (\<lambda>r. if c_id r = sid \<and> c_status r = StatusRunning
      then r\<lparr>c_status := StatusStopped, c_stopped_at := Some (timestamp now)\<rparr> else r) (find_session d x) else find_session d x)"
  using Stop_cases [OF assms] find_update(1) [OF _ same_keys_simps(1)] by (cases e) auto

lemma Stop_done:
  assumes "Stop f d sid now = (d', None)" and "db_ok d"
  shows "\<exists>r. find_session d' sid = Some r \<and> c_status r = StatusStopped"
proof -
  from Stop_cases [OF assms(1)] obtain n where u: "update_session f (\<lambda>r. c_id r = sid \<and> c_status r = StatusRunning)
      (\<lambda>r. r\<lparr>c_status := StatusStopped, c_stopped_at := Some (timestamp now)\<rparr>) d = Inr (d', n)" "0 < n" by auto
  then have "filter (\<lambda>r. c_id r = sid \<and> c_status r = StatusRunning) (t_sessions d) \<noteq> []"
    by (auto simp: update_session_def update_rows_def split: option.splits if_splits)
  then obtain r where r: "r \<in> set (t_sessions d)" "c_id r = sid" "c_status r = StatusRunning"
    by (auto simp: filter_empty_conv)
  then have "find_session d sid = Some r" using find_unique [of "t_sessions d" r] assms(2) by (simp add: db_ok_def find_session_def)
  then show ?thesis using Stop_rows [OF assms(1), of sid] r by simp
qed

lemma Stop_refused:
  assumes "Stop f d sid now = (d', Some e)" and "errors_is e ErrNotRunning" and "foreign_faults f"
  shows "d' = d \<and> (\<forall>r. find_session d sid = Some r \<longrightarrow> c_status r \<noteq> StatusRunning)"
proof -
  have d': "d' = d" using Stop_cases [OF assms(1)] by simp
  have nosql: "\<not> errors_is (sql_error m) ErrNotRunning" for m by (simp add: sql_error_def)
  from assms(1) show ?thesis
  proof (cases "update_session f (\<lambda>r. c_id r = sid \<and> c_status r = StatusRunning)
      (\<lambda>r. r\<lparr>c_status := StatusStopped, c_stopped_at := Some (timestamp now)\<rparr>) d")
    case (Inl x)
    then have "\<not> errors_is x ErrNotRunning"
      using assms(3) nosql by (auto simp: update_session_def update_rows_def foreign_faults_def split: option.splits if_splits)
    with Inl assms(1,2) show ?thesis by (auto simp: Stop_def)
  next
    case (Inr dn)
    then have "filter (\<lambda>r. c_id r = sid \<and> c_status r = StatusRunning) (t_sessions d) = []"
      using assms(1) by (auto simp: Stop_def update_session_def update_rows_def split: option.splits if_splits prod.splits)
    then show ?thesis using d' find_session_Some by (auto simp: filter_empty_conv)
  qed
qed

lemma SessionByID_cases:
  assumes "foreign_faults f"
  shows "(case SessionByID f d sid of
      Inl e \<Rightarrow> \<not> errors_is e ErrNotRunning \<and> (errors_is e ErrNotFound \<longrightarrow> find_session d sid = None)
    | Inr v \<Rightarrow> \<exists>r. find_session d sid = Some r \<and> s_Status v = c_status r \<and> s_ID v = sid)"
  using assms find_session_Some
  by (auto simp: SessionByID_def foreign_faults_def mapSession_def split: option.splits)

lemma settle_rows:
  "(find_session (sv_store (settle sid ws s)) x = None) = (find_session (sv_store s) x = None)
   \<and> (x \<noteq> sid \<longrightarrow> find_session (sv_store (settle sid ws s)) x = find_session (sv_store s) x)
   \<and> (db_ok (sv_store s) \<longrightarrow> db_ok (sv_store (settle sid ws s)))"
proof (induction sid ws s rule: settle.induct)
  case (2 sid f snap hits ev ws s)
  obtain d e where t: "SaveTick f (sv_store s) sid snap hits = (d, e)" by fastforce
  have ok: "db_ok (sv_store s) \<longrightarrow> db_ok d"
    using apply_op_ok [of "sv_store s" "\<lambda>_. None" id f "DoSaveTick sid snap hits"] t by simp
  have "find_session d x = map_option (\<lambda>r. if x = sid then snapshot_row snap r else r) (find_session (sv_store s) x) \<or> d = sv_store s"
    using SaveTick_cases [OF t] SaveTick_ok(2) [of f "sv_store s" sid snap hits d x] t by (cases e) auto
  with 2 t ok show ?case by (cases e; cases "x = sid"; cases "find_session (sv_store s) x") auto
next
  case (3 sid f now ws s)
  obtain d e where t: "Finish f (sv_store s) sid now = (d, e)" by fastforce
  have ok: "db_ok (sv_store s) \<longrightarrow> db_ok d"
    using apply_op_ok [of "sv_store s" "\<lambda>_. None" id f "DoFinish sid now"] t by simp
  have "(find_session d x = None) = (find_session (sv_store s) x = None) \<and> (x \<noteq> sid \<longrightarrow> find_session d x = find_session (sv_store s) x)"
    using Finish_cases [OF t] find_update(1) [OF _ same_keys_simps(1)] find_session_Some [of "sv_store s" x]
    by (cases "find_session (sv_store s) x") auto
  with 3 t ok show ?case by simp
qed simp

lemma settle_other [simp]:
  "sv_workers (settle sid ws s) = sv_workers s" "sv_closing (settle sid ws s) = sv_closing s"
  "sv_root (settle sid ws s) = sv_root s" "sv_recoveryCtx (settle sid ws s) = sv_recoveryCtx s" "sv_samples (settle sid ws s) = sv_samples s"
  by (induction sid ws s rule: settle.induct) (auto split: prod.splits option.splits)

lemma settle_pending:
  "\<exists>es. sv_pending (settle sid ws s) = sv_pending s @ es \<and> (\<forall>e \<in> set es. e_SessionID e = sid)"
proof (induction sid ws s rule: settle.induct)
  case (2 sid f snap hits ev ws s)
  then show ?case by (cases "SaveTick f (sv_store s) sid snap hits"; cases "snd (SaveTick f (sv_store s) sid snap hits)"; cases ev) auto
qed auto

subsection \<open>Ownership\<close>

lemma publishPrepared_result:
  assumes "publishPrepared sid p s = (s', e)"
  shows "sv_store s' = sv_store s" "sv_samples s' = sv_samples s" "sv_pending s' = sv_pending s"
    "sv_closing s' = sv_closing s" "sv_root s' = sv_root s" "sv_recoveryCtx s' = sv_recoveryCtx s"
    "sv_workers s x \<noteq> None \<Longrightarrow> sv_workers s' x = sv_workers s x" "x \<noteq> sid \<Longrightarrow> sv_workers s' x = sv_workers s x"
    "e = None \<Longrightarrow> sv_workers s' sid \<noteq> None"
    "\<not> sv_closing s \<Longrightarrow> sv_root s = None \<Longrightarrow> e = None"
  using assms by (auto simp: publishPrepared_def split: if_splits option.splits)

lemma startCurrent_result:
  assumes "startCurrent env sid s = (s', stale, e)"
  shows "sv_store s' = sv_store s" "sv_samples s' = sv_samples s" "sv_pending s' = sv_pending s"
    "sv_closing s' = sv_closing s" "sv_root s' = sv_root s" "sv_recoveryCtx s' = sv_recoveryCtx s"
    "sv_workers s x \<noteq> None \<Longrightarrow> sv_workers s' x = sv_workers s x" "x \<noteq> sid \<Longrightarrow> sv_workers s' x = sv_workers s x"
    "e = None \<Longrightarrow> sv_workers s' sid \<noteq> None"
proof -
  have "s' = s \<and> e = None \<and> sv_workers s sid \<noteq> None \<or> s' = s \<and> e \<noteq> None
      \<or> (\<exists>p. publishPrepared sid p s = (s', e))"
    using assms find_session_Some
    by (auto simp: startCurrent_def start_def SessionByID_def mapSession_def split: if_splits option.splits sum.splits prod.splits)
  then show "sv_store s' = sv_store s" "sv_samples s' = sv_samples s" "sv_pending s' = sv_pending s"
    "sv_closing s' = sv_closing s" "sv_root s' = sv_root s" "sv_recoveryCtx s' = sv_recoveryCtx s"
    "sv_workers s x \<noteq> None \<Longrightarrow> sv_workers s' x = sv_workers s x" "x \<noteq> sid \<Longrightarrow> sv_workers s' x = sv_workers s x"
    "e = None \<Longrightarrow> sv_workers s' sid \<noteq> None"
    using publishPrepared_result by (auto 0 3)
qed

text \<open>Starting a session whose row runs is never stale, and fails only for the preparation or a closing supervisor.\<close>

lemma startCurrent_running:
  assumes "startCurrent env sid s = (s', stale, e)" and "find_session (sv_store s) sid = Some r" and "c_status r = StatusRunning"
    and "foreign_faults (se_fault env)"
  shows "\<not> stale_error stale e"
    and "\<not> sv_closing s \<Longrightarrow> sv_root s = None \<Longrightarrow> se_fault env 0 = None \<Longrightarrow> (\<And>v. \<exists>p. se_prepare env v = Inr p) \<Longrightarrow> e = None"
proof -
  show "\<not> stale_error stale e"
    using assms SessionByID_cases [OF assms(4), of "sv_store s" sid]
    by (auto simp: startCurrent_def stale_error_def split: if_splits sum.splits prod.splits)
next
  assume open_sv: "\<not> sv_closing s" "sv_root s = None" and f: "se_fault env 0 = None" and prep: "\<And>v. \<exists>p. se_prepare env v = Inr p"
  define v where "v = mapSession r (last_category (sv_store s) r)"
  obtain p where "se_prepare env v = Inr p" using prep by blast
  with assms(1-3) f open_sv find_session_Some [OF assms(2)] publishPrepared_result(10) [of sid p s]
  show "e = None"
    by (auto simp: startCurrent_def SessionByID_def start_def v_def mapSession_def split: if_splits prod.splits)
qed

lemma resume_loop_owns:
  assumes "resume_loop envs vs s = (s', None)"
    and "\<And>v. v \<in> set vs \<Longrightarrow> s_Status v = StatusRunning \<Longrightarrow> \<exists>r. find_session (sv_store s) (s_ID v) = Some r \<and> c_status r = StatusRunning"
    and "\<And>sid. foreign_faults (se_fault (snd (envs sid)))" and "\<And>sid. \<not> err_is (fst (envs sid)) ErrNotRunning \<and> \<not> err_is (fst (envs sid)) ErrNotFound"
  shows "sv_store s' = sv_store s \<and> (\<forall>x. sv_workers s x \<noteq> None \<longrightarrow> sv_workers s' x = sv_workers s x)
    \<and> (\<forall>v \<in> set vs. s_Status v = StatusRunning \<longrightarrow> sv_workers s' (s_ID v) \<noteq> None)"
  using assms(1,2)
proof (induction vs arbitrary: s)
  case (Cons v vs)
  show ?case
  proof (cases "s_Status v = StatusRunning")
    case False
    with Cons show ?thesis by simp
  next
    case True
    obtain s1 stale e where so: "sessionOperation (fst (envs (s_ID v))) False (startCurrent (snd (envs (s_ID v))) (s_ID v)) s = (s1, stale, e)"
      by (metis prod_cases3)
    obtain r where r: "find_session (sv_store s) (s_ID v) = Some r" "c_status r = StatusRunning"
      using Cons.prems(2) [of v] True by auto
    have e: "\<not> stale_error stale e \<and> (e = None \<longrightarrow> startCurrent (snd (envs (s_ID v))) (s_ID v) s = (s1, stale, e))"
      using so startCurrent_running(1) [OF _ r assms(3)]
      by (auto simp: sessionOperation_def stale_error_def split: if_splits option.splits)
    then have "e = None" and st: "startCurrent (snd (envs (s_ID v))) (s_ID v) s = (s1, stale, None)"
      using Cons.prems(1) True so by (auto split: option.splits)
    note res = startCurrent_result [OF st]
    have rest: "resume_loop envs vs s1 = (s', None)" using Cons.prems(1) True so e \<open>e = None\<close> by simp
    have "sv_store s' = sv_store s1 \<and> (\<forall>x. sv_workers s1 x \<noteq> None \<longrightarrow> sv_workers s' x = sv_workers s1 x)
        \<and> (\<forall>v \<in> set vs. s_Status v = StatusRunning \<longrightarrow> sv_workers s' (s_ID v) \<noteq> None)"
      by (rule Cons.IH [OF rest]) (use Cons.prems(2) res(1) in auto)
    with res show ?thesis by fastforce
  qed
qed simp

text \<open>
  C23: resuming after a restart loses no session: when it succeeds, every session whose row is running is
  owned by a worker; the database is unchanged and workers already running are kept.
\<close>

theorem resume_owns_all:
  assumes "Resume f envs s = (s', None)" and "db_ok (sv_store s)"
    and "\<And>sid. foreign_faults (se_fault (snd (envs sid)))"
    and "\<And>sid. \<not> err_is (fst (envs sid)) ErrNotRunning \<and> \<not> err_is (fst (envs sid)) ErrNotFound"
  shows "sv_store s' = sv_store s
    \<and> {c_id r |r. r \<in> set (t_sessions (sv_store s)) \<and> c_status r = StatusRunning} \<subseteq> {sid. sv_workers s' sid \<noteq> None}
    \<and> {sid. sv_workers s sid \<noteq> None} \<subseteq> {sid. sv_workers s' sid = sv_workers s sid}"
proof -
  obtain vs where vs: "RunningSessions f (sv_store s) = Inr vs" and l: "resume_loop envs vs s = (s', None)"
    using assms(1) by (auto simp: Resume_def split: sum.splits)
  define rows where "rows = filter (\<lambda>r. c_status r = StatusRunning) (t_sessions (sv_store s))"
  have set_vs: "set vs = (\<lambda>r. mapSession r (last_category (sv_store s) r)) ` set rows"
    using vs by (auto simp: RunningSessions_def rows_def split: option.splits)
  have found: "find_session (sv_store s) (c_id r) = Some r" if "r \<in> set rows" for r
    using find_unique [of "t_sessions (sv_store s)" r] assms(2) that by (simp add: db_ok_def find_session_def rows_def)
  have "sv_store s' = sv_store s \<and> (\<forall>x. sv_workers s x \<noteq> None \<longrightarrow> sv_workers s' x = sv_workers s x)
    \<and> (\<forall>v \<in> set vs. s_Status v = StatusRunning \<longrightarrow> sv_workers s' (s_ID v) \<noteq> None)"
    by (rule resume_loop_owns [OF l _ assms(3,4)]) (use found in \<open>auto simp: set_vs mapSession_def rows_def\<close>)
  then show ?thesis by (auto simp: set_vs rows_def mapSession_def)
qed

definition demo_supervisor :: supervisor where
  "demo_supervisor = \<lparr>sv_store = demo_db, sv_workers = (\<lambda>_. None), sv_closing = False, sv_root = None, sv_recoveryCtx = None,
     sv_recoveryScheduled = [], sv_next = 0, sv_pending = [], sv_samples = []\<rparr>"

definition demo_start :: start_env where
  "demo_start = \<lparr>se_fault = no_faults, se_prepare = (\<lambda>_. Inr one_left)\<rparr>"

lemma foreign_no_faults [simp]: "foreign_faults no_faults"
  by (simp add: foreign_faults_def no_faults_def)

theorem resume_owns_all_witness:
  "\<exists>s'. Resume no_faults (\<lambda>_. (None, demo_start)) demo_supervisor = (s', None) \<and> sv_workers s' 7 \<noteq> None"
proof -
  obtain s' where r: "Resume no_faults (\<lambda>_. (None, demo_start)) demo_supervisor = (s', None)"
    by (simp add: Resume_def RunningSessions_def no_faults_def demo_supervisor_def demo_db_def empty_db_def demo_start_def
        sessionOperation_def startCurrent_def SessionByID_def start_def publishPrepared_def mapSession_def
        find_session_def stale_error_def)
  have "demo_row \<in> set (t_sessions demo_db)" by (simp add: demo_db_def)
  then have "(7 :: uuid) \<in> {c_id r |r. r \<in> set (t_sessions (sv_store demo_supervisor)) \<and> c_status r = StatusRunning}"
    by (auto simp: demo_supervisor_def intro!: exI [of _ demo_row])
  with resume_owns_all [OF r] r demo_db_ok show ?thesis
    by (intro exI [of _ s']) (auto simp: demo_supervisor_def demo_start_def)
qed


subsection \<open>Stopping\<close>

lemma stop_loop_result:
  assumes "stop_loop sid expired a retries s = (s', e)"
    and "\<forall>b \<in> set (a # retries). foreign_faults (fst b)" and "\<not> errors_is expired ErrNotRunning"
  shows "sv_workers s' = sv_workers s" "sv_closing s' = sv_closing s" "sv_root s' = sv_root s" "sv_recoveryCtx s' = sv_recoveryCtx s"
    "sv_samples s' = sv_samples s" "sv_pending s' = sv_pending s"
    "(find_session (sv_store s') x = None) = (find_session (sv_store s) x = None)"
    "x \<noteq> sid \<Longrightarrow> find_session (sv_store s') x = find_session (sv_store s) x"
    "db_ok (sv_store s) \<Longrightarrow> db_ok (sv_store s')"
    "e = None \<Longrightarrow> db_ok (sv_store s) \<Longrightarrow> \<exists>r. find_session (sv_store s') sid = Some r \<and> c_status r = StatusStopped"
    "err_is e ErrNotRunning \<Longrightarrow> find_session (sv_store s') sid = Some r \<Longrightarrow> c_status r \<noteq> StatusRunning"
proof -
  have "sv_workers s' = sv_workers s \<and> sv_closing s' = sv_closing s \<and> sv_root s' = sv_root s \<and> sv_recoveryCtx s' = sv_recoveryCtx s
    \<and> sv_samples s' = sv_samples s \<and> sv_pending s' = sv_pending s
    \<and> (\<forall>x. (find_session (sv_store s') x = None) = (find_session (sv_store s) x = None))
    \<and> (\<forall>x. x \<noteq> sid \<longrightarrow> find_session (sv_store s') x = find_session (sv_store s) x)
    \<and> (db_ok (sv_store s) \<longrightarrow> db_ok (sv_store s'))
    \<and> (e = None \<longrightarrow> db_ok (sv_store s) \<longrightarrow> (\<exists>r. find_session (sv_store s') sid = Some r \<and> c_status r = StatusStopped))
    \<and> (err_is e ErrNotRunning \<longrightarrow> (\<forall>r. find_session (sv_store s') sid = Some r \<longrightarrow> c_status r \<noteq> StatusRunning))"
    using assms
  proof (induction sid expired a retries s arbitrary: s' e rule: stop_loop.induct)
    case (1 sid expired a retries s)
    obtain d x where st: "Stop (fst a) (sv_store s) sid (snd a) = (d, x)" by fastforce
    have rows: "(find_session d y = None) = (find_session (sv_store s) y = None)"
      "y \<noteq> sid \<Longrightarrow> find_session d y = find_session (sv_store s) y" for y
      using Stop_rows [OF st, of y] find_session_Some [of "sv_store s" y]
      by (cases "find_session (sv_store s) y"; auto split: if_splits)+
    have ok: "db_ok (sv_store s) \<longrightarrow> db_ok d"
      using apply_op_ok [of "sv_store s" "\<lambda>_. None" id "fst a" "DoStop sid (snd a)"] st by simp
    show ?case
    proof (cases "x = None \<or> err_is x ErrNotRunning")
      case True
      then have "s' = s\<lparr>sv_store := d\<rparr>" "e = x" using "1.prems"(1) st by (simp_all add: stop_loop.simps [of sid])
      moreover have "c_status r \<noteq> StatusRunning" if "err_is x ErrNotRunning" "find_session d sid = Some r" for r
        using that st "1.prems"(2) Stop_refused [of "fst a" "sv_store s" sid "snd a" d] by (cases x) auto
      moreover have "x = None \<Longrightarrow> db_ok (sv_store s) \<Longrightarrow> \<exists>r. find_session d sid = Some r \<and> c_status r = StatusStopped"
        using Stop_done st by simp
      ultimately show ?thesis using rows ok by simp
    next
      case False
      then obtain y where y: "x = Some y" "\<not> errors_is y ErrNotRunning" by auto
      show ?thesis
      proof (cases retries)
        case Nil
        then have "s' = s\<lparr>sv_store := d\<rparr>" "e = Some (Joined [y, expired])"
          using False y "1.prems"(1) st by (auto simp: stop_loop.simps [of sid] errors_join_def)
        with rows ok y "1.prems"(3) show ?thesis by simp
      next
        case (Cons a' retries')
        then have "stop_loop sid expired a' retries' (s\<lparr>sv_store := d\<rparr>) = (s', e)"
          using y "1.prems"(1) st by (simp add: stop_loop.simps [of sid expired a])
        from "1.IH" [OF st [symmetric] False Cons this] "1.prems" Cons rows ok show ?thesis by auto
      qed
    qed
  qed
  then show "sv_workers s' = sv_workers s" "sv_closing s' = sv_closing s" "sv_root s' = sv_root s" "sv_recoveryCtx s' = sv_recoveryCtx s"
    "sv_samples s' = sv_samples s" "sv_pending s' = sv_pending s"
    "(find_session (sv_store s') x = None) = (find_session (sv_store s) x = None)"
    "x \<noteq> sid \<Longrightarrow> find_session (sv_store s') x = find_session (sv_store s) x"
    "db_ok (sv_store s) \<Longrightarrow> db_ok (sv_store s')"
    "e = None \<Longrightarrow> db_ok (sv_store s) \<Longrightarrow> \<exists>r. find_session (sv_store s') sid = Some r \<and> c_status r = StatusStopped"
    "err_is e ErrNotRunning \<Longrightarrow> find_session (sv_store s') sid = Some r \<Longrightarrow> c_status r \<noteq> StatusRunning"
    by blast+
qed

lemma Stop_not_missing:
  assumes "Stop f d sid now = (d', e)" and "foreign_faults f"
  shows "\<not> err_is e ErrNotFound"
  using assms
  by (auto simp: Stop_def update_session_def update_rows_def foreign_faults_def sql_error_def
      split: option.splits if_splits)

lemma stop_loop_not_missing:
  assumes "stop_loop sid expired a retries s = (s', e)"
    and "\<forall>b \<in> set (a # retries). foreign_faults (fst b)" and "\<not> errors_is expired ErrNotFound"
  shows "\<not> err_is e ErrNotFound"
  using assms
proof (induction sid expired a retries s arbitrary: s' e rule: stop_loop.induct)
  case (1 sid expired a retries s)
  obtain d x where st: "Stop (fst a) (sv_store s) sid (snd a) = (d, x)" by fastforce
  have nf: "\<not> err_is x ErrNotFound" using Stop_not_missing [OF st] "1.prems"(2) by simp
  show ?case
  proof (cases "x = None \<or> err_is x ErrNotRunning")
    case True
    then show ?thesis using "1.prems"(1) st nf by (simp add: stop_loop.simps [of sid])
  next
    case False
    then obtain y where y: "x = Some y" "\<not> errors_is y ErrNotRunning" by auto
    show ?thesis
    proof (cases retries)
      case Nil
      then show ?thesis using y "1.prems"(1,3) st nf by (auto simp: stop_loop.simps [of sid] errors_join_def)
    next
      case (Cons a' retries')
      then have "stop_loop sid expired a' retries' (s\<lparr>sv_store := d\<rparr>) = (s', e)"
        using y "1.prems"(1) st by (simp add: stop_loop.simps [of sid expired a])
      from "1.IH" [OF st [symmetric] False Cons this] "1.prems" Cons show ?thesis by auto
    qed
  qed
qed

definition stop_env_ok :: "stop_env \<Rightarrow> bool" where
  "stop_env_ok env \<longleftrightarrow> foreign_faults (en_read env) \<and> list_all (\<lambda>b. foreign_faults (fst b)) (en_attempt env # en_retries env)
     \<and> \<not> errors_is (en_expired env) ErrNotRunning \<and> \<not> errors_is (en_expired env) ErrNotFound"

text \<open>What no part of stopping or restoring touches.\<close>

definition same_besides :: "uuid \<Rightarrow> supervisor \<Rightarrow> supervisor \<Rightarrow> bool" where
  "same_besides sid s s' \<longleftrightarrow>
     sv_closing s' = sv_closing s \<and> sv_root s' = sv_root s \<and> sv_recoveryCtx s' = sv_recoveryCtx s \<and> sv_samples s' = sv_samples s
   \<and> (\<exists>es. sv_pending s' = sv_pending s @ es \<and> (\<forall>e \<in> set es. e_SessionID e = sid))
   \<and> (\<forall>x. (find_session (sv_store s') x = None) = (find_session (sv_store s) x = None))
   \<and> (\<forall>x. x \<noteq> sid \<longrightarrow> find_session (sv_store s') x = find_session (sv_store s) x \<and> sv_workers s' x = sv_workers s x)
   \<and> (db_ok (sv_store s) \<longrightarrow> db_ok (sv_store s'))"

lemma same_besides_refl [simp]: "same_besides sid s s"
  by (simp add: same_besides_def)

lemma same_besides_trans: "same_besides sid s1 s2 \<Longrightarrow> same_besides sid s2 s3 \<Longrightarrow> same_besides sid s1 s3"
  by (auto simp: same_besides_def)

lemma same_besides_settle: "same_besides sid s (settle sid ws s)"
  using settle_rows [of sid ws s] settle_pending [of sid ws s] by (auto simp: same_besides_def)

lemma same_besides_exit: "same_besides sid s (worker_exit sid ref s)"
  by (auto simp: same_besides_def worker_exit_def split: option.splits)

lemma stop_loop_same:
  assumes "stop_loop sid (en_expired env) (en_attempt env) (en_retries env) s = (s', e)" and "stop_env_ok env"
  shows "same_besides sid s s'" and "sv_workers s' = sv_workers s"
    and "e = None \<Longrightarrow> db_ok (sv_store s) \<Longrightarrow> \<exists>r. find_session (sv_store s') sid = Some r \<and> c_status r = StatusStopped"
    and "err_is e ErrNotRunning \<Longrightarrow> find_session (sv_store s') sid = Some r \<Longrightarrow> c_status r \<noteq> StatusRunning"
    and "\<not> err_is e ErrNotFound"
proof -
  have f: "\<forall>b \<in> set (en_attempt env # en_retries env). foreign_faults (fst b)"
    and x: "\<not> errors_is (en_expired env) ErrNotRunning" "\<not> errors_is (en_expired env) ErrNotFound"
    using assms(2) by (simp_all add: stop_env_ok_def list_all_iff)
  note res = stop_loop_result [OF assms(1) f x(1)]
  show "same_besides sid s s'" unfolding same_besides_def using res by auto
  show "sv_workers s' = sv_workers s" by (rule res(1))
  show "e = None \<Longrightarrow> db_ok (sv_store s) \<Longrightarrow> \<exists>r. find_session (sv_store s') sid = Some r \<and> c_status r = StatusStopped"
    by (rule res(10))
  show "err_is e ErrNotRunning \<Longrightarrow> find_session (sv_store s') sid = Some r \<Longrightarrow> c_status r \<noteq> StatusRunning"
    by (rule res(11))
  show "\<not> err_is e ErrNotFound" by (rule stop_loop_not_missing [OF assms(1) f x(2)])
qed

lemma worker_exit_gone: "sv_workers s sid = Some r \<Longrightarrow> sv_workers (worker_exit sid (rn_ref r) s) sid = None"
  by (simp add: worker_exit_def)

lemma stop_worker_result:
  assumes "stop_worker env sid s = (s', p, dl, e)" and "stop_env_ok env"
  shows "same_besides sid s s'"
    and "e = None \<Longrightarrow> db_ok (sv_store s) \<Longrightarrow> sv_workers s' sid = None \<and> (\<exists>r. find_session (sv_store s') sid = Some r \<and> c_status r = StatusStopped)"
    and "err_is e ErrNotRunning \<or> err_is e ErrNotFound \<Longrightarrow> find_session (sv_store s') sid = Some r \<Longrightarrow> c_status r \<noteq> StatusRunning"
    and "dl \<noteq> None \<Longrightarrow> sv_workers s' sid \<noteq> None"
proof -
  have all: "same_besides sid s s'
    \<and> (e = None \<longrightarrow> db_ok (sv_store s) \<longrightarrow> sv_workers s' sid = None \<and> (\<exists>r. find_session (sv_store s') sid = Some r \<and> c_status r = StatusStopped))
    \<and> (err_is e ErrNotRunning \<or> err_is e ErrNotFound \<longrightarrow> (\<forall>r. find_session (sv_store s') sid = Some r \<longrightarrow> c_status r \<noteq> StatusRunning))
    \<and> (dl \<noteq> None \<longrightarrow> sv_workers s' sid \<noteq> None)"
  proof (cases "sv_workers s sid")
    case (Some w)
    show ?thesis
    proof (cases "en_exited env")
      case True
      define s1 where "s1 = worker_exit sid (rn_ref w) (settle sid (en_writes env) s)"
      have sb: "same_besides sid s s1" unfolding s1_def by (rule same_besides_trans [OF same_besides_settle same_besides_exit])
      have gone: "sv_workers s1 sid = None" unfolding s1_def by (rule worker_exit_gone) (simp add: Some)
      have l: "stop_loop sid (en_expired env) (en_attempt env) (en_retries env) s1 = (s', e)" and "dl = None"
        using assms(1) Some True by (auto simp: stop_worker_def s1_def split: prod.splits)
      note res = stop_loop_same [OF l assms(2)]
      have "db_ok (sv_store s) \<Longrightarrow> db_ok (sv_store s1)" using sb by (simp add: same_besides_def)
      with res gone same_besides_trans [OF sb res(1)] \<open>dl = None\<close> show ?thesis by auto
    next
      case False
      with assms Some show ?thesis
        by (auto simp: stop_worker_def same_besides_def stop_env_ok_def)
    qed
  next
    case None
    have fr: "foreign_faults (en_read env)" using assms(2) by (simp add: stop_env_ok_def)
    note read = SessionByID_cases [OF fr, of "sv_store s" sid]
    show ?thesis
    proof (cases "SessionByID (en_read env) (sv_store s) sid")
      case (Inl x)
      with assms(1) None read show ?thesis by (auto simp: stop_worker_def)
    next
      case (Inr v)
      show ?thesis
      proof (cases "s_Status v = StatusRunning")
        case True
        then have l: "stop_loop sid (en_expired env) (en_attempt env) (en_retries env) s = (s', e)" and "dl = None"
          using assms(1) None Inr by (auto simp: stop_worker_def split: prod.splits)
        with stop_loop_same [OF l assms(2)] None show ?thesis by auto
      next
        case False
        with assms(1) None Inr read show ?thesis by (auto simp: stop_worker_def)
      qed
    qed
  qed
  then show "same_besides sid s s'"
    "e = None \<Longrightarrow> db_ok (sv_store s) \<Longrightarrow> sv_workers s' sid = None \<and> (\<exists>r. find_session (sv_store s') sid = Some r \<and> c_status r = StatusStopped)"
    "err_is e ErrNotRunning \<or> err_is e ErrNotFound \<Longrightarrow> find_session (sv_store s') sid = Some r \<Longrightarrow> c_status r \<noteq> StatusRunning"
    "dl \<noteq> None \<Longrightarrow> sv_workers s' sid \<noteq> None"
    by blast+
qed

lemma stopWithOwnership_same:
  assumes "stopWithOwnership env restore sid s = (s', e)" and "stop_env_ok env"
  shows "same_besides sid s s'"
    and "e = None \<Longrightarrow> db_ok (sv_store s) \<Longrightarrow> sv_workers s' sid = None \<and> (\<exists>r. find_session (sv_store s') sid = Some r \<and> c_status r = StatusStopped)"
proof -
  obtain s1 p dl x where w: "stop_worker env sid s = (s1, p, dl, x)" by (metis prod_cases4)
  note res = stop_worker_result [OF w assms(2)]
  have rec: "same_besides sid s1 s2" if "scheduleRecovery sid r s1 = (s2, y)" for r s2 y
    using that by (auto simp: scheduleRecovery_def same_besides_def split: if_splits option.splits)
  have pub: "same_besides sid s1 s2" if "publishPrepared sid q s1 = (s2, y)" for q s2 y
    using publishPrepared_result [OF that] by (auto simp: same_besides_def)
  have cur: "same_besides sid s1 s2" if "startCurrent restore sid s1 = (s2, st, y)" for s2 st y
    using startCurrent_result [OF that] by (auto simp: same_besides_def)
  have "same_besides sid s1 s'"
    using assms(1) w rec pub cur
    by (auto simp: stopWithOwnership_def split: if_splits option.splits prod.splits)
  with res(1) show "same_besides sid s s'" by (rule same_besides_trans)
  have "x = None \<and> s' = s1" if "e = None"
    using assms(1) w that by (auto simp: stopWithOwnership_def errors_join_None_iff split: if_splits option.splits prod.splits)
  with res(2) show "e = None \<Longrightarrow> db_ok (sv_store s) \<Longrightarrow>
      sv_workers s' sid = None \<and> (\<exists>r. find_session (sv_store s') sid = Some r \<and> c_status r = StatusStopped)" by auto
qed

lemma stopWithOwnership_keeps:
  assumes "stopWithOwnership env restore sid s = (s', Some e)" and "stop_env_ok env"
    and "foreign_faults (se_fault restore)" "se_fault restore 0 = None" "\<And>v. \<exists>p. se_prepare restore v = Inr p"
    and "\<not> sv_closing s" "sv_root s = None"
    and "find_session (sv_store s') sid = Some r" "c_status r = StatusRunning"
  shows "sv_workers s' sid \<noteq> None"
proof -
  obtain s1 p dl x where w: "stop_worker env sid s = (s1, p, dl, x)" by (metis prod_cases4)
  note res = stop_worker_result [OF w assms(2)]
  have open1: "\<not> sv_closing s1" "sv_root s1 = None" using res(1) assms(6,7) by (simp_all add: same_besides_def)
  consider (early) "s' = s1" "x = Some e" "err_is x ErrNotRunning \<or> err_is x ErrNotFound"
    | (delayed) w2 y where "dl = Some w2" "scheduleRecovery sid w2 s1 = (s', y)"
    | (published) q y where "publishPrepared sid q s1 = (s', y)"
    | (current) st y where "startCurrent restore sid s1 = (s', st, y)"
    using assms(1) w by (auto simp: stopWithOwnership_def split: if_splits option.splits prod.splits)
  then show ?thesis
  proof cases
    case early
    with res(3) assms(8,9) show ?thesis by auto
  next
    case delayed
    then have "sv_workers s' = sv_workers s1" by (auto simp: scheduleRecovery_def split: if_splits option.splits)
    with delayed res(4) show ?thesis by simp
  next
    case published
    from publishPrepared_result(9,10) [OF published] open1 show ?thesis by simp
  next
    case current
    note c = startCurrent_result [OF current]
    have "find_session (sv_store s1) sid = Some r" using assms(8) c(1) by simp
    from startCurrent_running(2) [OF current this assms(9,3) open1 assms(4,5)] c(9) show ?thesis by simp
  qed
qed


definition demo_stop :: stop_env where
  "demo_stop = \<lparr>en_exited = False, en_writes = [], en_expired = CtxDeadlineExceeded, en_read = no_faults,
     en_attempt = (\<lambda>_. Some (ErrOther ''down''), 5000), en_retries = []\<rparr>"

lemma demo_supervisor_simps [simp]:
  "sv_store demo_supervisor = demo_db" "sv_workers demo_supervisor sid = None" "\<not> sv_closing demo_supervisor"
  "sv_root demo_supervisor = None" "sv_pending demo_supervisor = []" "sv_samples demo_supervisor = []"
  "se_fault demo_start = no_faults" "se_prepare demo_start v = Inr one_left" "no_faults k = None"
  by (simp_all add: demo_supervisor_def demo_start_def no_faults_def)


subsection \<open>Deleting\<close>

lemma same_besides_weaken: "same_besides sid s s' \<Longrightarrow> find_session (sv_store s) x \<noteq> None \<Longrightarrow> find_session (sv_store s') x \<noteq> None"
  by (simp add: same_besides_def)

definition delete_env_ok :: "delete_env \<Rightarrow> bool" where
  "delete_env_ok env \<longleftrightarrow> (\<forall>sid. stop_env_ok (de_stop env sid) \<and> foreign_faults (de_read env sid))"

text \<open>What stopping a set of sessions may change.\<close>

definition kept_outside :: "uuid set \<Rightarrow> supervisor \<Rightarrow> supervisor \<Rightarrow> bool" where
  "kept_outside ids s s' \<longleftrightarrow>
     (\<forall>x. (find_session (sv_store s') x = None) = (find_session (sv_store s) x = None))
   \<and> (\<forall>x. x \<notin> ids \<longrightarrow> find_session (sv_store s') x = find_session (sv_store s) x \<and> sv_workers s' x = sv_workers s x)
   \<and> sv_samples s' = sv_samples s \<and> (\<exists>es. sv_pending s' = sv_pending s @ es \<and> e_SessionID ` set es \<subseteq> ids)"

lemma kept_outside_refl [simp]: "kept_outside ids s s"
  by (simp add: kept_outside_def)

lemma kept_outside_trans: "kept_outside ids s1 s2 \<Longrightarrow> kept_outside ids s2 s3 \<Longrightarrow> kept_outside ids s1 s3"
  by (auto simp: kept_outside_def image_Un)

lemma same_besides_kept: "same_besides sid s s' \<Longrightarrow> sid \<in> ids \<Longrightarrow> kept_outside ids s s'"
  by (auto simp: kept_outside_def same_besides_def)

lemma stop_each_kept:
  assumes "stop_each env sids s = (s', e)" and "delete_env_ok env" and "set sids \<subseteq> ids"
  shows "kept_outside ids s s'"
  using assms(1,3)
proof (induction sids arbitrary: s)
  case (Cons sid sids)
  obtain s1 err where w: "stopWithOwnership (de_stop env sid) (de_restore env sid) sid s = (s1, err)" by fastforce
  have "stop_env_ok (de_stop env sid)" using assms(2) by (simp add: delete_env_ok_def)
  from same_besides_kept [OF stopWithOwnership_same(1) [OF w this]] Cons.prems(2) have k: "kept_outside ids s s1" by simp
  have "s' = s \<or> stop_each env sids s = (s', e) \<or> s' = s1 \<or> stop_each env sids s1 = (s', e)"
    using Cons.prems(1) w by (auto split: sum.splits if_splits)
  with Cons.IH Cons.prems(2) k kept_outside_trans [OF k] show ?case by auto
qed simp

lemma Delete_rows:
  "Delete f d sid = (d', e) \<Longrightarrow>
     (if e = None then find_session d' sid = None else d' = d) \<and> (x \<noteq> sid \<longrightarrow> find_session d' x = find_session d x)"
proof -
  have "find (\<lambda>r. c_id r = x) (filter (\<lambda>r. c_id r \<noteq> sid) rs) = (if x = sid then None else find (\<lambda>r. c_id r = x) rs)" for rs :: "session_row list"
    by (induction rs) auto
  then show "Delete f d sid = (d', e) \<Longrightarrow>
     (if e = None then find_session d' sid = None else d' = d) \<and> (x \<noteq> sid \<longrightarrow> find_session d' x = find_session d x)"
    by (auto simp: Delete_def delete_sessions_def find_session_def find_None_iff split: option.splits)
qed

lemma delete_each_rows:
  assumes "delete_each env sids s = (s', e)"
  shows "sv_samples s' = sv_samples s \<and> sv_pending s' = sv_pending s \<and> sv_workers s' = sv_workers s
    \<and> (x \<notin> set sids \<longrightarrow> find_session (sv_store s') x = find_session (sv_store s) x)
    \<and> (find_session (sv_store s) x = None \<longrightarrow> find_session (sv_store s') x = None)
    \<and> (e = None \<longrightarrow> x \<in> set sids \<longrightarrow> find_session (sv_store s') x = None)"
  using assms
proof (induction sids arbitrary: s)
  case (Cons sid sids)
  obtain d y where dl: "Delete (de_row env sid) (sv_store s) sid = (d, y)" by fastforce
  note rows = Delete_rows [OF dl, of x]
  show ?case
  proof (cases y)
    case None
    then have "delete_each env sids (s\<lparr>sv_store := d\<rparr>) = (s', e)" using Cons.prems dl by simp
    with Cons.IH [OF this] rows None show ?thesis by (cases "x = sid") auto
  next
    case (Some z)
    with Cons.prems dl rows show ?thesis by auto
  qed
qed simp

lemma withOperations_cases:
  "withOperations waiting sids operation s = (s', u, e) \<Longrightarrow> (s' = s \<and> e \<noteq> None) \<or> operation s = (s', u, e)"
proof (induction sids)
  case (Cons a sids)
  consider "(s, (), Some ErrSupervisorClosed) = (s', u, e)" | z where "(s, (), Some z) = (s', u, e)"
    | "withOperations waiting sids operation s = (s', u, e)"
    using Cons.prems by (auto simp: sessionOperation_def split: if_splits option.splits)
  then show ?case by cases (use Cons.IH in auto)
qed simp

lemma SupDeleteSessions_outcome:
  assumes "SupDeleteSessions waiting env ids s = (s', e)" and "delete_env_ok env"
  shows "list_all (\<lambda>sid. (e \<noteq> None \<and> (find_session (sv_store s') sid = None) = (find_session (sv_store s) sid = None))
            \<or> (sid \<notin> e_SessionID ` (set (sv_samples s') \<union> set (sv_pending s'))
               \<and> (e = None \<longrightarrow> find_session (sv_store s') sid = None))) ids
     \<and> (\<forall>x. x \<in> set ids \<or> find_session (sv_store s') x = find_session (sv_store s) x \<and> sv_workers s' x = sv_workers s x)
     \<and> (if de_flush env = None
        then filter (\<lambda>v. e_SessionID v \<notin> set ids) (sv_samples s' @ sv_pending s')
           = filter (\<lambda>v. e_SessionID v \<notin> set ids) (sv_samples s @ sv_pending s)
        else e \<noteq> None \<or> ids = [])"
proof (cases "s' = s \<and> (e \<noteq> None \<or> ids = [])")
  case True
  then show ?thesis by (auto simp: list_all_iff)
next
  case False
  then have ne: "ids \<noteq> []" and wo: "withOperations waiting (orderedIDs ids) (delete_ordered env (orderedIDs ids)) s = (s', (), e)"
    using assms(1) by (auto simp: SupDeleteSessions_def Let_def split: if_splits prod.splits)
  have op: "delete_ordered env (orderedIDs ids) s = (s', (), e)"
    using withOperations_cases [OF wo] False ne by auto
  let ?ids = "orderedIDs ids"
  have ids: "set ?ids = set ids" "?ids \<noteq> []" using set_orderedIDs [of ids] ne by auto
  obtain s1 e1 where st: "stop_each env ?ids s = (s1, e1)" by fastforce
  have k: "kept_outside (set ids) s s1" by (rule stop_each_kept [OF st assms(2)]) (simp add: ids)
  then obtain es where es: "sv_pending s1 = sv_pending s @ es" "e_SessionID ` set es \<subseteq> set ids" "sv_samples s1 = sv_samples s"
    by (auto simp: kept_outside_def)
  then have other: "filter (\<lambda>v. e_SessionID v \<notin> set ids) es = []" by (auto simp: filter_empty_conv)
  show ?thesis
  proof (cases e1)
    case (Some x)
    then have "s' = s1" "e = Some x" using op st by (simp_all add: delete_ordered_def)
    with k es other show ?thesis by (auto simp: list_all_iff kept_outside_def)
  next
    case e1: None
    define s2 where "s2 = flush_sink (de_flush env) (de_written env) (de_left env) s1"
    have fl: ?thesis if fx: "de_flush env = Some x" for x
    proof -
      from op st e1 fx have "e \<noteq> None" "sv_store s' = sv_store s1" "sv_workers s' = sv_workers s1"
        by (auto simp: delete_ordered_def flush_sink_def Let_def)
      with k fx show ?thesis by (auto simp: list_all_iff kept_outside_def)
    qed
    show ?thesis
    proof (cases "de_flush env")
      case None
      note flushed = None
    have s2: "sv_samples s2 = sv_samples s @ sv_pending s @ es" "sv_pending s2 = []" "sv_store s2 = sv_store s1" "sv_workers s2 = sv_workers s1"
      using flushed es by (simp_all add: s2_def flush_sink_def)
    note op2 = op [unfolded delete_ordered_def st e1 prod.case option.case Let_def, folded s2_def, unfolded flushed option.case]
    show ?thesis
    proof (cases "de_mutation env")
      case (Some x)
      then have e: "e \<noteq> None" "sv_store s' = sv_store s1" "sv_workers s' = sv_workers s1" "sv_pending s' = []"
          "sv_samples s' = (if de_applied env then filter (\<lambda>v. e_SessionID v \<notin> set ?ids) (sv_samples s2) else sv_samples s2)"
        using op2 Some ids s2 by (auto simp: DeleteSessions_def)
      with k s2 other ids flushed show ?thesis by (auto simp: list_all_iff kept_outside_def)
    next
      case m: None
      define s3 where "s3 = s2\<lparr>sv_samples := filter (\<lambda>v. e_SessionID v \<notin> set ?ids) (sv_samples s2)\<rparr>"
      have de: "delete_each env ?ids s3 = (s', e)"
        using op2 m ids by (auto simp: s3_def DeleteSessions_def split: prod.splits)
      note rows = delete_each_rows [OF de]
      have s3: "sv_samples s3 = filter (\<lambda>v. e_SessionID v \<notin> set ids) (sv_samples s @ sv_pending s @ es)" "sv_pending s3 = []"
        "sv_store s3 = sv_store s1" "sv_workers s3 = sv_workers s1"
        using s2 ids by (simp_all add: s3_def)
      have "\<forall>x. x \<in> set ids \<or> find_session (sv_store s') x = find_session (sv_store s) x \<and> sv_workers s' x = sv_workers s x"
        using rows s3 k ids by (auto simp: kept_outside_def)
      with rows s3 other ids flushed show ?thesis by (auto simp: list_all_iff)
    qed
    qed (rule fl)
  qed
qed

text \<open>
  C19: deleting sessions removes the control row last and leaves no trace: on success no row, no stored and
  no queued sample of any of them remains; on failure a row that is gone has no sample left (so a retry
  finds everything it still has to delete); the rows, workers and samples of all other sessions are
  untouched. (A failed flush may lose queued samples, and then nothing is deleted.)
\<close>

theorem delete_row_last:
  assumes "SupDeleteSessions waiting env ids s = (s', e)" and "delete_env_ok env"
  shows "list_all (\<lambda>sid. (e \<noteq> None \<and> (find_session (sv_store s') sid = None) = (find_session (sv_store s) sid = None))
            \<or> (sid \<notin> e_SessionID ` (set (sv_samples s') \<union> set (sv_pending s'))
               \<and> (e = None \<longrightarrow> find_session (sv_store s') sid = None))) ids
     \<and> (\<forall>x. x \<in> set ids \<or> find_session (sv_store s') x = find_session (sv_store s) x \<and> sv_workers s' x = sv_workers s x)
     \<and> (if de_flush env = None
        then filter (\<lambda>v. e_SessionID v \<notin> set ids) (sv_samples s' @ sv_pending s')
           = filter (\<lambda>v. e_SessionID v \<notin> set ids) (sv_samples s @ sv_pending s)
        else e \<noteq> None \<or> ids = [])"
  by (rule SupDeleteSessions_outcome [OF assms])

definition demo_delete :: delete_env where
  "demo_delete = \<lparr>de_read = (\<lambda>_. no_faults), de_stop = (\<lambda>_. demo_stop\<lparr>en_attempt := (no_faults, 5000)\<rparr>), de_restore = (\<lambda>_. demo_start),
     de_flush = None, de_written = [], de_left = [], de_mutation = Some (ErrOther ''down''), de_applied = True, de_row = (\<lambda>_. no_faults)\<rparr>"

text \<open>The mutation fails: the row stays.\<close>

theorem delete_row_last_witness:
  "case SupDeleteSessions (\<lambda>_. None) demo_delete [7, 7] (demo_supervisor\<lparr>sv_samples := [demo_event\<lparr>e_SessionID := 8\<rparr>]\<rparr>) of
     (s', e) \<Rightarrow> find_session (sv_store s') 8 = None \<and> filter (\<lambda>v. e_SessionID v \<noteq> 7) (sv_samples s' @ sv_pending s') = [demo_event\<lparr>e_SessionID := 8\<rparr>]"
proof -
  let ?s = "demo_supervisor\<lparr>sv_samples := [demo_event\<lparr>e_SessionID := 8\<rparr>]\<rparr>"
  obtain s' e where r: "SupDeleteSessions (\<lambda>_. None) demo_delete [7, 7] ?s = (s', e)" by fastforce
  have "delete_env_ok demo_delete" by (simp add: delete_env_ok_def demo_delete_def stop_env_ok_def demo_stop_def)
  note d = delete_row_last [OF r this]
  have "find_session (sv_store s') 8 = find_session (sv_store ?s) 8"
    using spec [OF conjunct1 [OF conjunct2 [OF d]], of 8] by simp
  moreover have "filter (\<lambda>v. e_SessionID v \<notin> set [7, 7]) (sv_samples s' @ sv_pending s') = filter (\<lambda>v. e_SessionID v \<notin> set [7, 7]) (sv_samples ?s @ sv_pending ?s)"
    using conjunct2 [OF conjunct2 [OF d]] by (simp add: demo_delete_def)
  moreover have "find_session demo_db 8 = None" by (simp add: find_session_def demo_db_def)
  ultimately show ?thesis using r by simp
qed

end
