(* ===== verification/Reputations.thy ===== *)
theory Reputations
  imports Model
begin

text \<open>
  \<open>internal/enrich/types.go\<close> and \<open>classify.go\<close>: the mergeable signals of the reputation providers and
  the category derived from them. A pointer field is an \<open>option\<close>, so "observed false" and "not
  supplied" stay different. Outside ASCII, \<open>strings.ToLower\<close> is the parameter \<open>lower\<close> and
  \<open>unicode.IsLetter\<close> or \<open>unicode.IsDigit\<close> of a rune is the parameter \<open>word\<close>.
\<close>

subsection \<open>Signals\<close>

record partial =
  pt_Country :: string
  pt_Region :: string
  pt_City :: string
  pt_ISP :: string
  pt_ASN :: string
  pt_IsMobile :: "bool option"
  pt_IPAPIProxy :: "bool option"
  pt_IPAPIHosting :: "bool option"
  pt_ProxyCheckType :: string
  pt_ProxyCheckProxy :: "bool option"
  pt_RiskScore :: "int option"
  pt_GreyNoiseClass :: string
  pt_SFSAppears :: "bool option"
  pt_SFSFrequency :: "int option"
  pt_DNSBLListed :: "bool option"
  pt_DNSBLHits :: "string list"
  pt_DNSBLDynamic :: bool
  pt_Raw :: "(string, string) gomap"
  pt_HadSignal :: bool
  pt_Errors :: "(string, string) gomap"

text \<open>The zero \<open>Partial\<close>.\<close>

definition no_partial :: partial where
  "no_partial = \<lparr>pt_Country = [], pt_Region = [], pt_City = [], pt_ISP = [], pt_ASN = [],
     pt_IsMobile = None, pt_IPAPIProxy = None, pt_IPAPIHosting = None, pt_ProxyCheckType = [],
     pt_ProxyCheckProxy = None, pt_RiskScore = None, pt_GreyNoiseClass = [], pt_SFSAppears = None,
     pt_SFSFrequency = None, pt_DNSBLListed = None, pt_DNSBLHits = [], pt_DNSBLDynamic = False,
     pt_Raw = [], pt_HadSignal = False, pt_Errors = []\<rparr>"

definition mergeString :: "string \<Rightarrow> string \<Rightarrow> string" where
  "mergeString destination incoming = (if incoming \<noteq> [] then incoming else destination)"

definition mergeBool :: "bool option \<Rightarrow> bool option \<Rightarrow> bool option" where
  "mergeBool destination incoming = (case incoming of None \<Rightarrow> destination | Some value \<Rightarrow> Some value)"

definition mergeInt :: "int option \<Rightarrow> int option \<Rightarrow> int option" where
  "mergeInt destination incoming = (case incoming of None \<Rightarrow> destination | Some value \<Rightarrow> Some value)"

definition unionStrings :: "string list \<Rightarrow> string list \<Rightarrow> string list" where
  "unionStrings existing incoming =
     (if existing = [] \<and> incoming = [] then existing else dedup_from [] (existing @ incoming))"

text \<open>The loops that copy \<open>incoming.Raw\<close> and \<open>incoming.Errors\<close>.\<close>

definition copy_map :: "(string, string) gomap \<Rightarrow> (string, string) gomap \<Rightarrow> (string, string) gomap" where
  "copy_map destination incoming = foldl (\<lambda>m (k, v). AList.update k v m) destination incoming"

definition Merge :: "partial \<Rightarrow> partial \<Rightarrow> partial" where
  "Merge p incoming =
     \<lparr>pt_Country = mergeString (pt_Country p) (pt_Country incoming),
      pt_Region = mergeString (pt_Region p) (pt_Region incoming),
      pt_City = mergeString (pt_City p) (pt_City incoming),
      pt_ISP = mergeString (pt_ISP p) (pt_ISP incoming),
      pt_ASN = mergeString (pt_ASN p) (pt_ASN incoming),
      pt_IsMobile = mergeBool (pt_IsMobile p) (pt_IsMobile incoming),
      pt_IPAPIProxy = mergeBool (pt_IPAPIProxy p) (pt_IPAPIProxy incoming),
      pt_IPAPIHosting = mergeBool (pt_IPAPIHosting p) (pt_IPAPIHosting incoming),
      pt_ProxyCheckType = mergeString (pt_ProxyCheckType p) (pt_ProxyCheckType incoming),
      pt_ProxyCheckProxy = mergeBool (pt_ProxyCheckProxy p) (pt_ProxyCheckProxy incoming),
      pt_RiskScore = mergeInt (pt_RiskScore p) (pt_RiskScore incoming),
      pt_GreyNoiseClass = mergeString (pt_GreyNoiseClass p) (pt_GreyNoiseClass incoming),
      pt_SFSAppears = mergeBool (pt_SFSAppears p) (pt_SFSAppears incoming),
      pt_SFSFrequency = mergeInt (pt_SFSFrequency p) (pt_SFSFrequency incoming),
      pt_DNSBLListed = mergeBool (pt_DNSBLListed p) (pt_DNSBLListed incoming),
      pt_DNSBLHits = unionStrings (pt_DNSBLHits p) (pt_DNSBLHits incoming),
      pt_DNSBLDynamic = (pt_DNSBLDynamic p \<or> pt_DNSBLDynamic incoming),
      pt_Raw = copy_map (pt_Raw p) (pt_Raw incoming),
      pt_HadSignal = (pt_HadSignal p \<or> pt_HadSignal incoming),
      pt_Errors = copy_map (pt_Errors p) (pt_Errors incoming)\<rparr>"


subsection \<open>Words\<close>

text \<open>\<open>strings.FieldsFunc\<close>: \<open>cur\<close> is the field being read.\<close>

function fields_func :: "(nat \<Rightarrow> bool) \<Rightarrow> string \<Rightarrow> string \<Rightarrow> string list" where
  "fields_func f cur s =
     (if s = [] then (if cur = [] then [] else [cur])
      else (let (r, w) = decode_rune s in
            if f r then (if cur = [] then fields_func f [] (drop w s) else cur # fields_func f [] (drop w s))
            else fields_func f (cur @ take w s) (drop w s)))"
  by pat_completeness auto
termination
  by (relation "measure (\<lambda>(f, cur, s). length s)") (auto dest!: decode_rune_pos [OF sym])

declare fields_func.simps [simp del]

definition word_rune :: "(nat \<Rightarrow> bool) \<Rightarrow> nat \<Rightarrow> bool" where
  "word_rune word r =
     (if r < 128 then 48 \<le> r \<and> r \<le> 57 \<or> 65 \<le> r \<and> r \<le> 90 \<or> 97 \<le> r \<and> r \<le> 122 else word r)"

definition words_of :: "(string \<Rightarrow> string) \<Rightarrow> (nat \<Rightarrow> bool) \<Rightarrow> string \<Rightarrow> string list" where
  "words_of lower word value = fields_func (\<lambda>r. \<not> word_rune word r) [] (to_lower lower value)"

definition normalizeWords :: "(string \<Rightarrow> string) \<Rightarrow> (nat \<Rightarrow> bool) \<Rightarrow> string \<Rightarrow> string" where
  "normalizeWords lower word value = join_str '' '' (words_of lower word value)"


subsection \<open>Categories\<close>

definition CategoryMobile :: string where "CategoryMobile = ''mobile''"
definition CategoryResidential :: string where "CategoryResidential = ''residential''"
definition CategoryDatacenter :: string where "CategoryDatacenter = ''datacenter''"
definition CategoryUnknown :: string where "CategoryUnknown = ''unknown''"

definition datacenterASNTokens :: "string list" where
  "datacenterASNTokens =
     [''amazon'', ''aws'', ''google cloud'', ''microsoft'', ''azure'', ''digitalocean'', ''linode'',
      ''vultr'', ''ovh'', ''hetzner'', ''hostrush'', ''database mart'', ''hosting'', ''cloud'', ''colo'',
      ''datacenter'', ''data center'', ''server'']"

definition isDatacenterType :: "string \<Rightarrow> bool" where
  "isDatacenterType proxyCheckType \<longleftrightarrow>
     proxyCheckType \<in> {''dch'', ''business'', ''hosting'', ''corporate'', ''education''}"

definition hasDatacenterASN :: "(string \<Rightarrow> string) \<Rightarrow> (nat \<Rightarrow> bool) \<Rightarrow> string \<Rightarrow> bool" where
  "hasDatacenterASN lower word asn =
     (let normalized = '' '' @ normalizeWords lower word asn @ '' ''
      in list_ex (\<lambda>token. contains_str normalized ('' '' @ token @ '' '')) datacenterASNTokens)"

definition Classify :: "(string \<Rightarrow> string) \<Rightarrow> (nat \<Rightarrow> bool) \<Rightarrow> partial \<Rightarrow> string" where
  "Classify lower word p =
     (if \<not> pt_HadSignal p then CategoryUnknown
      else (let proxyCheckType = to_lower lower (trim_space (pt_ProxyCheckType p)) in
            if isDatacenterType proxyCheckType \<or> hasDatacenterASN lower word (pt_ASN p) then CategoryDatacenter
            else if pt_IsMobile p = Some True \<or> proxyCheckType = ''wireless'' then CategoryMobile
            else CategoryResidential))"


subsection \<open>Merging in provider order\<close>

lemma foldl_mergeString: "foldl mergeString d xs = last (d # filter (\<lambda>s. s \<noteq> []) xs)"
  by (induction xs arbitrary: d) (simp_all add: mergeString_def)

lemma foldl_mergeBool: "foldl mergeBool d xs = last (d # filter (\<lambda>v. v \<noteq> None) xs)"
  by (induction xs arbitrary: d) (auto simp: mergeBool_def)

lemma foldl_mergeInt: "foldl mergeInt d xs = last (d # filter (\<lambda>v. v \<noteq> None) xs)"
  by (induction xs arbitrary: d) (auto simp: mergeInt_def)

lemma dedup_from_append:
  "dedup_from seen (xs @ ys) = dedup_from seen xs @ dedup_from (rev (dedup_from seen xs) @ seen) ys"
  by (induction xs arbitrary: seen) simp_all

lemma dedup_dedup: "dedup_from [] (dedup_from [] xs @ ys) = dedup_from [] (xs @ ys)"
proof -
  have "dedup_from [] (dedup_from [] xs) = dedup_from [] xs"
    by (rule dedup_from_distinct) (simp_all add: dedup_simps)
  then show ?thesis
    by (simp add: dedup_from_append)
qed

lemma unionStrings_dedup: "unionStrings xs ys = dedup_from [] (xs @ ys)"
  by (simp add: unionStrings_def)

lemma foldl_unionStrings: "foldl unionStrings (dedup_from [] xs) yss = dedup_from [] (xs @ concat yss)"
proof (induction yss arbitrary: xs)
  case (Cons ys yss)
  then show ?case using Cons.IH [of "xs @ ys"] by (simp add: unionStrings_dedup dedup_dedup)
qed simp

text \<open>Folding \<open>Merge\<close> folds every field on its own.\<close>

lemma foldl_Merge:
  "foldl Merge p ps =
     \<lparr>pt_Country = foldl mergeString (pt_Country p) (map pt_Country ps),
      pt_Region = foldl mergeString (pt_Region p) (map pt_Region ps),
      pt_City = foldl mergeString (pt_City p) (map pt_City ps),
      pt_ISP = foldl mergeString (pt_ISP p) (map pt_ISP ps),
      pt_ASN = foldl mergeString (pt_ASN p) (map pt_ASN ps),
      pt_IsMobile = foldl mergeBool (pt_IsMobile p) (map pt_IsMobile ps),
      pt_IPAPIProxy = foldl mergeBool (pt_IPAPIProxy p) (map pt_IPAPIProxy ps),
      pt_IPAPIHosting = foldl mergeBool (pt_IPAPIHosting p) (map pt_IPAPIHosting ps),
      pt_ProxyCheckType = foldl mergeString (pt_ProxyCheckType p) (map pt_ProxyCheckType ps),
      pt_ProxyCheckProxy = foldl mergeBool (pt_ProxyCheckProxy p) (map pt_ProxyCheckProxy ps),
      pt_RiskScore = foldl mergeInt (pt_RiskScore p) (map pt_RiskScore ps),
      pt_GreyNoiseClass = foldl mergeString (pt_GreyNoiseClass p) (map pt_GreyNoiseClass ps),
      pt_SFSAppears = foldl mergeBool (pt_SFSAppears p) (map pt_SFSAppears ps),
      pt_SFSFrequency = foldl mergeInt (pt_SFSFrequency p) (map pt_SFSFrequency ps),
      pt_DNSBLListed = foldl mergeBool (pt_DNSBLListed p) (map pt_DNSBLListed ps),
      pt_DNSBLHits = foldl unionStrings (pt_DNSBLHits p) (map pt_DNSBLHits ps),
      pt_DNSBLDynamic = (pt_DNSBLDynamic p \<or> list_ex pt_DNSBLDynamic ps),
      pt_Raw = foldl copy_map (pt_Raw p) (map pt_Raw ps),
      pt_HadSignal = (pt_HadSignal p \<or> list_ex pt_HadSignal ps),
      pt_Errors = foldl copy_map (pt_Errors p) (map pt_Errors ps)\<rparr>"
  by (induction ps arbitrary: p) (simp_all add: Merge_def)

lemma gomap_copy_map: "gomap m \<Longrightarrow> gomap (copy_map m xs)"
  unfolding copy_map_def by (induction xs arbitrary: m) auto


subsection \<open>Tokens are matched word by word\<close>

text \<open>A word holds no space: its bytes are ASCII letters and digits or parts of longer encodings.\<close>

lemma decode_rune_bytes:
  "decode_rune s = (r, w) \<Longrightarrow> c \<in> set (take w s) \<Longrightarrow> byte c < 128 \<Longrightarrow> r = byte c"
  by (cases s) (auto simp: decode_rune_def Let_def in_range_def rune_error_def split: if_splits list.splits option.splits)

definition word_text :: "string \<Rightarrow> bool" where
  "word_text w \<longleftrightarrow> w \<noteq> [] \<and> CHR '' '' \<notin> set w"

lemma fields_func_words:
  assumes "CHR '' '' \<notin> set cur"
  shows "list_all word_text (fields_func (\<lambda>r. \<not> word_rune word r) cur s)"
  using assms
proof (induction "\<lambda>r. \<not> word_rune word r" cur s rule: fields_func.induct)
  case (1 cur s)
  show ?case
  proof (cases "s = []")
    case True
    with "1.prems" show ?thesis by (simp add: fields_func.simps word_text_def)
  next
    case False
    obtain r w where d: "decode_rune s = (r, w)" by fastforce
    have sp: "CHR '' '' \<notin> set (take w s)" if "word_rune word r"
      using decode_rune_bytes [OF d, of "CHR '' ''"] that by (auto simp: word_rune_def)
    show ?thesis
      using "1.prems" "1.hyps" [OF False d [symmetric]] d False sp
      by (auto simp: fields_func.simps [of _ cur s] word_text_def)
  qed
qed

lemma words_of_words: "list_all word_text (words_of lower word s)"
  unfolding words_of_def by (rule fields_func_words) simp

text \<open>Words followed by a space each are a uniquely decodable code.\<close>

definition spaced :: "string list \<Rightarrow> string" where
  "spaced ws = concat (map (\<lambda>w. w @ '' '') ws)"

lemma spaced_simps [simp]: "spaced [] = []" "spaced (w # ws) = w @ CHR '' '' # spaced ws"
  by (simp_all add: spaced_def)

lemma join_spaced: "ws \<noteq> [] \<Longrightarrow> join_str '' '' ws @ '' '' = spaced ws"
  by (induction "'' ''::string" ws rule: join_str.induct) simp_all

lemma first_space:
  "CHR '' '' \<notin> set u \<Longrightarrow> CHR '' '' \<notin> set v \<Longrightarrow> u @ CHR '' '' # x = v @ CHR '' '' # y \<longleftrightarrow> u = v \<and> x = y"
  by (auto simp: append_eq_append_conv2 Cons_eq_append_conv append_eq_Cons_conv)

lemma prefix_spaced:
  assumes "list_all word_text ts" and "list_all word_text ws"
  shows "prefix (spaced ts) (spaced ws) \<longleftrightarrow> prefix ts ws"
  using assms
proof (induction ts arbitrary: ws)
  case (Cons t ts)
  show ?case
  proof (cases ws)
    case (Cons w ws')
    have "prefix (t @ CHR '' '' # spaced ts) (w @ CHR '' '' # spaced ws') \<longleftrightarrow> t = w \<and> prefix (spaced ts) (spaced ws')"
      using Cons.prems first_space [of w t] unfolding Cons prefix_def by (auto simp: word_text_def)
    then show ?thesis using Cons.IH [of ws'] Cons.prems by (simp add: Cons)
  qed simp
qed simp

lemma sublist_spaced:
  assumes "list_all word_text ts" and "list_all word_text ws" and "ts \<noteq> []"
  shows "sublist (CHR '' '' # spaced ts) (CHR '' '' # spaced ws) \<longleftrightarrow> sublist ts ws"
  using assms(2)
proof (induction ws)
  case Nil
  from assms(1,3) have "2 \<le> length (CHR '' '' # spaced ts)" by (cases ts) simp_all
  then show ?case using assms(3) sublist_length_le [of "CHR '' '' # spaced ts" "'' ''"] by auto
next
  case (Cons w ws)
  have eq: "sublist (CHR '' '' # spaced ts) (w @ CHR '' '' # spaced ws) \<longleftrightarrow> sublist (CHR '' '' # spaced ts) (CHR '' '' # spaced ws)"
  proof
    assume "sublist (CHR '' '' # spaced ts) (w @ CHR '' '' # spaced ws)"
    then obtain x y where xy: "w @ CHR '' '' # spaced ws = x @ CHR '' '' # spaced ts @ y"
      unfolding sublist_def by auto
    have w: "CHR '' '' \<notin> set w" using Cons.prems by (simp add: word_text_def)
    from xy consider (in_w) us where "w = x @ us" "us @ CHR '' '' # spaced ws = CHR '' '' # spaced ts @ y"
      | (after) us where "x = w @ us" "CHR '' '' # spaced ws = us @ CHR '' '' # spaced ts @ y"
      unfolding append_eq_append_conv2 by blast
    then show "sublist (CHR '' '' # spaced ts) (CHR '' '' # spaced ws)"
    proof cases
      case in_w
      with w have "us = []" by (cases us) auto
      with in_w show ?thesis by (simp add: sublist_Cons_right)
    next
      case after
      then show ?thesis unfolding sublist_def by auto
    qed
  qed (simp add: sublist_append)
  have "sublist (CHR '' '' # spaced ts) (CHR '' '' # spaced (w # ws))
      \<longleftrightarrow> prefix (spaced ts) (spaced (w # ws)) \<or> sublist (CHR '' '' # spaced ts) (w @ CHR '' '' # spaced ws)"
    by (simp add: sublist_Cons_right)
  then show ?case
    using Cons prefix_spaced [OF assms(1) Cons.prems] eq by (simp add: sublist_Cons_right)
qed

text \<open>The tokens are written the way \<open>normalizeWords\<close> writes words.\<close>

definition token_words :: "string \<Rightarrow> string list" where
  "token_words token = fields_func (\<lambda>r. \<not> word_rune (\<lambda>_. False) r) [] token"

lemma tokens_normal:
  "list_all (\<lambda>token. token_words token \<noteq> [] \<and> join_str '' '' (token_words token) = token) datacenterASNTokens"
  unfolding datacenterASNTokens_def token_words_def by code_simp

lemma token_words_words: "list_all word_text (token_words token)"
  unfolding token_words_def by (rule fields_func_words) simp

lemma hasDatacenterASN_words:
  "hasDatacenterASN lower word asn \<longleftrightarrow>
     list_ex (\<lambda>token. sublist (token_words token) (words_of lower word asn)) datacenterASNTokens"
proof -
  have *: "contains_str ('' '' @ normalizeWords lower word asn @ '' '') ('' '' @ token @ '' '')
      \<longleftrightarrow> sublist (token_words token) (words_of lower word asn)" if "token \<in> set datacenterASNTokens" for token
  proof -
    have t: "token_words token \<noteq> []" "join_str '' '' (token_words token) = token"
      using tokens_normal that by (auto simp: list_all_iff)
    then have sp: "'' '' @ token @ '' '' = CHR '' '' # spaced (token_words token)"
      using join_spaced [of "token_words token"] by simp
    show ?thesis
    proof (cases "words_of lower word asn = []")
      case True
      have "\<not> sublist (CHR '' '' # spaced (token_words token)) ''  ''"
        using t(1) token_words_words [of token] sublist_length_le
        by (cases "token_words token") (fastforce simp: word_text_def neq_Nil_conv)+
      then show ?thesis using True t(1) unfolding sp contains_str_sublist by (simp add: normalizeWords_def)
    next
      case False
      then show ?thesis
        unfolding sp contains_str_sublist
        using sublist_spaced [OF token_words_words words_of_words t(1)] join_spaced [OF False]
        by (simp add: normalizeWords_def)
    qed
  qed
  then show ?thesis unfolding hasDatacenterASN_def Let_def list_ex_iff by auto
qed


subsection \<open>The category\<close>

text \<open>
  the category is one of four: \<open>unknown\<close> exactly when no provider answered; \<open>datacenter\<close> exactly when
  one did and either the proxycheck type is a datacenter type or the words of the ASN contain the words
  of one of the tokens next to each other (so "cloudflare" is not "cloud", while "data-center" is "data
  center"); \<open>mobile\<close> exactly when no datacenter evidence exists and the address is mobile or wireless.
\<close>

theorem classification:
  fixes lower word p
  defines "kind \<equiv> to_lower lower (trim_space (pt_ProxyCheckType p))"
    and "category \<equiv> Classify lower word p"
  defines "datacenter \<equiv> kind \<in> {''dch'', ''business'', ''hosting'', ''corporate'', ''education''}
    \<or> (\<exists>token \<in> set datacenterASNTokens. sublist (token_words token) (words_of lower word (pt_ASN p)))"
  shows "category \<in> {''mobile'', ''residential'', ''datacenter'', ''unknown''}
     \<and> (category = ''unknown'') = (\<not> pt_HadSignal p)
     \<and> (category = ''datacenter'') = (pt_HadSignal p \<and> datacenter)
     \<and> (category = ''mobile'') = (pt_HadSignal p \<and> \<not> datacenter \<and> (pt_IsMobile p = Some True \<or> kind = ''wireless''))"
proof -
  have d: "datacenter \<longleftrightarrow> isDatacenterType kind \<or> hasDatacenterASN lower word (pt_ASN p)"
    unfolding datacenter_def hasDatacenterASN_words list_ex_iff isDatacenterType_def by blast
  have c: "category = (if \<not> pt_HadSignal p then ''unknown'' else if datacenter then ''datacenter''
      else if pt_IsMobile p = Some True \<or> kind = ''wireless'' then ''mobile'' else ''residential'')"
    unfolding category_def Classify_def Let_def kind_def [symmetric] d
    by (simp add: CategoryUnknown_def CategoryDatacenter_def CategoryMobile_def CategoryResidential_def)
  show ?thesis unfolding c by simp
qed

lemma classify_examples:
  "words_of id (\<lambda>_. False) ''AS13335 Cloudflare, Inc.'' = [''as13335'', ''cloudflare'', ''inc'']"
  "\<not> hasDatacenterASN id (\<lambda>_. False) ''AS13335 Cloudflare, Inc.''"
  "hasDatacenterASN id (\<lambda>_. False) ''Foo Data-Center BV''"
  by code_simp+

end
