(* ===== verification/Providers.thy ===== *)
theory Providers
  imports Reputations
begin

text \<open>
  The reputation providers of \<open>internal/enrich\<close> (\<open>ipapi.go\<close>, \<open>proxycheck.go\<close>, \<open>greynoise.go\<close>,
  \<open>stopforumspam.go\<close>, \<open>dnsbl.go\<close>). What lies outside the program is the record \<open>web\<close>: the HTTP client, the
  DNS resolver, \<open>json.Unmarshal\<close> into the response types, and the quoting of texts in error messages. The
  lemmas hold for every such record.
\<close>

subsection \<open>The outside world\<close>

text \<open>What \<open>client.Do\<close> yields; a body may break off with an error after its last byte.\<close>

datatype http_reply =
    BadRequest
  | RequestFailed go_error
  | Response int string "go_error option"

record ipapi_response =
  ia_Status :: string
  ia_CountryCode :: string
  ia_RegionName :: string
  ia_City :: string
  ia_ISP :: string
  ia_ASN :: string
  ia_Mobile :: "bool option"
  ia_Proxy :: "bool option"
  ia_Hosting :: "bool option"

record proxycheck_entry =
  pe_Type :: string
  pe_Proxy :: string
  pe_Risk :: string

record sfs_response =
  sf_Success :: int
  sf_Appears :: "int option"
  sf_Frequency :: "int option"

datatype dns_reply = DnsNotFound | DnsError go_error | DnsAnswers "string list"

record web =
  wb_do :: "string \<Rightarrow> (string \<times> string) list \<Rightarrow> http_reply"
  wb_resolve :: "string \<Rightarrow> dns_reply"
  wb_quote :: "string \<Rightarrow> string"
  wb_quote_ascii :: "string \<Rightarrow> string"
  wb_ipapi :: "string \<Rightarrow> ipapi_response result"
  wb_envelope :: "string \<Rightarrow> (string, string) gomap result"
  wb_string :: "string \<Rightarrow> string result"
  wb_entry :: "string \<Rightarrow> proxycheck_entry result"
  wb_classification :: "string \<Rightarrow> string result"
  wb_sfs :: "string \<Rightarrow> sfs_response result"


subsection \<open>providerGET\<close>

definition maxProviderBody :: nat where "maxProviderBody = 1048576"
definition maxHTTPErrorExcerpt :: nat where "maxHTTPErrorExcerpt = 256"

text \<open>\<open>io.ReadAll\<close> of an \<open>io.LimitReader\<close>: the broken end of a body is not reached beyond the limit.\<close>

definition read_limited :: "nat \<Rightarrow> string \<Rightarrow> go_error option \<Rightarrow> string \<times> go_error option" where
  "read_limited n body broken = (if n \<le> length body then (take n body, None) else (body, broken))"

text \<open>\<open>providerHTTPError\<close> is the only failure a caller tells apart.\<close>

datatype get_error = StatusError int string | OtherError go_error

definition get_error_text :: "web \<Rightarrow> string \<Rightarrow> get_error \<Rightarrow> go_error" where
  "get_error_text W provider e =
     (case e of
        OtherError x \<Rightarrow> x
      | StatusError code body \<Rightarrow>
          ErrOther (provider @ '': HTTP status '' @ itoa code @
            (if body = [] then [] else '': '' @ wb_quote_ascii W body)))"

definition providerGET :: "web \<Rightarrow> string \<Rightarrow> string \<Rightarrow> (string \<times> string) list \<Rightarrow> get_error + string" where
  "providerGET W provider requestURL headers =
     (case wb_do W requestURL headers of
        BadRequest \<Rightarrow> Inl (OtherError (ErrOther (provider @ '': build request'')))
      | RequestFailed cause \<Rightarrow> Inl (OtherError (ErrOther (provider @ '': request failed'')))
      | Response code body broken \<Rightarrow>
          if code < 200 \<or> code \<ge> 300
          then Inl (StatusError code (trim_space (fst (read_limited maxHTTPErrorExcerpt body broken))))
          else (case read_limited (maxProviderBody + 1) body broken of
                  (_, Some e) \<Rightarrow> Inl (OtherError (Wrapped (provider @ '': read response'') e))
                | (got, None) \<Rightarrow>
                    if length got > maxProviderBody
                    then Inl (OtherError (ErrOther (provider @ '': response exceeds '' @ itoa (int maxProviderBody) @ '' bytes'')))
                    else Inr got))"


subsection \<open>ip-api\<close>

definition ipAPIBase :: string where "ipAPIBase = ''http://ip-api.com/json/''"

definition ipapi_Lookup :: "web \<Rightarrow> addr \<Rightarrow> partial \<times> go_error option" where
  "ipapi_Lookup W ip =
     (case providerGET W ''ip-api'' (ipAPIBase @ addr_str ip @ ''?fields=status,countryCode,regionName,city,isp,as,mobile,proxy,hosting'') [] of
        Inl e \<Rightarrow> (no_partial, Some (get_error_text W ''ip-api'' e))
      | Inr body \<Rightarrow>
     (case wb_ipapi W body of
        Inl e \<Rightarrow> (no_partial, Some (Wrapped ''ip-api: decode response'' e))
      | Inr response \<Rightarrow>
          if ia_Status response \<noteq> ''success''
          then (no_partial, Some (ErrOther (''ip-api: provider status '' @ wb_quote W (ia_Status response))))
          else (no_partial\<lparr>pt_Country := ia_CountryCode response, pt_Region := ia_RegionName response, pt_City := ia_City response,
                  pt_ISP := ia_ISP response, pt_ASN := ia_ASN response, pt_IsMobile := ia_Mobile response,
                  pt_IPAPIProxy := ia_Proxy response, pt_IPAPIHosting := ia_Hosting response,
                  pt_Raw := [(''ip-api'', body)], pt_HadSignal := True\<rparr>, None)))"


subsection \<open>proxycheck\<close>

definition proxyCheckBase :: string where "proxyCheckBase = ''https://proxycheck.io/v2/''"

definition parseYesNo :: "web \<Rightarrow> string \<Rightarrow> bool result" where
  "parseYesNo W value =
     (if value = ''yes'' then Inr True else if value = ''no'' then Inr False
      else Inl (ErrOther (''unexpected value '' @ wb_quote W value)))"

text \<open>\<open>strings.Trim(s, "\"")\<close>.\<close>

definition trim_quotes :: "string \<Rightarrow> string" where
  "trim_quotes s = rev (dropWhile (\<lambda>c. c = CHR 0x22) (rev (dropWhile (\<lambda>c. c = CHR 0x22) s)))"

definition parseProxyCheckRisk :: "string \<Rightarrow> int option result" where
  "parseProxyCheckRisk raw =
     (let trimmed = trim_space raw in
      if trimmed = [] \<or> trimmed = ''null'' then Inr None
      else (case atoi (trim_quotes trimmed) of
              None \<Rightarrow> Inl (ErrOther ''risk must be an integer from 0 to 100'')
            | Some risk \<Rightarrow> if risk < 0 \<or> risk > 100 then Inl (ErrOther ''risk must be an integer from 0 to 100'')
                           else Inr (Some risk)))"

text \<open>A missing \<open>status\<close> is unmarshalled from no bytes; after a failed decoding the text is empty.\<close>

definition proxycheck_Lookup :: "web \<Rightarrow> addr \<Rightarrow> partial \<times> go_error option" where
  "proxycheck_Lookup W ip =
     (case providerGET W ''proxycheck'' (proxyCheckBase @ addr_str ip @ ''?vpn=1&risk=1'') [] of
        Inl e \<Rightarrow> (no_partial, Some (get_error_text W ''proxycheck'' e))
      | Inr body \<Rightarrow>
     (case wb_envelope W body of
        Inl e \<Rightarrow> (no_partial, Some (Wrapped ''proxycheck: decode response'' e))
      | Inr envelope \<Rightarrow>
     (let status = wb_string W (case map_of envelope ''status'' of None \<Rightarrow> [] | Some raw \<Rightarrow> raw) in
      if status \<noteq> Inr ''ok''
      then (no_partial, Some (ErrOther (''proxycheck: provider status '' @ wb_quote W (case status of Inl _ \<Rightarrow> [] | Inr s \<Rightarrow> s))))
      else (case map_of envelope (addr_str ip) of
        None \<Rightarrow> (no_partial, Some (ErrOther ''proxycheck: response missing IP entry''))
      | Some entryJSON \<Rightarrow>
     (case wb_entry W entryJSON of
        Inl e \<Rightarrow> (no_partial, Some (Wrapped ''proxycheck: decode IP entry'' e))
      | Inr entry \<Rightarrow>
     (case parseYesNo W (pe_Proxy entry) of
        Inl e \<Rightarrow> (no_partial, Some (Wrapped ''proxycheck: proxy'' e))
      | Inr proxy \<Rightarrow>
     (case parseProxyCheckRisk (pe_Risk entry) of
        Inl e \<Rightarrow> (no_partial, Some (Wrapped ''proxycheck'' e))
      | Inr risk \<Rightarrow>
          (no_partial\<lparr>pt_ProxyCheckType := pe_Type entry, pt_ProxyCheckProxy := Some proxy, pt_RiskScore := risk,
             pt_Raw := [(''proxycheck'', body)], pt_HadSignal := True\<rparr>, None))))))))"


subsection \<open>GreyNoise\<close>

definition is_v4 :: "addr \<Rightarrow> bool" where
  "is_v4 a = (case a of V4 _ \<Rightarrow> True | _ \<Rightarrow> False)"

definition greyNoiseBase :: string where "greyNoiseBase = ''https://api.greynoise.io/v3/community/''"

definition greynoise_Lookup :: "web \<Rightarrow> addr \<Rightarrow> partial \<times> go_error option" where
  "greynoise_Lookup W ip =
     (if \<not> is_v4 ip then (no_partial, None)
      else (case providerGET W ''greynoise'' (greyNoiseBase @ addr_str ip) [(''Accept'', ''application/json'')] of
        Inl (StatusError code body) \<Rightarrow>
          if code = 404 then (no_partial, None)
          else (no_partial, Some (get_error_text W ''greynoise'' (StatusError code body)))
      | Inl e \<Rightarrow> (no_partial, Some (get_error_text W ''greynoise'' e))
      | Inr body \<Rightarrow>
     (case wb_classification W body of
        Inl e \<Rightarrow> (no_partial, Some (Wrapped ''greynoise: decode response'' e))
      | Inr classification \<Rightarrow>
          if classification = [] then (no_partial, Some (ErrOther ''greynoise: response missing classification''))
          else (no_partial\<lparr>pt_GreyNoiseClass := classification, pt_Raw := [(''greynoise'', body)], pt_HadSignal := True\<rparr>, None))))"


subsection \<open>StopForumSpam\<close>

definition stopForumSpamURL :: string where "stopForumSpamURL = ''https://api.stopforumspam.org/api''"

text \<open>\<open>url.QueryEscape\<close>.\<close>

definition escape_hex :: "nat \<Rightarrow> char" where
  "escape_hex d = ''0123456789ABCDEF'' ! d"

definition query_escape :: "string \<Rightarrow> string" where
  "query_escape s = concat (map (\<lambda>c.
     if is_digit c \<or> 65 \<le> byte c \<and> byte c \<le> 90 \<or> 97 \<le> byte c \<and> byte c \<le> 122 \<or> c \<in> {CHR ''-'', CHR ''_'', CHR ''.'', CHR ''~''}
     then [c] else if c = CHR '' '' then ''+''
     else [CHR ''%'', escape_hex (byte c div 16), escape_hex (byte c mod 16)]) s)"

definition stopforumspam_Lookup :: "web \<Rightarrow> addr \<Rightarrow> partial \<times> go_error option" where
  "stopforumspam_Lookup W ip =
     (case providerGET W ''stopforumspam'' (stopForumSpamURL @ ''?ip='' @ query_escape (addr_str ip) @ ''&json='') [] of
        Inl e \<Rightarrow> (no_partial, Some (get_error_text W ''stopforumspam'' e))
      | Inr body \<Rightarrow>
     (case wb_sfs W body of
        Inl e \<Rightarrow> (no_partial, Some (Wrapped ''stopforumspam: decode response'' e))
      | Inr response \<Rightarrow>
          if sf_Success response \<noteq> 1 then (no_partial, Some (ErrOther ''stopforumspam: provider status unsuccessful''))
          else (let appears = map_option (\<lambda>n. n \<noteq> 0) (sf_Appears response) in
                (no_partial\<lparr>pt_SFSAppears := appears, pt_SFSFrequency := sf_Frequency response,
                   pt_Raw := [(''stopforumspam'', body)],
                   pt_HadSignal := (appears \<noteq> None \<or> sf_Frequency response \<noteq> None)\<rparr>, None))))"


subsection \<open>DNS block lists\<close>

definition defaultDNSBLZones :: "string list" where
  "defaultDNSBLZones = [''zen.spamhaus.org'', ''b.barracudacentral.org'', ''dnsbl.sorbs.net'', ''bl.spamcop.net'',
     ''dnsbl-1.uceprotect.net'']"

definition reverseIPv4 :: "32 word \<Rightarrow> string" where
  "reverseIPv4 w = join_str ''.'' (map (\<lambda>i. nat_str (v4_octet i w)) [3, 2, 1, 0])"

text \<open>The loop that stops at an answer that is no IPv4 address or in 127.255.255.0/24.\<close>

fun check_answers :: "string \<Rightarrow> string list \<Rightarrow> go_error option" where
  "check_answers zone [] = None"
| "check_answers zone (answer # rest) =
     (case map_option unmap (ParseAddr answer) of
        Some (V4 w) \<Rightarrow>
          if v4_octet 0 w = 127 \<and> v4_octet 1 w = 255 \<and> v4_octet 2 w = 255
          then Some (ErrOther (zone @ '': provider ratelimit response'')) else check_answers zone rest
      | _ \<Rightarrow> Some (ErrOther (zone @ '': invalid answer'')))"

text \<open>The loop that separates dynamic-address answers from listings.\<close>

fun classify_answers :: "string \<Rightarrow> bool \<Rightarrow> bool \<Rightarrow> string list \<Rightarrow> bool \<times> bool" where
  "classify_answers zone dynamic zoneListed [] = (dynamic, zoneListed)"
| "classify_answers zone dynamic zoneListed (answer # rest) =
     (if zone = ''zen.spamhaus.org'' \<and> (answer = ''127.0.0.10'' \<or> answer = ''127.0.0.11'')
      then classify_answers zone True zoneListed rest
      else classify_answers zone dynamic True rest)"

fun dnsbl_loop :: "web \<Rightarrow> string \<Rightarrow> string list \<Rightarrow> bool \<Rightarrow> partial \<Rightarrow> go_error option list \<Rightarrow> bool \<times> partial \<times> go_error option list" where
  "dnsbl_loop W reversed [] listed p errs = (listed, p, errs)"
| "dnsbl_loop W reversed (zone # zones) listed p errs =
     (case wb_resolve W (reversed @ ''.'' @ zone) of
        DnsNotFound \<Rightarrow> dnsbl_loop W reversed zones listed (p\<lparr>pt_HadSignal := True\<rparr>) errs
      | DnsError e \<Rightarrow> dnsbl_loop W reversed zones listed p (errs @ [Some (Wrapped zone e)])
      | DnsAnswers answers \<Rightarrow>
          (case check_answers zone answers of
             Some e \<Rightarrow> dnsbl_loop W reversed zones listed p (errs @ [Some e])
           | None \<Rightarrow>
               (case classify_answers zone (pt_DNSBLDynamic p) False answers of
                  (dynamic, zoneListed) \<Rightarrow>
                    dnsbl_loop W reversed zones (listed \<or> zoneListed)
                      (p\<lparr>pt_HadSignal := True, pt_DNSBLDynamic := dynamic,
                         pt_DNSBLHits := (if zoneListed then pt_DNSBLHits p @ [zone] else pt_DNSBLHits p)\<rparr>) errs)))"

definition dnsbl_Lookup :: "web \<Rightarrow> string list \<Rightarrow> addr \<Rightarrow> partial \<times> go_error option" where
  "dnsbl_Lookup W zones ip0 =
     (case unmap ip0 of
        V4 w \<Rightarrow>
          (case dnsbl_loop W (reverseIPv4 w) zones False no_partial [] of
             (listed, p, errs) \<Rightarrow>
               (let p' = (if pt_HadSignal p then p\<lparr>pt_DNSBLListed := Some listed\<rparr> else p)
                in (p'\<lparr>pt_DNSBLHits := sort (pt_DNSBLHits p')\<rparr>, errors_join errs)))
      | _ \<Rightarrow> (no_partial, None))"

lemma classify_answers_eq:
  "classify_answers zone dynamic zoneListed answers =
     (let dyn = (\<lambda>a. zone = ''zen.spamhaus.org'' \<and> (a = ''127.0.0.10'' \<or> a = ''127.0.0.11''))
      in (dynamic \<or> list_ex dyn answers, zoneListed \<or> list_ex (\<lambda>a. \<not> dyn a) answers))"
  by (induction zone dynamic zoneListed answers rule: classify_answers.induct) (auto simp: Let_def)

text \<open>What one zone says of the address: nothing usable, or whether it is listed there.\<close>

definition zone_verdict :: "web \<Rightarrow> string \<Rightarrow> string \<Rightarrow> bool option" where
  "zone_verdict W reversed zone =
     (case wb_resolve W (reversed @ ''.'' @ zone) of
        DnsNotFound \<Rightarrow> Some False
      | DnsError e \<Rightarrow> None
      | DnsAnswers answers \<Rightarrow>
          if check_answers zone answers \<noteq> None then None
          else Some (list_ex (\<lambda>a. \<not> (zone = ''zen.spamhaus.org'' \<and> (a = ''127.0.0.10'' \<or> a = ''127.0.0.11''))) answers))"

definition note_zone :: "bool \<Rightarrow> string \<Rightarrow> bool option \<Rightarrow> partial \<Rightarrow> partial" where
  "note_zone dynamic zone verdict p =
     p\<lparr>pt_HadSignal := (pt_HadSignal p \<or> verdict \<noteq> None), pt_DNSBLDynamic := dynamic,
       pt_DNSBLHits := (if verdict = Some True then pt_DNSBLHits p @ [zone] else pt_DNSBLHits p)\<rparr>"

lemma note_zone_simps [simp]:
  "pt_HadSignal (note_zone dyn z v p) = (pt_HadSignal p \<or> v \<noteq> None)"
  "pt_DNSBLHits (note_zone dyn z v p) = (if v = Some True then pt_DNSBLHits p @ [z] else pt_DNSBLHits p)"
  "(note_zone dyn z v p)\<lparr>pt_HadSignal := a, pt_DNSBLDynamic := b, pt_DNSBLHits := c\<rparr>
     = p\<lparr>pt_HadSignal := a, pt_DNSBLDynamic := b, pt_DNSBLHits := c\<rparr>"
  by (simp_all add: note_zone_def)

lemma dnsbl_loop_step:
  "\<exists>dyn e. dnsbl_loop W rv (z # zs) listed p errs =
     dnsbl_loop W rv zs (listed \<or> zone_verdict W rv z = Some True) (note_zone dyn z (zone_verdict W rv z) p)
       (if zone_verdict W rv z = None then errs @ [Some e] else errs)"
proof (cases "wb_resolve W (rv @ ''.'' @ z)")
  case DnsNotFound
  then show ?thesis by (intro exI [of _ "pt_DNSBLDynamic p"]) (simp add: zone_verdict_def note_zone_def)
next
  case (DnsError e)
  then show ?thesis by (intro exI [of _ "pt_DNSBLDynamic p"]) (auto simp: zone_verdict_def note_zone_def)
next
  case (DnsAnswers as)
  show ?thesis
  proof (cases "check_answers z as")
    case None
    obtain dyn l where c: "classify_answers z (pt_DNSBLDynamic p) False as = (dyn, l)" by fastforce
    have "zone_verdict W rv z = Some l"
      using c None DnsAnswers by (simp add: zone_verdict_def classify_answers_eq Let_def)
    then show ?thesis using c None DnsAnswers by (intro exI [of _ dyn]) (auto simp: note_zone_def)
  next
    case (Some e)
    then show ?thesis
      using DnsAnswers by (intro exI [of _ "pt_DNSBLDynamic p"] exI [of _ e]) (simp add: zone_verdict_def note_zone_def)
  qed
qed

lemma dnsbl_loop_verdicts:
  assumes "dnsbl_loop W rv zones listed p errs = (listed', p', errs')" and "None \<notin> set errs"
  shows "listed' = (listed \<or> list_ex (\<lambda>z. zone_verdict W rv z = Some True) zones)
     \<and> pt_HadSignal p' = (pt_HadSignal p \<or> list_ex (\<lambda>z. zone_verdict W rv z \<noteq> None) zones)
     \<and> pt_DNSBLHits p' = pt_DNSBLHits p @ filter (\<lambda>z. zone_verdict W rv z = Some True) zones
     \<and> (errors_join errs' = None) = (errs = [] \<and> list_all (\<lambda>z. zone_verdict W rv z \<noteq> None) zones)
     \<and> (\<forall>a b c. p'\<lparr>pt_HadSignal := a, pt_DNSBLDynamic := b, pt_DNSBLHits := c\<rparr>
            = p\<lparr>pt_HadSignal := a, pt_DNSBLDynamic := b, pt_DNSBLHits := c\<rparr>)"
  using assms
proof (induction zones arbitrary: listed p errs)
  case Nil
  then show ?case by (cases errs) (auto simp: errors_join_None_iff)
next
  case (Cons z zs)
  obtain dyn e where s: "dnsbl_loop W rv (z # zs) listed p errs =
     dnsbl_loop W rv zs (listed \<or> zone_verdict W rv z = Some True) (note_zone dyn z (zone_verdict W rv z) p)
       (if zone_verdict W rv z = None then errs @ [Some e] else errs)"
    using dnsbl_loop_step by blast
  show ?case
    using Cons.IH [OF Cons.prems(1) [unfolded s]] Cons.prems(2) by (simp split: if_splits) blast
qed

lemma sort_Nil_iff: "sort xs = [] \<longleftrightarrow> xs = []"
  by (metis length_0_conv length_sort)

text \<open>The provider sets no field but its own.\<close>

lemma dnsbl_frame:
  assumes "dnsbl_Lookup W zones ip = (p, e)"
  shows "p\<lparr>pt_HadSignal := False, pt_DNSBLDynamic := False, pt_DNSBLHits := [], pt_DNSBLListed := None\<rparr> = no_partial"
proof (cases "unmap ip")
  case (V4 w)
  obtain listed q errs where l: "dnsbl_loop W (reverseIPv4 w) zones False no_partial [] = (listed, q, errs)"
    by (cases "dnsbl_loop W (reverseIPv4 w) zones False no_partial []")
  have "q\<lparr>pt_HadSignal := False, pt_DNSBLDynamic := False, pt_DNSBLHits := []\<rparr>
      = no_partial\<lparr>pt_HadSignal := False, pt_DNSBLDynamic := False, pt_DNSBLHits := []\<rparr>"
    using dnsbl_loop_verdicts [OF l] by simp
  from arg_cong [OF this, of "pt_DNSBLListed_update (\<lambda>_. None)"] show ?thesis
    using assms l V4 by (auto simp: dnsbl_Lookup_def Let_def no_partial_def split: if_splits)
qed (use assms in \<open>auto simp: dnsbl_Lookup_def no_partial_def\<close>)

text \<open>
  for an IPv4 address the block-list provider reports exactly the zones that list it, in byte order; it
  has a signal when some zone gave a usable answer ("not found" is one), says listed or not exactly then,
  and fails exactly when some zone gave none: an error, an answer that is no IPv4 address, or a rate-limit
  code. Nothing else is reported, and any other address is left alone.
\<close>

theorem block_lists:
  assumes "dnsbl_Lookup W zones ip = (p, e)"
  shows "case unmap ip of V4 w \<Rightarrow>
       (let verdict = zone_verdict W (reverseIPv4 w) in
          pt_DNSBLHits p = sort (filter (\<lambda>z. verdict z = Some True) zones)
        \<and> pt_HadSignal p = list_ex (\<lambda>z. verdict z \<noteq> None) zones
        \<and> pt_DNSBLListed p = (if pt_HadSignal p then Some (pt_DNSBLHits p \<noteq> []) else None)
        \<and> (e = None) = list_all (\<lambda>z. verdict z \<noteq> None) zones
        \<and> p\<lparr>pt_HadSignal := False, pt_DNSBLDynamic := False, pt_DNSBLHits := [], pt_DNSBLListed := None\<rparr> = no_partial)
     | _ \<Rightarrow> p = no_partial \<and> e = None"
proof (cases "unmap ip")
  case (V4 w)
  obtain listed q errs where l: "dnsbl_loop W (reverseIPv4 w) zones False no_partial [] = (listed, q, errs)"
    by (cases "dnsbl_loop W (reverseIPv4 w) zones False no_partial []")
  define v where "v = zone_verdict W (reverseIPv4 w)"
  note q = dnsbl_loop_verdicts [OF l, folded v_def, simplified]
  have frame: "q\<lparr>pt_HadSignal := False, pt_DNSBLDynamic := False, pt_DNSBLHits := []\<rparr>
      = no_partial\<lparr>pt_HadSignal := False, pt_DNSBLDynamic := False, pt_DNSBLHits := []\<rparr>"
    using q by blast
  have r: "p = (if pt_HadSignal q then q\<lparr>pt_DNSBLListed := Some listed\<rparr> else q)\<lparr>pt_DNSBLHits := sort (pt_DNSBLHits q)\<rparr>"
    "e = errors_join errs"
    using assms l V4 by (simp_all add: dnsbl_Lookup_def Let_def split: if_splits)
  have hits: "pt_DNSBLHits q = filter (\<lambda>z. v z = Some True) zones" using q by (simp add: no_partial_def)
  have had: "pt_HadSignal q = list_ex (\<lambda>z. v z \<noteq> None) zones" using q by (simp add: no_partial_def)
  have listed: "listed \<longleftrightarrow> pt_DNSBLHits q \<noteq> []" using q by (simp add: hits filter_empty_conv list_ex_iff)
  have none: "pt_DNSBLListed q = None" using arg_cong [OF frame, of pt_DNSBLListed] by (simp add: no_partial_def)
  have "pt_DNSBLHits p = sort (filter (\<lambda>z. v z = Some True) zones)" "pt_HadSignal p = list_ex (\<lambda>z. v z \<noteq> None) zones"
    "pt_DNSBLListed p = (if pt_HadSignal p then Some (pt_DNSBLHits p \<noteq> []) else None)"
    using hits had none listed by (simp_all add: r(1) sort_Nil_iff)
  moreover have "(e = None) = list_all (\<lambda>z. v z \<noteq> None) zones" using q by (simp add: r(2))
  ultimately show ?thesis using dnsbl_frame [OF assms] by (simp add: V4 v_def Let_def)
qed (use assms in \<open>simp_all add: dnsbl_Lookup_def\<close>)

definition demo_web :: web where
  "demo_web = \<lparr>wb_do = (\<lambda>_ _. BadRequest), wb_resolve = (\<lambda>host. if host = ''7.2.0.192.bl'' then DnsAnswers [''127.0.0.2''] else DnsNotFound),
     wb_quote = id, wb_quote_ascii = id, wb_ipapi = (\<lambda>_. Inl CtxCanceled), wb_envelope = (\<lambda>_. Inl CtxCanceled),
     wb_string = Inr, wb_entry = (\<lambda>_. Inl CtxCanceled), wb_classification = Inr, wb_sfs = (\<lambda>_. Inl CtxCanceled)\<rparr>"

lemma demo_verdicts: "reverseIPv4 0xC0000207 = ''7.2.0.192''"
  "zone_verdict demo_web ''7.2.0.192'' ''bl'' = Some True" "zone_verdict demo_web ''7.2.0.192'' ''aa'' = Some False"
  by (simp_all add: reverseIPv4_def v4_octet_def nat_str.simps digit_char_def char_of_def bit_0 take_bit_eq_mod drop_bit_eq_div
      zone_verdict_def demo_web_def parse_addr_defs)

theorem block_lists_witness:
  "pt_DNSBLHits (fst (dnsbl_Lookup demo_web [''bl'', ''aa''] (V4 0xC0000207))) = [''bl'']
   \<and> pt_DNSBLListed (fst (dnsbl_Lookup demo_web [''bl'', ''aa''] (V4 0xC0000207))) = Some True"
  using block_lists [of demo_web "[''bl'', ''aa'']" "V4 0xC0000207", OF prod.collapse [symmetric]]
  by (simp add: Let_def demo_verdicts ex_bool_eq)

end
