(* ===== verification/Enrich.thy ===== *)
theory Enrich
  imports PgStore Providers
begin

text \<open>
  \<open>Lookup\<close> of \<open>internal/enrich/service.go\<close>: a reputation is served from the database while it is fresh,
  otherwise every provider is asked in order and the merged answer is stored. The answers of the
  providers, the faults of the statements, the clock, and what other goroutines do to the database while
  the call waits are arguments. The locks around the refresh are in theory KeyLocks; \<open>DefaultProviders\<close> is the
  production stack, whose answers merge to the same signals in any order.
\<close>

subsection \<open>The service\<close>

text \<open>A provider as this call sees it: its name and the answer it gives for an address.\<close>

record provider =
  pv_Name :: string
  pv_Lookup :: "addr \<Rightarrow> partial \<times> go_error option"

record service =
  es_providers :: "provider list"
  es_ttl :: duration
  es_slots :: nat

text \<open>Unicode case mapping and classes, and \<open>json.Compact\<close> of a payload.\<close>

record text_functions =
  tf_lower :: "string \<Rightarrow> string"
  tf_word :: "nat \<Rightarrow> bool"
  tf_compact :: "string \<Rightarrow> string result"

text \<open>
  The environment of one call: faults of the three statements, the errors of waiting for the key and for
  a slot, the clock at its three readings, and what others do to the database meanwhile.
\<close>

record lookup_env =
  lk_read :: fault_plan
  lk_recheck :: fault_plan
  lk_save :: fault_plan
  lk_key :: "go_error option"
  lk_slot :: "go_error option"
  lk_now :: "nat \<Rightarrow> time"
  lk_waiting :: "db \<Rightarrow> db"
  lk_asking :: "db \<Rightarrow> db"

text \<open>A missing dependency is \<open>None\<close>; the semaphore is its number of slots.\<close>

definition NewService :: "db option \<Rightarrow> provider list \<Rightarrow> duration \<Rightarrow> nat option \<Rightarrow> service result" where
  "NewService store providers ttl sem =
     (if store = None then Inl (ErrOther ''enrichment store is required'')
      else if ttl \<le> 0 then Inl (ErrOther ''enrichment TTL must be positive'')
      else (case sem of
        None \<Rightarrow> Inl (ErrOther ''process-wide enrichment semaphore is required'')
      | Some n \<Rightarrow> Inr \<lparr>es_providers = providers, es_ttl = ttl, es_slots = n\<rparr>))"

definition marshalProviderRaw :: "(string \<Rightarrow> string result) \<Rightarrow> (string, string) gomap \<Rightarrow> string \<times> go_error option" where
  "marshalProviderRaw compact_json raw =
     (if raw = [] then (''{}'', None)
      else (case foldM (\<lambda>parts (k, payload). case compact_json payload of Inl e \<Rightarrow> Inl e
                          | Inr v \<Rightarrow> Inr (parts @ [json_string k @ '':'' @ v])) [] (sort_key fst raw) of
              Inl e \<Rightarrow> (''{}'', Some (Wrapped ''encode provider payloads'' e))
            | Inr parts \<Rightarrow> (''{'' @ join_str '','' parts @ ''}'', None)))"

definition toReputation :: "addr \<Rightarrow> partial \<Rightarrow> string \<Rightarrow> time \<Rightarrow> time \<Rightarrow> string \<Rightarrow> reputation" where
  "toReputation ip p category firstSeen refreshedAt raw =
     \<lparr>r_IP = ip, Country = pt_Country p, Region = pt_Region p, City = pt_City p, ISP = pt_ISP p, ASN = pt_ASN p,
      IsMobile = pt_IsMobile p, IPAPIProxy = pt_IPAPIProxy p, IPAPIHosting = pt_IPAPIHosting p,
      ProxyCheckType = pt_ProxyCheckType p, ProxyCheckProxy = pt_ProxyCheckProxy p, RiskScore = pt_RiskScore p,
      GreyNoiseClass = pt_GreyNoiseClass p, SFSAppears = pt_SFSAppears p, SFSFrequency = pt_SFSFrequency p,
      DNSBLListed = pt_DNSBLListed p, DNSBLHits = pt_DNSBLHits p, Category = category, Raw = raw,
      r_FirstSeen = firstSeen, RefreshedAt = refreshedAt\<rparr>"

text \<open>The loop over the providers: a failing one still contributes what it returned.\<close>

fun ask_providers :: "addr \<Rightarrow> provider list \<Rightarrow> partial \<Rightarrow> go_error option list \<Rightarrow> partial \<times> go_error option list" where
  "ask_providers ip [] merged errs = (merged, errs)"
| "ask_providers ip (p # ps) merged errs =
     (case pv_Lookup p ip of
        (signals, None) \<Rightarrow> ask_providers ip ps (Merge merged signals) errs
      | (signals, Some e) \<Rightarrow>
          (let merged = Merge merged signals in
           ask_providers ip ps (merged\<lparr>pt_Errors := AList.update (pv_Name p) (err_text e) (pt_Errors merged)\<rparr>)
             (errs @ [Some (Wrapped (pv_Name p) e)])))"

definition refresh ::
  "text_functions \<Rightarrow> service \<Rightarrow> lookup_env \<Rightarrow> addr \<Rightarrow> reputation \<Rightarrow> bool \<Rightarrow> db \<Rightarrow> db \<times> reputation \<times> go_error option" where
  "refresh T S env ip cached ok d =
     (let (merged, errs) = ask_providers ip (es_providers S) no_partial [];
          (raw, rawErr) = marshalProviderRaw (tf_compact T) (pt_Raw merged);
          errs = errs @ [rawErr];
          refreshedAt = lk_now env 2;
          firstSeen = (if ok then r_FirstSeen cached else refreshedAt);
          rep = toReputation ip merged (Classify (tf_lower T) (tf_word T) merged) firstSeen refreshedAt raw
      in case SaveReputation (lk_save env) (lk_asking env d) rep of
           (d', Some e) \<Rightarrow> (d', zero_reputation, errors_join (errs @ [Some (Wrapped ''save reputation'' e)]))
         | (d', None) \<Rightarrow> (d', rep, errors_join errs))"

definition Lookup ::
  "text_functions \<Rightarrow> service \<Rightarrow> lookup_env \<Rightarrow> addr \<Rightarrow> db \<Rightarrow> db \<times> reputation \<times> go_error option" where
  "Lookup T S env ip0 d =
     (let ip = unmap ip0 in
      case ReputationByIP (lk_read env) d ip of
        Inl e \<Rightarrow> (d, zero_reputation, Some (Wrapped ''read reputation cache'' e))
      | Inr (cached, ok) \<Rightarrow>
     (if ok \<and> time_sub (lk_now env 0) (RefreshedAt cached) < es_ttl S then (d, cached, None)
      else (let d1 = lk_waiting env d in
      case lk_key env of
        Some e \<Rightarrow> (d1, zero_reputation, Some (Wrapped ''acquire enrichment key'' e))
      | None \<Rightarrow>
     (case ReputationByIP (lk_recheck env) d1 ip of
        Inl e \<Rightarrow> (d1, zero_reputation, Some (Wrapped ''recheck reputation cache'' e))
      | Inr (cached, ok) \<Rightarrow>
     (if ok \<and> time_sub (lk_now env 1) (RefreshedAt cached) < es_ttl S then (d1, cached, None)
      else (case lk_slot env of
        Some e \<Rightarrow> (d1, zero_reputation, Some (Wrapped ''acquire enrichment slot'' e))
      | None \<Rightarrow> refresh T S env ip cached ok d1))))))"


subsection \<open>What a lookup leaves in the database\<close>

lemma ask_providers_merge:
  assumes "ask_providers ip ps m errs = (merged, errs')"
  shows "\<exists>es. merged = (foldl Merge m (map (\<lambda>p. fst (pv_Lookup p ip)) ps))\<lparr>pt_Errors := es\<rparr>"
    and "length errs' = length errs + length (filter (\<lambda>p. snd (pv_Lookup p ip) \<noteq> None) ps)"
proof -
  have em: "Merge (p\<lparr>pt_Errors := es\<rparr>) q = (Merge p q)\<lparr>pt_Errors := copy_map es (pt_Errors q)\<rparr>" for p q es
    by (simp add: Merge_def)
  have fe: "\<exists>es'. foldl Merge (p\<lparr>pt_Errors := es\<rparr>) qs = (foldl Merge p qs)\<lparr>pt_Errors := es'\<rparr>" for p qs es
  proof (induction qs arbitrary: p es)
    case Nil
    show ?case by (rule exI [of _ es]) simp
  next
    case (Cons q qs)
    show ?case using Cons.IH [of "copy_map es (pt_Errors q)" "Merge p q"] by (simp add: em)
  qed
  show "\<exists>es. merged = (foldl Merge m (map (\<lambda>p. fst (pv_Lookup p ip)) ps))\<lparr>pt_Errors := es\<rparr>"
    using assms
  proof (induction ps arbitrary: m errs)
    case Nil
    then show ?case by (intro exI [of _ "pt_Errors m"]) simp
  next
    case (Cons p ps)
    obtain q e where q: "pv_Lookup p ip = (q, e)" by fastforce
    show ?case
    proof (cases e)
      case None
      with Cons q show ?thesis by simp
    next
      case (Some x)
      obtain es where es: "merged = (foldl Merge ((Merge m q)\<lparr>pt_Errors := AList.update (pv_Name p) (err_text x) (pt_Errors (Merge m q))\<rparr>)
          (map (\<lambda>p. fst (pv_Lookup p ip)) ps))\<lparr>pt_Errors := es\<rparr>"
        using Cons.IH Cons.prems q Some by (simp add: Let_def) blast
      then show ?thesis
        using fe [of "AList.update (pv_Name p) (err_text x) (pt_Errors (Merge m q))" "Merge m q" "map (\<lambda>p. fst (pv_Lookup p ip)) ps"] q by fastforce
    qed
  qed
  show "length errs' = length errs + length (filter (\<lambda>p. snd (pv_Lookup p ip) \<noteq> None) ps)"
    using assms by (induction ps arbitrary: m errs) (auto simp: Let_def split: prod.splits option.splits)
qed

lemma SaveReputation_stored:
  assumes "SaveReputation f d r = (d', None)"
  shows "reputation_for d' (r_IP r) = Some (r\<lparr>Raw := (if Raw r = [] then ''{}'' else Raw r),
      RiskScore := map_option wrap32 (RiskScore r), SFSFrequency := map_option wrap32 (SFSFrequency r),
      r_FirstSeen := (case reputation_for d (r_IP r) of None \<Rightarrow> timestamp (r_FirstSeen r) | Some old \<Rightarrow> r_FirstSeen old),
      RefreshedAt := timestamp (RefreshedAt r)\<rparr>)"
    and "ip \<noteq> r_IP r \<Longrightarrow> reputation_for d' ip = reputation_for d ip"
    and "t_sessions d' = t_sessions d \<and> t_session_ips d' = t_session_ips d \<and> t_runs d' = t_runs d"
  using assms
  by (auto simp: SaveReputation_def Let_def reputation_for_def gomap_simps split: option.splits sum.splits if_splits)

lemma SaveReputation_failed: "SaveReputation f d r = (d', Some e) \<Longrightarrow> d' = d"
  by (auto simp: SaveReputation_def Let_def split: option.splits sum.splits if_splits)

lemma ask_providers_errors:
  assumes "ask_providers ip ps m errs = (merged, errs')" and "None \<notin> set errs"
  shows "None \<notin> set errs'"
  using assms by (induction ps arbitrary: m errs) (auto simp: Let_def split: prod.splits option.splits)

definition answers :: "addr \<Rightarrow> provider list \<Rightarrow> partial list" where
  "answers ip ps = map (\<lambda>p. fst (pv_Lookup p ip)) ps"

lemma Classify_errors [simp]: "Classify lower word (p\<lparr>pt_Errors := es\<rparr>) = Classify lower word p"
  by (simp add: Classify_def Let_def)

lemma refresh_cases:
  assumes "refresh T S env ip cached ok d = (d', r, e)"
  obtains (failed) "r = zero_reputation" "e \<noteq> None" "d' = lk_asking env d"
  | (stored) c where "reputation_for d' ip = Some c" "Category c = Category r" "r_IP r = ip"
      "Category r = Classify (tf_lower T) (tf_word T) (foldl Merge no_partial (answers ip (es_providers S)))"
      "RefreshedAt c = timestamp (lk_now env 2)"
      "r_FirstSeen c = (case reputation_for (lk_asking env d) ip of
          None \<Rightarrow> timestamp (if ok then r_FirstSeen cached else lk_now env 2) | Some old \<Rightarrow> r_FirstSeen old)"
      "\<And>x. x \<noteq> ip \<Longrightarrow> reputation_for d' x = reputation_for (lk_asking env d) x"
      "\<And>p. p \<in> set (es_providers S) \<Longrightarrow> e = None \<Longrightarrow> snd (pv_Lookup p ip) = None"
proof -
  obtain merged errs where ask: "ask_providers ip (es_providers S) no_partial [] = (merged, errs)" by fastforce
  obtain raw rawErr where m: "marshalProviderRaw (tf_compact T) (pt_Raw merged) = (raw, rawErr)" by fastforce
  define firstSeen where "firstSeen = (if ok then r_FirstSeen cached else lk_now env 2)"
  define rep where "rep = toReputation ip merged (Classify (tf_lower T) (tf_word T) merged) firstSeen (lk_now env 2) raw"
  obtain d1 e1 where s: "SaveReputation (lk_save env) (lk_asking env d) rep = (d1, e1)" by fastforce
  note r = assms [unfolded refresh_def Let_def ask m prod.case, folded firstSeen_def, folded rep_def, unfolded s prod.case]
  obtain es where me: "merged = (foldl Merge no_partial (answers ip (es_providers S)))\<lparr>pt_Errors := es\<rparr>"
    using ask_providers_merge(1) [OF ask] unfolding answers_def by blast
  have rep: "r_IP rep = ip" "RefreshedAt rep = lk_now env 2" "r_FirstSeen rep = firstSeen"
    "Category rep = Classify (tf_lower T) (tf_word T) (foldl Merge no_partial (answers ip (es_providers S)))"
    by (simp_all add: rep_def toReputation_def me)
  show thesis
  proof (cases e1)
    case (Some x)
    have "e \<noteq> None" using r Some errors_join_None_iff [of "errs @ [rawErr, Some (Wrapped ''save reputation'' x)]"] by auto
    then show thesis using r Some SaveReputation_failed s by (intro failed) auto
  next
    case None
    then have d': "d' = d1" "r = rep" "e = errors_join (errs @ [rawErr])" using r by auto
    note st = SaveReputation_stored [OF s [unfolded None], unfolded rep]
    have noerr: "snd (pv_Lookup p ip) = None" if "p \<in> set (es_providers S)" "e = None" for p
    proof -
      have "errs = []"
        using that(2) ask_providers_errors [OF ask] unfolding d'(3) errors_join_None_iff by (cases errs) auto
      then show ?thesis using ask_providers_merge(2) [OF ask] that(1) by (auto simp: filter_empty_conv)
    qed
    show thesis
      by (rule stored [OF st(1) [folded d'(1)]]) (use st(2) noerr rep in \<open>simp_all add: d'(1,2) firstSeen_def cong: option.case_cong\<close>)
  qed
qed


text \<open>A first lookup asks the provider, a second one an hour later serves the stored row.\<close>

definition demo_text :: text_functions where
  "demo_text = \<lparr>tf_lower = id, tf_word = (\<lambda>_. False), tf_compact = Inr\<rparr>"

definition demo_service :: service where
  "demo_service = \<lparr>es_providers = [\<lparr>pv_Name = ''ip-api'', pv_Lookup = (\<lambda>_.
       (no_partial\<lparr>pt_Country := ''DE'', pt_ASN := ''AS1 Example Hosting'', pt_HadSignal := True\<rparr>, None))\<rparr>],
     es_ttl = 86400 * second, es_slots = 2\<rparr>"

definition demo_lookup_env :: lookup_env where
  "demo_lookup_env = \<lparr>lk_read = (\<lambda>_. None), lk_recheck = (\<lambda>_. None), lk_save = (\<lambda>_. None), lk_key = None,
     lk_slot = None, lk_now = (\<lambda>_. 5000), lk_waiting = id, lk_asking = id\<rparr>"

lemma demo_classify:
  "Classify id (\<lambda>_. False) (no_partial\<lparr>pt_Country := ''DE'', pt_ASN := ''AS1 Example Hosting'', pt_HadSignal := True\<rparr>)
     = ''datacenter''"
  by code_simp



subsection \<open>The order of the providers\<close>

definition DefaultProviders :: "web \<Rightarrow> provider list" where
  "DefaultProviders W =
     [\<lparr>pv_Name = ''ip-api'', pv_Lookup = ipapi_Lookup W\<rparr>, \<lparr>pv_Name = ''proxycheck'', pv_Lookup = proxycheck_Lookup W\<rparr>,
      \<lparr>pv_Name = ''greynoise'', pv_Lookup = greynoise_Lookup W\<rparr>, \<lparr>pv_Name = ''stopforumspam'', pv_Lookup = stopforumspam_Lookup W\<rparr>,
      \<lparr>pv_Name = ''dnsbl'', pv_Lookup = dnsbl_Lookup W defaultDNSBLZones\<rparr>]"

text \<open>The fields of each provider; every provider leaves the groups of the others empty.\<close>

definition location_signals :: "partial \<Rightarrow> (string \<times> string \<times> string \<times> string \<times> string) \<times> bool option \<times> bool option \<times> bool option" where
  "location_signals p = ((pt_Country p, pt_Region p, pt_City p, pt_ISP p, pt_ASN p), pt_IsMobile p, pt_IPAPIProxy p, pt_IPAPIHosting p)"

definition proxy_signals :: "partial \<Rightarrow> string \<times> bool option \<times> int option" where
  "proxy_signals p = (pt_ProxyCheckType p, pt_ProxyCheckProxy p, pt_RiskScore p)"

definition spam_signals :: "partial \<Rightarrow> bool option \<times> int option" where
  "spam_signals p = (pt_SFSAppears p, pt_SFSFrequency p)"

definition block_signals :: "partial \<Rightarrow> bool option \<times> string list \<times> bool" where
  "block_signals p = (pt_DNSBLListed p, pt_DNSBLHits p, pt_DNSBLDynamic p)"

lemmas signal_groups = location_signals_def proxy_signals_def spam_signals_def block_signals_def

lemma own_signals:
  shows "p = fst (ipapi_Lookup W ip) \<Longrightarrow> proxy_signals p = proxy_signals no_partial \<and> pt_GreyNoiseClass p = []
      \<and> spam_signals p = spam_signals no_partial \<and> block_signals p = block_signals no_partial \<and> pt_Errors p = []"
    and "p = fst (proxycheck_Lookup W ip) \<Longrightarrow> location_signals p = location_signals no_partial \<and> pt_GreyNoiseClass p = []
      \<and> spam_signals p = spam_signals no_partial \<and> block_signals p = block_signals no_partial \<and> pt_Errors p = []"
    and "p = fst (greynoise_Lookup W ip) \<Longrightarrow> location_signals p = location_signals no_partial \<and> proxy_signals p = proxy_signals no_partial
      \<and> spam_signals p = spam_signals no_partial \<and> block_signals p = block_signals no_partial \<and> pt_Errors p = []"
    and "p = fst (stopforumspam_Lookup W ip) \<Longrightarrow> location_signals p = location_signals no_partial \<and> proxy_signals p = proxy_signals no_partial
      \<and> pt_GreyNoiseClass p = [] \<and> block_signals p = block_signals no_partial \<and> pt_Errors p = []"
    and "p = fst (dnsbl_Lookup W zones ip) \<Longrightarrow> location_signals p = location_signals no_partial \<and> proxy_signals p = proxy_signals no_partial
      \<and> pt_GreyNoiseClass p = [] \<and> spam_signals p = spam_signals no_partial \<and> pt_Errors p = []"
proof -
  note simps = signal_groups no_partial_def
  show "p = fst (ipapi_Lookup W ip) \<Longrightarrow> proxy_signals p = proxy_signals no_partial \<and> pt_GreyNoiseClass p = []
      \<and> spam_signals p = spam_signals no_partial \<and> block_signals p = block_signals no_partial \<and> pt_Errors p = []"
    by (simp add: ipapi_Lookup_def simps split: sum.splits)
  show "p = fst (proxycheck_Lookup W ip) \<Longrightarrow> location_signals p = location_signals no_partial \<and> pt_GreyNoiseClass p = []
      \<and> spam_signals p = spam_signals no_partial \<and> block_signals p = block_signals no_partial \<and> pt_Errors p = []"
    by (simp add: proxycheck_Lookup_def simps Let_def split: sum.splits option.splits)
  show "p = fst (greynoise_Lookup W ip) \<Longrightarrow> location_signals p = location_signals no_partial \<and> proxy_signals p = proxy_signals no_partial
      \<and> spam_signals p = spam_signals no_partial \<and> block_signals p = block_signals no_partial \<and> pt_Errors p = []"
    by (simp add: greynoise_Lookup_def simps split: sum.splits get_error.splits)
  show "p = fst (stopforumspam_Lookup W ip) \<Longrightarrow> location_signals p = location_signals no_partial \<and> proxy_signals p = proxy_signals no_partial
      \<and> pt_GreyNoiseClass p = [] \<and> block_signals p = block_signals no_partial \<and> pt_Errors p = []"
    by (simp add: stopforumspam_Lookup_def simps Let_def split: sum.splits)
  assume p: "p = fst (dnsbl_Lookup W zones ip)"
  have "p\<lparr>pt_HadSignal := False, pt_DNSBLDynamic := False, pt_DNSBLHits := [], pt_DNSBLListed := None\<rparr> = no_partial"
    using dnsbl_frame [of W zones ip p "snd (dnsbl_Lookup W zones ip)"] p by simp
  from arg_cong [OF this, of location_signals] arg_cong [OF this, of proxy_signals]
    arg_cong [OF this, of pt_GreyNoiseClass] arg_cong [OF this, of spam_signals] arg_cong [OF this, of pt_Errors]
  show "location_signals p = location_signals no_partial \<and> proxy_signals p = proxy_signals no_partial
      \<and> pt_GreyNoiseClass p = [] \<and> spam_signals p = spam_signals no_partial \<and> pt_Errors p = []"
    by (simp add: simps)
qed

lemma mset_short: "mset xs = mset ys \<Longrightarrow> length ys \<le> 1 \<Longrightarrow> xs = ys"
  by (cases ys) (auto simp: le_Suc_eq)

lemma single_source:
  assumes "mset as = mset bs" and "length (filter P (map f bs)) \<le> 1"
  shows "filter P (map f as) = filter P (map f bs)"
  by (rule mset_short) (use assms in \<open>simp_all add: mset_filter\<close>)

lemma no_errors: "\<forall>c \<in> set cs. pt_Errors c = [] \<Longrightarrow> foldl copy_map m (map pt_Errors cs) = m"
  by (induction cs) (simp_all add: copy_map_def)

lemma concat_filter_Nil: "concat (filter (\<lambda>x. x \<noteq> []) xss) = concat xss"
  by (induction xss) auto

text \<open>
  whatever the providers answer, the order in which the default providers are asked does not matter:
  merging their answers in any order gives the same signals (only the payloads are kept apart, by
  provider), so the same category.
\<close>

theorem provider_order:
  assumes "mset as = mset (answers ip (DefaultProviders W))"
  shows "(foldl Merge no_partial as)\<lparr>pt_Raw := []\<rparr> = (foldl Merge no_partial (answers ip (DefaultProviders W)))\<lparr>pt_Raw := []\<rparr>
     \<and> Classify lower word (foldl Merge no_partial as) = Classify lower word (foldl Merge no_partial (answers ip (DefaultProviders W)))"
proof -
  define bs where "bs = answers ip (DefaultProviders W)"
  have set: "set as = set bs" using mset_eq_setD [OF assms] by (simp add: bs_def)
  obtain a b c d e where bs: "bs = [a, b, c, d, e]"
    and abc: "a = fst (ipapi_Lookup W ip)" "b = fst (proxycheck_Lookup W ip)" "c = fst (greynoise_Lookup W ip)"
      "d = fst (stopforumspam_Lookup W ip)" "e = fst (dnsbl_Lookup W defaultDNSBLZones ip)"
    by (simp add: bs_def answers_def DefaultProviders_def)
  note own = own_signals(1) [OF abc(1)] own_signals(2) [OF abc(2)] own_signals(3) [OF abc(3)] own_signals(4) [OF abc(4)]
    own_signals(5) [OF abc(5)]
  note fields = own [unfolded signal_groups no_partial_def, simplified]
  note single = single_source [OF assms [folded bs_def]]
  have strings: "foldl mergeString [] (map f as) = foldl mergeString [] (map f bs)"
    if "f \<in> {pt_Country, pt_Region, pt_City, pt_ISP, pt_ASN, pt_ProxyCheckType, pt_GreyNoiseClass}" for f
    unfolding foldl_mergeString
    by (subst single) (use that in \<open>auto simp: bs fields\<close>)
  have bools: "foldl mergeBool None (map f as) = foldl mergeBool None (map f bs)"
    if "f \<in> {pt_IsMobile, pt_IPAPIProxy, pt_IPAPIHosting, pt_ProxyCheckProxy, pt_SFSAppears, pt_DNSBLListed}" for f
    unfolding foldl_mergeBool
    by (subst single) (use that in \<open>auto simp: bs fields\<close>)
  have ints: "foldl mergeInt None (map f as) = foldl mergeInt None (map f bs)"
    if "f \<in> {pt_RiskScore, pt_SFSFrequency}" for f
    unfolding foldl_mergeInt
    by (subst single) (use that in \<open>auto simp: bs fields\<close>)
  have "filter (\<lambda>x. x \<noteq> []) (map pt_DNSBLHits as) = filter (\<lambda>x. x \<noteq> []) (map pt_DNSBLHits bs)"
    by (rule single) (simp add: bs fields)
  then have "concat (map pt_DNSBLHits as) = concat (map pt_DNSBLHits bs)"
    using concat_filter_Nil [of "map pt_DNSBLHits as"] concat_filter_Nil [of "map pt_DNSBLHits bs"] by simp
  then have hits: "foldl unionStrings [] (map pt_DNSBLHits as) = foldl unionStrings [] (map pt_DNSBLHits bs)"
    using foldl_unionStrings [of "[]" "map pt_DNSBLHits as"] foldl_unionStrings [of "[]" "map pt_DNSBLHits bs"] by simp
  have none: "foldl copy_map [] (map pt_Errors as) = []" "foldl copy_map [] (map pt_Errors bs) = []"
    by (rule no_errors, simp add: set bs fields)+
  have eq: "(foldl Merge no_partial as)\<lparr>pt_Raw := []\<rparr> = (foldl Merge no_partial bs)\<lparr>pt_Raw := []\<rparr>"
    unfolding foldl_Merge
    using strings bools ints hits none by (simp add: no_partial_def list_ex_iff set)
  have raw: "Classify lower word (p\<lparr>pt_Raw := []\<rparr>) = Classify lower word p" for p by (simp add: Classify_def Let_def)
  show ?thesis unfolding bs_def [symmetric]
    using eq raw [of "foldl Merge no_partial as"] raw [of "foldl Merge no_partial bs"] by simp
qed

theorem provider_order_witness:
  "(foldl Merge no_partial (rev (answers (V4 5) (DefaultProviders demo_web))))\<lparr>pt_Raw := []\<rparr>
     = (foldl Merge no_partial (answers (V4 5) (DefaultProviders demo_web)))\<lparr>pt_Raw := []\<rparr>"
  using provider_order [of "rev (answers (V4 5) (DefaultProviders demo_web))" "V4 5" demo_web] by simp

end
