(* ===== verification/KeyLocks.thy ===== *)
theory KeyLocks
  imports GoNet Schedules
begin

text \<open>
  The locks of \<open>internal/enrich/service.go\<close>: \<open>acquireKey\<close>, \<open>releaseKeyReference\<close> and the process-wide
  semaphore around the refresh of \<open>Lookup\<close>. Any number of lookups run concurrently; each is a caller with
  the (unmapped) address it refreshes. A key object is numbered by its creation; its channel of capacity one
  holds the token or is empty. A step is one critical section of \<open>keyMu\<close>, one operation on a channel or one
  operation on the semaphore.
\<close>

subsection \<open>State\<close>

record enrichment_key =
  ky_token :: bool
  ky_refs :: int

datatype caller_phase =
    Arriving | Waiting nat | Keyed nat | Slotted nat | Unslotted nat | Unlocked nat | Left

record caller =
  cl_ip :: addr
  cl_phase :: caller_phase

record key_state =
  ks_keys :: "addr \<Rightarrow> nat option"
  ks_objs :: "nat \<Rightarrow> enrichment_key"
  ks_next :: nat
  ks_free :: nat
  ks_callers :: "caller list"

definition start_keys :: "nat \<Rightarrow> addr list \<Rightarrow> key_state" where
  "start_keys slots ips =
     \<lparr>ks_keys = (\<lambda>_. None), ks_objs = (\<lambda>_. \<lparr>ky_token = False, ky_refs = 0\<rparr>), ks_next = 0, ks_free = slots,
      ks_callers = map (\<lambda>ip. \<lparr>cl_ip = unmap ip, cl_phase = Arriving\<rparr>) ips\<rparr>"

text \<open>The first critical section of \<open>acquireKey\<close>: find or create the key, and count the reference.\<close>

definition enterKey :: "addr \<Rightarrow> key_state \<Rightarrow> nat \<times> key_state" where
  "enterKey ip s =
     (let (k, s1) = (case ks_keys s ip of
                       Some k \<Rightarrow> (k, s)
                     | None \<Rightarrow> (ks_next s, s\<lparr>ks_keys := (ks_keys s)(ip := Some (ks_next s)),
                                 ks_objs := (ks_objs s)(ks_next s := \<lparr>ky_token = True, ky_refs = 0\<rparr>),
                                 ks_next := ks_next s + 1\<rparr>))
      in (k, s1\<lparr>ks_objs := (ks_objs s1)(k := (ks_objs s1 k)\<lparr>ky_refs := ky_refs (ks_objs s1 k) + 1\<rparr>)\<rparr>))"

definition releaseKeyReference :: "addr \<Rightarrow> nat \<Rightarrow> key_state \<Rightarrow> key_state" where
  "releaseKeyReference ip k s =
     (let refs = ky_refs (ks_objs s k) - 1;
          s1 = s\<lparr>ks_objs := (ks_objs s)(k := (ks_objs s k)\<lparr>ky_refs := refs\<rparr>)\<rparr>
      in if refs = 0 \<and> ks_keys s ip = Some k then s1\<lparr>ks_keys := (ks_keys s)(ip := None)\<rparr> else s1)"

definition set_token :: "nat \<Rightarrow> bool \<Rightarrow> key_state \<Rightarrow> key_state" where
  "set_token k b s = s\<lparr>ks_objs := (ks_objs s)(k := (ks_objs s k)\<lparr>ky_token := b\<rparr>)\<rparr>"

definition move :: "nat \<Rightarrow> addr \<Rightarrow> caller_phase \<Rightarrow> key_state \<Rightarrow> key_state" where
  "move i ip phase s = s\<lparr>ks_callers := (ks_callers s)[i := \<lparr>cl_ip = ip, cl_phase = phase\<rparr>]\<rparr>"

text \<open>
  \<open>take\<close> receives the token, \<open>give_up\<close> is the branch of an ended context. A caller that owns the key either
  gets a slot and asks the providers, or leaves without one: the recheck found a fresh row or failed, or
  its context ended while it waited for the slot. The deferred calls return the slot, the token and the
  reference, in this order; sending the token needs room in the channel.
\<close>

inductive key_step :: "bool \<Rightarrow> key_state \<Rightarrow> key_state \<Rightarrow> bool" where
  enter: "i < length (ks_callers s) \<Longrightarrow> ks_callers s ! i = \<lparr>cl_ip = ip, cl_phase = Arriving\<rparr> \<Longrightarrow>
      enterKey ip s = (k, s') \<Longrightarrow> key_step c s (move i ip (Waiting k) s')"
| take: "i < length (ks_callers s) \<Longrightarrow> ks_callers s ! i = \<lparr>cl_ip = ip, cl_phase = Waiting k\<rparr> \<Longrightarrow>
      ky_token (ks_objs s k) \<Longrightarrow> key_step c s (move i ip (Keyed k) (set_token k False s))"
| give_up: "i < length (ks_callers s) \<Longrightarrow> ks_callers s ! i = \<lparr>cl_ip = ip, cl_phase = Waiting k\<rparr> \<Longrightarrow>
      key_step True s (move i ip Left (releaseKeyReference ip k s))"
| slot: "i < length (ks_callers s) \<Longrightarrow> ks_callers s ! i = \<lparr>cl_ip = ip, cl_phase = Keyed k\<rparr> \<Longrightarrow>
      0 < ks_free s \<Longrightarrow> key_step c s (move i ip (Slotted k) (s\<lparr>ks_free := ks_free s - 1\<rparr>))"
| no_slot: "i < length (ks_callers s) \<Longrightarrow> ks_callers s ! i = \<lparr>cl_ip = ip, cl_phase = Keyed k\<rparr> \<Longrightarrow>
      key_step True s (move i ip (Unslotted k) s)"
| return_slot: "i < length (ks_callers s) \<Longrightarrow> ks_callers s ! i = \<lparr>cl_ip = ip, cl_phase = Slotted k\<rparr> \<Longrightarrow>
      key_step c s (move i ip (Unslotted k) (s\<lparr>ks_free := ks_free s + 1\<rparr>))"
| return_token: "i < length (ks_callers s) \<Longrightarrow> ks_callers s ! i = \<lparr>cl_ip = ip, cl_phase = Unslotted k\<rparr> \<Longrightarrow>
      \<not> ky_token (ks_objs s k) \<Longrightarrow> key_step c s (move i ip (Unlocked k) (set_token k True s))"
| return_reference: "i < length (ks_callers s) \<Longrightarrow> ks_callers s ! i = \<lparr>cl_ip = ip, cl_phase = Unlocked k\<rparr> \<Longrightarrow>
      key_step c s (move i ip Left (releaseKeyReference ip k s))"

inductive_cases key_stepE: "key_step c s s'"


subsection \<open>Invariant\<close>

fun key_of :: "caller_phase \<Rightarrow> nat option" where
  "key_of Arriving = None"
| "key_of (Waiting k) = Some k"
| "key_of (Keyed k) = Some k"
| "key_of (Slotted k) = Some k"
| "key_of (Unslotted k) = Some k"
| "key_of (Unlocked k) = Some k"
| "key_of Left = None"

text \<open>The phases between taking the token and giving it back.\<close>

fun held_key :: "caller_phase \<Rightarrow> nat option" where
  "held_key (Keyed k) = Some k"
| "held_key (Slotted k) = Some k"
| "held_key (Unslotted k) = Some k"
| "held_key _ = None"

fun has_slot :: "caller_phase \<Rightarrow> bool" where
  "has_slot (Slotted k) = True"
| "has_slot _ = False"

definition references :: "nat \<Rightarrow> caller list \<Rightarrow> int" where
  "references k cs = int (length (filter (\<lambda>c. key_of (cl_phase c) = Some k) cs))"

definition holders :: "nat \<Rightarrow> caller list \<Rightarrow> int" where
  "holders k cs = int (length (filter (\<lambda>c. held_key (cl_phase c) = Some k) cs))"

definition slotted :: "caller list \<Rightarrow> int" where
  "slotted cs = int (length (filter (\<lambda>c. has_slot (cl_phase c)) cs))"

definition key_inv :: "nat \<Rightarrow> key_state \<Rightarrow> bool" where
  "key_inv slots s \<longleftrightarrow>
     (\<forall>c k. c \<in> set (ks_callers s) \<longrightarrow> key_of (cl_phase c) = Some k \<longrightarrow> ks_keys s (cl_ip c) = Some k)
   \<and> (\<forall>ip k. ks_keys s ip = Some k \<longrightarrow> k < ks_next s
        \<and> ky_refs (ks_objs s k) = references k (ks_callers s) \<and> 0 < references k (ks_callers s)
        \<and> holders k (ks_callers s) = (if ky_token (ks_objs s k) then 0 else 1))
   \<and> (\<forall>ip ip' k. ks_keys s ip = Some k \<longrightarrow> ks_keys s ip' = Some k \<longrightarrow> ip = ip')
   \<and> int (ks_free s) + slotted (ks_callers s) = int slots"

lemma key_inv_start: "key_inv slots (start_keys slots ips)"
  by (auto simp: key_inv_def start_keys_def slotted_def)

lemma counts_move:
  assumes "i < length cs" and "cs ! i = \<lparr>cl_ip = ip, cl_phase = a\<rparr>"
  shows "references k (cs[i := \<lparr>cl_ip = ip, cl_phase = b\<rparr>]) = references k cs
      - (if key_of a = Some k then 1 else 0) + (if key_of b = Some k then 1 else 0)"
    and "holders k (cs[i := \<lparr>cl_ip = ip, cl_phase = b\<rparr>]) = holders k cs
      - (if held_key a = Some k then 1 else 0) + (if held_key b = Some k then 1 else 0)"
    and "slotted (cs[i := \<lparr>cl_ip = ip, cl_phase = b\<rparr>]) = slotted cs
      - (if has_slot a then 1 else 0) + (if has_slot b then 1 else 0)"
  using replace_count [OF assms, of _ "\<lparr>cl_ip = ip, cl_phase = b\<rparr>"]
  by (simp_all add: references_def holders_def slotted_def)

lemma key_invD:
  assumes "key_inv slots s"
  shows "c \<in> set (ks_callers s) \<Longrightarrow> key_of (cl_phase c) = Some k \<Longrightarrow> ks_keys s (cl_ip c) = Some k"
    and "ks_keys s ip = Some k \<Longrightarrow> k < ks_next s"
    and "ks_keys s ip = Some k \<Longrightarrow> ky_refs (ks_objs s k) = references k (ks_callers s)"
    and "ks_keys s ip = Some k \<Longrightarrow> 0 < references k (ks_callers s)"
    and "ks_keys s ip = Some k \<Longrightarrow> holders k (ks_callers s) = (if ky_token (ks_objs s k) then 0 else 1)"
    and "ks_keys s ip = Some k \<Longrightarrow> ks_keys s ip' = Some k \<Longrightarrow> ip = ip'"
    and "int (ks_free s) + slotted (ks_callers s) = int slots"
  using assms unfolding key_inv_def by blast+

lemma set_update_phase: "c \<in> set (xs[i := y]) \<Longrightarrow> c = y \<or> c \<in> set xs"
  using set_update_subset_insert [of xs i y] by blast

text \<open>A caller that keeps its key: only the token of that key and the free slots may change.\<close>

lemma key_inv_keep:
  assumes inv: "key_inv slots s" and i: "i < length (ks_callers s)" "ks_callers s ! i = \<lparr>cl_ip = ip, cl_phase = a\<rparr>"
    and k: "key_of a = Some k" "key_of b = Some k"
    and same: "ks_keys s' = ks_keys s" "ks_next s' = ks_next s" "ks_callers s' = (ks_callers s)[i := \<lparr>cl_ip = ip, cl_phase = b\<rparr>]"
      "\<And>j. ky_refs (ks_objs s' j) = ky_refs (ks_objs s j)" "\<And>j. j \<noteq> k \<Longrightarrow> ky_token (ks_objs s' j) = ky_token (ks_objs s j)"
    and held: "held_key a \<in> {None, Some k}" "held_key b \<in> {None, Some k}"
      "(if ky_token (ks_objs s' k) then 0 else 1) = (if ky_token (ks_objs s k) then 0 else (1::int))
         - (if held_key a = None then 0 else 1) + (if held_key b = None then 0 else 1)"
    and free: "int (ks_free s') = int (ks_free s) + (if has_slot a then 1 else 0) - (if has_slot b then 1 else 0)"
  shows "key_inv slots s'"
proof -
  note D = key_invD [OF inv] and M = counts_move [OF i, where b = b]
  have own: "ks_keys s ip = Some k" using D(1) [of "\<lparr>cl_ip = ip, cl_phase = a\<rparr>"] i k(1) nth_mem [OF i(1)] by simp
  have refs: "references j (ks_callers s') = references j (ks_callers s)" for j
    unfolding same(3) M(1) using k by simp
  have hold: "holders j (ks_callers s') = (if ky_token (ks_objs s' j) then 0 else 1)" if "ks_keys s x = Some j" for x j
    using D(5) [OF that] held same(5) [of j] unfolding same(3) M(2) by (cases "j = k") auto
  have "int (ks_free s') + slotted (ks_callers s') = int slots"
    using D(7) free unfolding same(3) M(3) by simp
  moreover have "ks_keys s (cl_ip c) = Some j" if "c \<in> set (ks_callers s')" "key_of (cl_phase c) = Some j" for c j
    using set_update_phase [OF that(1) [unfolded same(3)]] that(2) own k(2) D(1) by auto
  ultimately show ?thesis
    unfolding key_inv_def same(1,2,4) refs using D(2,3,4) hold D(6) by blast
qed

text \<open>A caller that gives its reference back: the last one removes the key from the map.\<close>

lemma key_inv_release:
  assumes inv: "key_inv slots s" and i: "i < length (ks_callers s)" "ks_callers s ! i = \<lparr>cl_ip = ip, cl_phase = a\<rparr>"
    and a: "key_of a = Some k" "held_key a = None" "\<not> has_slot a"
  shows "key_inv slots (move i ip Left (releaseKeyReference ip k s))"
proof -
  note D = key_invD [OF inv] and M = counts_move [OF i, where b = Left]
  have own: "ks_keys s ip = Some k" using D(1) [of "\<lparr>cl_ip = ip, cl_phase = a\<rparr>"] i a(1) nth_mem [OF i(1)] by simp
  define s' where "s' = move i ip Left (releaseKeyReference ip k s)"
  let ?gone = "references k (ks_callers s) = 1"
  have s': "ks_callers s' = (ks_callers s)[i := \<lparr>cl_ip = ip, cl_phase = Left\<rparr>]" "ks_next s' = ks_next s" "ks_free s' = ks_free s"
    "ks_keys s' = (if ?gone then (ks_keys s)(ip := None) else ks_keys s)"
    "ks_objs s' = (ks_objs s)(k := (ks_objs s k)\<lparr>ky_refs := ky_refs (ks_objs s k) - 1\<rparr>)"
    using own D(3) [OF own] by (auto simp: s'_def move_def releaseKeyReference_def Let_def)
  have refs: "references j (ks_callers s') = references j (ks_callers s) - (if j = k then 1 else 0)"
    "holders j (ks_callers s') = holders j (ks_callers s)" "slotted (ks_callers s') = slotted (ks_callers s)" for j
    unfolding s'(1) M using a by auto
  have keys: "ks_keys s x = Some j" if "ks_keys s' x = Some j" for x j
    using that by (auto simp: s'(4) split: if_splits)
  have other: "j \<noteq> k" if "ks_keys s' x = Some j" ?gone for x j
    using that D(6) [of x k ip] own by (auto simp: s'(4) split: if_splits)
  have caller: "ks_keys s' (cl_ip c) = Some j" if c: "c \<in> set (ks_callers s')" "key_of (cl_phase c) = Some j" for c j
  proof -
    have m: "c \<in> set (ks_callers s)" using set_update_phase [OF c(1) [unfolded s'(1)]] c(2) by auto
    have "j \<noteq> k" if ?gone
    proof
      assume "j = k"
      then have "0 < references k (ks_callers s')"
        using c by (auto simp: references_def filter_empty_conv)
      with refs(1) [of k] that show False by simp
    qed
    then have "cl_ip c \<noteq> ip" if ?gone using that D(1) [OF m c(2)] own by auto
    then show ?thesis using D(1) [OF m c(2)] by (auto simp: s'(4))
  qed
  have more: "?gone \<or> 1 < references k (ks_callers s)" using D(4) [OF own] by linarith
  have "j < ks_next s \<and> ky_refs (ks_objs s' j) = references j (ks_callers s') \<and> 0 < references j (ks_callers s')
      \<and> holders j (ks_callers s') = (if ky_token (ks_objs s' j) then 0 else 1)" if "ks_keys s' x = Some j" for x j
    using more D(2-5) [OF keys [OF that]] D(2-5) [OF own] other [OF that] unfolding refs by (auto simp: s'(5))
  then show ?thesis
    unfolding s'_def [symmetric] key_inv_def using caller keys D(6) D(7) unfolding refs s'(2,3) by blast
qed

lemma key_inv_enter:
  assumes inv: "key_inv slots s" and i: "i < length (ks_callers s)" "ks_callers s ! i = \<lparr>cl_ip = ip, cl_phase = Arriving\<rparr>"
    and e: "enterKey ip s = (k, s1)"
  shows "key_inv slots (move i ip (Waiting k) s1)"
proof -
  note D = key_invD [OF inv] and M = counts_move [OF i, where b = "Waiting k"]
  define s' where "s' = move i ip (Waiting k) s1"
  have new: "references j (ks_callers s) = 0 \<and> holders j (ks_callers s) = 0" if "j = ks_next s" for j
  proof -
    have "key_of (cl_phase c) \<noteq> Some j \<and> held_key (cl_phase c) \<noteq> Some j" if "c \<in> set (ks_callers s)" for c
      using D(1) [OF that] D(2) [of "cl_ip c" j] \<open>j = ks_next s\<close> by (cases "cl_phase c") auto
    then show ?thesis by (simp add: references_def holders_def)
  qed
  have s': "ks_callers s' = (ks_callers s)[i := \<lparr>cl_ip = ip, cl_phase = Waiting k\<rparr>]" "ks_free s' = ks_free s"
    "ks_keys s' = (ks_keys s)(ip := Some k)" "ks_keys s ip = None \<longrightarrow> k = ks_next s" "ks_keys s ip \<noteq> None \<longrightarrow> ks_keys s ip = Some k"
    "ks_next s' = (if ks_keys s ip = None then ks_next s + 1 else ks_next s)"
    "\<And>j. j \<noteq> k \<Longrightarrow> ks_objs s' j = ks_objs s j"
    "ks_objs s' k = (if ks_keys s ip = None then \<lparr>ky_token = True, ky_refs = 1\<rparr>
       else (ks_objs s k)\<lparr>ky_refs := ky_refs (ks_objs s k) + 1\<rparr>)"
    using e by (auto simp: s'_def move_def enterKey_def Let_def fun_upd_idem split: option.splits)
  have refs: "references j (ks_callers s') = references j (ks_callers s) + (if j = k then 1 else 0)"
    "holders j (ks_callers s') = holders j (ks_callers s)" "slotted (ks_callers s') = slotted (ks_callers s)" for j
    unfolding s'(1) M by auto
  have obj: "j < ks_next s' \<and> ky_refs (ks_objs s' j) = references j (ks_callers s') \<and> 0 < references j (ks_callers s')
      \<and> holders j (ks_callers s') = (if ky_token (ks_objs s' j) then 0 else 1)" if "ks_keys s' x = Some j" for x j
  proof (cases "j = k")
    case True
    show ?thesis
    proof (cases "ks_keys s ip")
      case None
      then show ?thesis using True new [of k] s'(4,6,8) unfolding refs by simp
    next
      case (Some y)
      then have "ks_keys s ip = Some k" using s'(5) by simp
      then show ?thesis using True D(2-5) [of ip k] s'(6,8) unfolding refs by simp
    qed
  next
    case False
    then have "ks_keys s x = Some j" using that unfolding s'(3) by (auto split: if_splits)
    then show ?thesis using False D(2-5) [of x j] s'(6,7) unfolding refs by simp
  qed
  have inj: "x = y" if "ks_keys s' x = Some j" "ks_keys s' y = Some j" for x y j
  proof (cases "j = k")
    case True
    have "z = ip" if "ks_keys s z = Some k" for z
      using that D(6) [of z k ip] D(2) [of z k] s'(4,5) by (cases "ks_keys s ip") auto
    then show ?thesis using that True unfolding s'(3) by (auto split: if_splits)
  next
    case False
    then show ?thesis using that D(6) [of x j y] unfolding s'(3) by (auto split: if_splits)
  qed
  have caller: "ks_keys s' (cl_ip c) = Some j" if c: "c \<in> set (ks_callers s')" "key_of (cl_phase c) = Some j" for c j
    using set_update_phase [OF c(1) [unfolded s'(1)]] c(2) D(1) [of c j] s'(4,5) unfolding s'(3) by (cases "ks_keys s ip") auto
  show ?thesis
    unfolding s'_def [symmetric] key_inv_def using caller obj inj D(7) unfolding refs(3) s'(2) by blast
qed

lemma key_step_inv: "key_step c s s' \<Longrightarrow> key_inv slots s \<Longrightarrow> key_inv slots s'"
proof (induction rule: key_step.induct)
  case (take i s ip k c)
  then show ?case by (intro key_inv_keep [OF take(4,1,2), of k "Keyed k"]) (auto simp: move_def set_token_def)
next
  case (slot i s ip k c)
  then show ?case by (intro key_inv_keep [OF slot(4,1,2), of k "Slotted k"]) (auto simp: move_def)
next
  case (no_slot i s ip k)
  then show ?case by (intro key_inv_keep [OF no_slot(3,1,2), of k "Unslotted k"]) (auto simp: move_def)
next
  case (return_slot i s ip k c)
  then show ?case by (intro key_inv_keep [OF return_slot(3,1,2), of k "Unslotted k"]) (auto simp: move_def)
next
  case (return_token i s ip k c)
  then show ?case by (intro key_inv_keep [OF return_token(4,1,2), of k "Unlocked k"]) (auto simp: move_def set_token_def)
qed (auto intro: key_inv_enter key_inv_release)

lemma key_reach_inv: "(\<lambda>s s'. \<exists>c. key_step c s s')\<^sup>*\<^sup>* (start_keys slots ips) s \<Longrightarrow> key_inv slots s"
  by (induction rule: rtranclp_induct) (auto intro: key_inv_start key_step_inv)

lemma held_key_of: "held_key ph = Some k \<Longrightarrow> key_of ph = Some k"
  by (cases ph) auto

lemma key_inv_one_holder:
  assumes "key_inv slots s"
  shows "length (filter (\<lambda>c. cl_ip c = ip \<and> held_key (cl_phase c) \<noteq> None) (ks_callers s)) \<le> 1"
proof (cases "ks_keys s ip")
  note D = key_invD [OF assms]
  case None
  then have "\<not> (cl_ip c = ip \<and> held_key (cl_phase c) \<noteq> None)" if "c \<in> set (ks_callers s)" for c
    using D(1) [OF that] held_key_of by fastforce
  then have "filter (\<lambda>c. cl_ip c = ip \<and> held_key (cl_phase c) \<noteq> None) (ks_callers s) = []"
    by (simp add: filter_empty_conv)
  then show ?thesis by simp
next
  note D = key_invD [OF assms]
  case (Some k)
  have "cl_ip c = ip \<and> held_key (cl_phase c) \<noteq> None \<longleftrightarrow> held_key (cl_phase c) = Some k" if c: "c \<in> set (ks_callers s)" for c
  proof
    assume h: "held_key (cl_phase c) = Some k"
    with D(6) [OF Some D(1) [OF c held_key_of]] show "cl_ip c = ip \<and> held_key (cl_phase c) \<noteq> None" by simp
  next
    assume "cl_ip c = ip \<and> held_key (cl_phase c) \<noteq> None"
    then obtain k' where h: "cl_ip c = ip" "held_key (cl_phase c) = Some k'" by auto
    with D(1) [OF c held_key_of [OF h(2)]] Some show "held_key (cl_phase c) = Some k" by simp
  qed
  then have "filter (\<lambda>c. cl_ip c = ip \<and> held_key (cl_phase c) \<noteq> None) (ks_callers s)
      = filter (\<lambda>c. held_key (cl_phase c) = Some k) (ks_callers s)"
    by (rule filter_cong [OF refl])
  then show ?thesis using D(5) [OF Some] by (simp add: holders_def split: if_splits)
qed

lemma key_inv_keys:
  assumes "key_inv slots s"
  shows "(ks_keys s ip \<noteq> None) = (\<exists>c \<in> set (ks_callers s). cl_ip c = ip \<and> key_of (cl_phase c) \<noteq> None)"
proof
  note D = key_invD [OF assms]
  assume "ks_keys s ip \<noteq> None"
  then obtain k where k: "ks_keys s ip = Some k" by auto
  then have "filter (\<lambda>c. key_of (cl_phase c) = Some k) (ks_callers s) \<noteq> []"
    using D(4) [OF k] by (auto simp: references_def)
  then obtain c where c: "c \<in> set (ks_callers s)" "key_of (cl_phase c) = Some k" by (auto simp: filter_empty_conv)
  with D(6) [OF k D(1) [OF c]] show "\<exists>c \<in> set (ks_callers s). cl_ip c = ip \<and> key_of (cl_phase c) \<noteq> None" by force
next
  assume "\<exists>c \<in> set (ks_callers s). cl_ip c = ip \<and> key_of (cl_phase c) \<noteq> None"
  then obtain c k where "c \<in> set (ks_callers s)" "cl_ip c = ip" "key_of (cl_phase c) = Some k" by auto
  with key_invD(1) [OF assms, of c k] show "ks_keys s ip \<noteq> None" by simp
qed

text \<open>
  C27: at every moment at most one lookup works on an address and at most as many talk to the providers as
  the semaphore has slots. The key map holds an address exactly while some lookup is inside its lock, so
  keys are neither leaked nor replaced while they are in use, and a returned token always finds room.
\<close>

theorem single_flight:
  assumes "(\<lambda>s s'. \<exists>c. key_step c s s')\<^sup>*\<^sup>* (start_keys slots ips) s"
  shows "length (filter (\<lambda>c. cl_ip c = ip \<and> held_key (cl_phase c) \<noteq> None) (ks_callers s)) \<le> 1
     \<and> length (filter (\<lambda>c. has_slot (cl_phase c)) (ks_callers s)) \<le> slots
     \<and> (ks_keys s ip \<noteq> None) = (\<exists>c \<in> set (ks_callers s). cl_ip c = ip \<and> key_of (cl_phase c) \<noteq> None)
     \<and> list_all (\<lambda>c. case cl_phase c of Unslotted k \<Rightarrow> \<not> ky_token (ks_objs s k) | _ \<Rightarrow> True) (ks_callers s)"
proof -
  note inv = key_reach_inv [OF assms]
  note D = key_invD [OF inv]
  have slots: "length (filter (\<lambda>c. has_slot (cl_phase c)) (ks_callers s)) \<le> slots"
    using D(7) by (simp add: slotted_def)
  have "\<not> ky_token (ks_objs s k)" if "c \<in> set (ks_callers s)" "cl_phase c = Unslotted k" for c k
  proof
    assume "ky_token (ks_objs s k)"
    then have "holders k (ks_callers s) = 0" using D(5) [of "cl_ip c" k] D(1) [OF that(1), of k] that(2) by simp
    then show False using that by (auto simp: holders_def filter_empty_conv)
  qed
  then show ?thesis
    using key_inv_one_holder [OF inv] slots key_inv_keys [OF inv] by (auto simp: list_all_iff split: caller_phase.split)
qed

text \<open>Two lookups of one address; the first has entered.\<close>

definition demo_keys :: key_state where
  "demo_keys = move 0 (V4 5) (Waiting 0) (snd (enterKey (V4 5) (start_keys 1 [V4 5, V4 5])))"

lemma demo_key_step: "key_step False (start_keys 1 [V4 5, V4 5]) demo_keys"
  unfolding demo_keys_def by (rule key_step.enter) (simp_all add: start_keys_def enterKey_def)

lemma demo_keys_callers: "ks_callers demo_keys = [\<lparr>cl_ip = V4 5, cl_phase = Waiting 0\<rparr>, \<lparr>cl_ip = V4 5, cl_phase = Arriving\<rparr>]"
  by (simp add: demo_keys_def move_def start_keys_def enterKey_def)

lemma demo_keys_reached: "((\<lambda>s s'. \<exists>c. key_step c s s') ^^ 1) (start_keys 1 [V4 5, V4 5]) demo_keys"
  using demo_key_step by auto

theorem single_flight_witness: "ks_keys demo_keys (V4 5) \<noteq> None \<and> ks_keys demo_keys (V4 6) = None"
  using single_flight [OF relpowp_imp_rtranclp [OF demo_keys_reached], of "V4 5"]
    single_flight [OF relpowp_imp_rtranclp [OF demo_keys_reached], of "V4 6"]
  by (simp add: demo_keys_callers)


subsection \<open>No deadlock\<close>

fun phase_left :: "caller_phase \<Rightarrow> nat" where
  "phase_left Arriving = 6"
| "phase_left (Waiting k) = 5"
| "phase_left (Keyed k) = 4"
| "phase_left (Slotted k) = 3"
| "phase_left (Unslotted k) = 2"
| "phase_left (Unlocked k) = 1"
| "phase_left Left = 0"

definition keys_work :: "key_state \<Rightarrow> nat" where
  "keys_work s = sum_list (map (\<lambda>c. phase_left (cl_phase c)) (ks_callers s))"

lemma keys_work_move:
  assumes "i < length (ks_callers s)" and "ks_callers s ! i = \<lparr>cl_ip = ip, cl_phase = a\<rparr>"
    and "ks_callers s' = ks_callers s" and "phase_left b < phase_left a"
  shows "keys_work (move i ip b s') < keys_work s"
  using sum_list_replace_less [OF assms(1), of "\<lambda>c. phase_left (cl_phase c)" "\<lparr>cl_ip = ip, cl_phase = b\<rparr>"] assms(2-4)
  by (simp add: keys_work_def move_def)

lemma key_step_work: "key_step c s s' \<Longrightarrow> keys_work s' < keys_work s"
  by (induction rule: key_step.induct; (rule keys_work_move, assumption, assumption);
      auto simp: enterKey_def releaseKeyReference_def set_token_def Let_def split: option.splits)

interpretation keys: bounded_steps "\<lambda>s s'. \<exists>c. key_step c s s'" keys_work
  by unfold_locales (use key_step_work in blast)

text \<open>A caller that holds a key or a slot moves; one that waits for a token waits for such a caller.\<close>

lemma held_moves:
  assumes inv: "key_inv slots s" "0 < slots" and i: "i < length (ks_callers s)" "held_key (cl_phase (ks_callers s ! i)) \<noteq> None"
  shows "\<exists>s'. key_step False s s'"
proof (cases "\<exists>j < length (ks_callers s). has_slot (cl_phase (ks_callers s ! j))")
  case True
  then obtain j ip k where "j < length (ks_callers s)" "ks_callers s ! j = \<lparr>cl_ip = ip, cl_phase = Slotted k\<rparr>"
    by (metis caller.surjective has_slot.elims(2) old.unit.exhaust)
  from key_step.return_slot [OF this] show ?thesis by blast
next
  case False
  then have "slotted (ks_callers s) = 0" by (auto simp: slotted_def filter_empty_conv in_set_conv_nth)
  then have free: "0 < ks_free s" using key_invD(7) [OF inv(1)] inv(2) by simp
  obtain ip ph where c: "ks_callers s ! i = \<lparr>cl_ip = ip, cl_phase = ph\<rparr>" by (cases "ks_callers s ! i") auto
  show ?thesis
  proof (cases ph)
    case (Keyed k)
    with key_step.slot [OF i(1) _ free] c show ?thesis by blast
  next
    case (Unslotted k)
    have mem: "\<lparr>cl_ip = ip, cl_phase = Unslotted k\<rparr> \<in> set (ks_callers s)" using c Unslotted i(1) nth_mem by metis
    have "\<not> ky_token (ks_objs s k)"
    proof
      assume "ky_token (ks_objs s k)"
      then have "holders k (ks_callers s) = 0"
        using key_invD(5) [OF inv(1), of ip k] key_invD(1) [OF inv(1) mem, of k] by simp
      then show False using mem by (auto simp: holders_def filter_empty_conv)
    qed
    with key_step.return_token [OF i(1)] c Unslotted show ?thesis by blast
  qed (use i c False in auto)
qed

lemma keys_progress:
  assumes inv: "key_inv slots s" "0 < slots" and i: "i < length (ks_callers s)" "cl_phase (ks_callers s ! i) \<noteq> Left"
  shows "\<exists>s'. key_step False s s'"
proof -
  obtain ip ph where c: "ks_callers s ! i = \<lparr>cl_ip = ip, cl_phase = ph\<rparr>" by (cases "ks_callers s ! i") auto
  show ?thesis
  proof (cases ph)
    case Arriving
    obtain k s' where "enterKey ip s = (k, s')" by fastforce
    with key_step.enter [OF i(1)] c Arriving show ?thesis by blast
  next
    case (Waiting k)
    show ?thesis
    proof (cases "ky_token (ks_objs s k)")
      case True
      with key_step.take [OF i(1)] c Waiting show ?thesis by blast
    next
      case False
      have mem: "\<lparr>cl_ip = ip, cl_phase = Waiting k\<rparr> \<in> set (ks_callers s)" using c Waiting i(1) nth_mem by metis
      have "holders k (ks_callers s) = 1"
        using key_invD(5) [OF inv(1), of ip k] key_invD(1) [OF inv(1) mem, of k] False by simp
      then have "filter (\<lambda>c. held_key (cl_phase c) = Some k) (ks_callers s) \<noteq> []" by (auto simp: holders_def)
      then obtain j where "j < length (ks_callers s)" "held_key (cl_phase (ks_callers s ! j)) = Some k"
        by (auto simp: filter_empty_conv in_set_conv_nth)
      with held_moves [OF inv, of j] show ?thesis by simp
    qed
  next
    case (Unlocked k)
    with key_step.return_reference [OF i(1)] c show ?thesis by blast
  qed (use held_moves [OF inv i(1)] i(2) c in auto)
qed

text \<open>
  C28: lookups never deadlock on keys and slots: while one of them has not returned some lookup can move
  without any context ending, every schedule has at most six steps per lookup, and when all have
  returned the key map is empty and every slot is free.
\<close>

theorem lookups_complete:
  assumes "((\<lambda>s s'. \<exists>c. key_step c s s') ^^ n) (start_keys slots ips) s" and "0 < slots"
  shows "n \<le> 6 * length ips
     \<and> (if list_all (\<lambda>c. cl_phase c = Left) (ks_callers s)
        then ks_keys s = (\<lambda>_. None) \<and> ks_free s = slots
        else \<exists>s'. key_step False s s')"
proof -
  note reach = relpowp_imp_rtranclp [OF assms(1)]
  note inv = key_reach_inv [OF reach]
  have "keys_work (start_keys slots ips) = 6 * length ips"
    by (simp add: keys_work_def start_keys_def comp_def sum_list_triv)
  with keys.runs_bounded [OF assms(1)] have "n \<le> 6 * length ips" by simp
  moreover have "ks_keys s = (\<lambda>_. None) \<and> ks_free s = slots" if all: "list_all (\<lambda>c. cl_phase c = Left) (ks_callers s)"
  proof
    have "references k (ks_callers s) = 0" for k
      using all by (auto simp: references_def filter_empty_conv list_all_iff)
    then show "ks_keys s = (\<lambda>_. None)" using key_invD(4) [OF inv] by (metis less_irrefl not_Some_eq)
    have "slotted (ks_callers s) = 0" using all by (auto simp: slotted_def filter_empty_conv list_all_iff)
    then show "ks_free s = slots" using key_invD(7) [OF inv] by simp
  qed
  moreover have "\<exists>s'. key_step False s s'" if "\<not> list_all (\<lambda>c. cl_phase c = Left) (ks_callers s)"
    using that keys_progress [OF inv assms(2)] by (auto simp: list_all_length)
  ultimately show ?thesis by simp
qed

theorem lookups_complete_witness: "\<exists>s'. key_step False demo_keys s'"
  using lookups_complete [OF demo_keys_reached] by (simp add: demo_keys_callers)

end
