(* ===== verification/Lifecycle.thy ===== *)
theory Lifecycle
  imports Supervisor
begin

text \<open>
  What a client of the supervisor may rely on: which errors of a lifecycle call are the program's own, what
  a refused start, stop or re-enable says about the row, and what deleting a session leaves behind.
\<close>

subsection \<open>What starting and stopping report\<close>

lemma Start_result:
  assumes "Start waiting env sid s = (s', e)"
  shows "sv_store s' = sv_store s" "e \<noteq> None \<Longrightarrow> s' = s" "e = None \<Longrightarrow> sv_workers s' sid \<noteq> None"
    "x \<noteq> sid \<Longrightarrow> sv_workers s' x = sv_workers s x" "sv_workers s x \<noteq> None \<Longrightarrow> sv_workers s' x = sv_workers s x"
    "sv_samples s' = sv_samples s" "sv_pending s' = sv_pending s" "sv_closing s' = sv_closing s" "sv_root s' = sv_root s" "sv_recoveryCtx s' = sv_recoveryCtx s"
proof -
  have *: "e \<noteq> None \<and> s' = s \<or> (\<exists>st. startCurrent env sid s = (s', st, e))"
    using assms by (auto simp: Start_def sessionOperation_def split: option.splits if_splits prod.splits)
  have "e \<noteq> None \<longrightarrow> s' = s" if "startCurrent env sid s = (s', st, e)" for st
    using that by (auto simp: startCurrent_def start_def publishPrepared_def split: if_splits option.splits sum.splits prod.splits)
  with * show same: "e \<noteq> None \<Longrightarrow> s' = s" by blast
  have cur: "e \<noteq> None \<or> (\<exists>st. startCurrent env sid s = (s', st, None))" by (cases e) (use * in auto)
  show "sv_store s' = sv_store s" "sv_samples s' = sv_samples s" "sv_pending s' = sv_pending s"
    "sv_closing s' = sv_closing s" "sv_root s' = sv_root s" "sv_recoveryCtx s' = sv_recoveryCtx s" "e = None \<Longrightarrow> sv_workers s' sid \<noteq> None"
    "x \<noteq> sid \<Longrightarrow> sv_workers s' x = sv_workers s x" "sv_workers s x \<noteq> None \<Longrightarrow> sv_workers s' x = sv_workers s x"
    using cur same startCurrent_result by metis+
qed

text \<open>
  Errors that do not come from the program are none of its sentinels; a context's error is one of the two of
  package \<open>context\<close>.
\<close>

definition foreign :: "go_error \<Rightarrow> bool" where
  "foreign e \<longleftrightarrow> \<not> errors_is e ErrNotFound \<and> \<not> errors_is e ErrNotRunning"

definition start_env_ok :: "start_env \<Rightarrow> bool" where
  "start_env_ok env \<longleftrightarrow> foreign_faults (se_fault env) \<and> (\<forall>v e. se_prepare env v = Inl e \<longrightarrow> foreign e)"

definition contexts_ok :: "supervisor \<Rightarrow> bool" where
  "contexts_ok s \<longleftrightarrow> (\<forall>e \<in> set_option (sv_root s) \<union> set_option (sv_recoveryCtx s). e = CtxCanceled \<or> e = CtxDeadlineExceeded)"

lemma foreign_simps [simp]: "foreign ErrSupervisorClosed" "foreign CtxCanceled" "foreign CtxDeadlineExceeded"
  by (simp_all add: foreign_def)

text \<open>A failed start is stale, or its error is foreign.\<close>

lemma startCurrent_foreign:
  assumes "startCurrent env sid s = (s', stale, Some e)" and "start_env_ok env" and "contexts_ok s"
  shows "stale_error stale (Some e) \<or> foreign e"
proof (cases "SessionByID (se_fault env) (sv_store s) sid")
  case (Inl x)
  with assms show ?thesis by (auto simp: startCurrent_def stale_error_def foreign_def split: if_splits)
next
  case (Inr v)
  with assms show ?thesis
    by (auto simp: startCurrent_def start_def publishPrepared_def stale_error_def start_env_ok_def contexts_ok_def
        split: if_splits sum.splits option.splits prod.splits)
qed

lemma stop_worker_missing:
  assumes "stop_worker env sid s = (s', p, dl, e)" and "stop_env_ok env" and "err_is e ErrNotFound" and "foreign (en_expired env)"
  shows "find_session (sv_store s') sid = None"
proof -
  have nf: "\<not> err_is x ErrNotFound" if "stop_loop sid (en_expired env) (en_attempt env) (en_retries env) t = (t', x)" for t t' x
    by (rule stop_loop_not_missing [OF that]) (use assms(2,4) in \<open>auto simp: stop_env_ok_def list_all_iff foreign_def\<close>)
  have fr: "foreign_faults (en_read env)" using assms(2) by (simp add: stop_env_ok_def)
  from assms(1,3,4) nf SessionByID_cases [OF fr, of "sv_store s" sid] show ?thesis
    by (auto simp: stop_worker_def foreign_def split: option.splits if_splits sum.splits prod.splits)
qed

lemma stop_worker_unowned:
  assumes "stop_worker env sid s = (s', p, dl, e)" and "stop_env_ok env" and "foreign (en_expired env)"
    and "e = None \<or> \<not> foreign (the e)"
  shows "sv_workers s' sid = None"
proof -
  have *: "sv_workers t' = sv_workers t" if "stop_loop sid (en_expired env) (en_attempt env) (en_retries env) t = (t', x)" for t t' x
    by (rule stop_loop_result(1) [OF that]) (use assms(2,3) in \<open>auto simp: stop_env_ok_def list_all_iff foreign_def\<close>)
  show ?thesis
  proof (cases "sv_workers s sid")
    case None
    with assms * show ?thesis by (auto simp: stop_worker_def split: if_splits sum.splits prod.splits)
  next
    case (Some r)
    have "sv_workers (worker_exit sid (rn_ref r) (settle sid (en_writes env) s)) sid = None"
      by (rule worker_exit_gone) (simp add: Some)
    with Some assms * show ?thesis by (auto simp: stop_worker_def split: if_splits prod.splits)
  qed
qed

text \<open>A stop that reports "not running" or "not found" is right.\<close>

lemma stopWithOwnership_refused:
  assumes "stopWithOwnership env restore sid s = (s', Some e)" and "stop_env_ok env" and "foreign (en_expired env)"
    and "start_env_ok restore" and "contexts_ok s" and "\<not> foreign e"
  shows "find_session (sv_store s') sid = Some r \<Longrightarrow> c_status r \<noteq> StatusRunning"
    and "errors_is e ErrNotFound \<Longrightarrow> find_session (sv_store s') sid = None" and "sv_workers s' sid = None"
proof -
  obtain s1 p dl x where w: "stop_worker env sid s = (s1, p, dl, x)" by (metis prod_cases4)
  note res = stop_worker_result [OF w assms(2)]
  have ctx: "contexts_ok s1" using res(1) assms(5) by (simp add: contexts_ok_def same_besides_def)
  have sched: "foreign y" if "scheduleRecovery sid q s1 = (s2, Some y)" for q s2 y
    using that ctx by (auto simp: scheduleRecovery_def contexts_ok_def split: if_splits option.splits)
  have pub: "foreign y" if "publishPrepared sid q s1 = (s2, Some y)" for q s2 y
    using that ctx by (auto simp: publishPrepared_def contexts_ok_def split: if_splits option.splits)
  have early: "s' = s1 \<and> x = Some e"
  proof (rule ccontr)
    assume "\<not> (s' = s1 \<and> x = Some e)"
    then have "\<not> (err_is x ErrNotRunning \<or> err_is x ErrNotFound) \<and> x \<noteq> None"
      using assms(1) w by (auto simp: stopWithOwnership_def split: if_splits)
    then obtain z where z: "x = Some z" "foreign z" by (auto simp: foreign_def)
    have "\<exists>m y. foreign y \<and> e = Joined [z, Wrapped m y] \<or> e = z"
      using assms(1) w z sched pub startCurrent_foreign [OF _ assms(4) ctx]
      by (auto simp: stopWithOwnership_def foreign_def errors_join_def split: if_splits option.splits prod.splits) blast+
    with z assms(6) show False by (auto simp: foreign_def)
  qed
  with res(3) assms(6) show "find_session (sv_store s') sid = Some r \<Longrightarrow> c_status r \<noteq> StatusRunning"
    by (auto simp: foreign_def)
  from early stop_worker_unowned [OF w assms(2,3)] assms(6) show "sv_workers s' sid = None" by simp
  from early stop_worker_missing [OF w assms(2) _ assms(3)] show "errors_is e ErrNotFound \<Longrightarrow> find_session (sv_store s') sid = None"
    by simp
qed

lemma Stop_succeeds:
  assumes "db_ok d" and "find_session d sid = Some row" and "c_status row = StatusRunning" and "f 0 = None"
  shows "snd (Stop f d sid now) = None"
proof -
  let ?P = "\<lambda>r. c_id r = sid \<and> c_status r = StatusRunning"
  have "row \<in> set (filter ?P (t_sessions d))" using find_session_Some [OF assms(2)] assms(3) by simp
  then have ne: "filter ?P (t_sessions d) \<noteq> []" by force
  have "\<forall>r \<in> set (t_sessions d). row_ok r" using assms(1) by (simp add: db_ok_def)
  then have "list_all (\<lambda>r. row_ok (r\<lparr>c_status := StatusStopped, c_stopped_at := Some (timestamp now)\<rparr>)) (filter ?P (t_sessions d))"
    by (auto simp: list_all_iff row_ok_def)
  with ne assms(4) show ?thesis by (simp add: Stop_def update_session_def update_rows_def)
qed

lemma Reenable_done:
  assumes "Reenable f d sid now = (d', None)" and "db_ok d"
  shows "\<exists>row. find_session d' sid = Some row \<and> c_status row = StatusRunning \<and> c_samples_taken row = 0" "db_ok d'"
proof -
  from Reenable_cases [OF assms(1)] obtain n where u: "update_session f (\<lambda>r. c_id r = sid \<and> c_status r \<in> {StatusStopped, StatusFinished})
      (reenable_row (timestamp now)) d = Inr (d', n)" "0 < n" by auto
  have "filter (\<lambda>r. c_id r = sid \<and> c_status r \<in> {StatusStopped, StatusFinished}) (t_sessions d) \<noteq> []"
    using u by (auto simp: update_session_def update_rows_def filter_empty_conv split: option.splits if_splits)
  then obtain r where r: "r \<in> set (t_sessions d)" "c_id r = sid" "c_status r \<in> {StatusStopped, StatusFinished}"
    by (auto simp: filter_empty_conv)
  then have "find_session d sid = Some r" using find_unique [of "t_sessions d" r] assms(2) by (simp add: db_ok_def find_session_def)
  then show "\<exists>row. find_session d' sid = Some row \<and> c_status row = StatusRunning \<and> c_samples_taken row = 0"
    using find_update(1) [OF u(1) same_keys_simps(3), of sid] r by (simp add: reenable_row_def)
  show "db_ok d'" using apply_op_ok [of d "\<lambda>_. None" id f "DoReenable sid now"] assms by simp
qed

text \<open>Why a session is not re-enabled.\<close>

lemma Reenable_refused:
  assumes "Reenable f d sid now = (d', Some e)" and "foreign_faults f" and "\<And>k x. f k = Some x \<Longrightarrow> \<not> errors_is x ErrAlreadyRunning"
    and "db_ok d"
  shows "d' = d" "errors_is e ErrNotFound \<Longrightarrow> find_session d sid = None"
    "errors_is e ErrAlreadyRunning \<Longrightarrow> \<exists>row. find_session d sid = Some row \<and> c_status row = StatusRunning"
proof -
  show d: "d' = d" using Reenable_cases [OF assms(1)] by simp
  let ?P = "\<lambda>r. c_id r = sid \<and> c_status r \<in> {StatusStopped, StatusFinished}"
  have sqlx: "\<not> errors_is (sql_error m) ErrNotFound" "\<not> errors_is (sql_error m) ErrAlreadyRunning" for m by (simp_all add: sql_error_def)
  consider (failed) x where "update_session f ?P (reenable_row (timestamp now)) d = Inl x" "e = Wrapped ''reenable session'' x"
    | (none) d1 where "update_session f ?P (reenable_row (timestamp now)) d = Inr (d1, 0)"
        "Some e = (case SessionByID (\<lambda>k. f (Suc k)) d1 sid of Inl e \<Rightarrow> Some e | Inr _ \<Rightarrow> Some ErrAlreadyRunning)" "d' = d1"
    using assms(1) by (auto simp: Reenable_def split: sum.splits prod.splits if_splits)
  then have "(errors_is e ErrNotFound \<longrightarrow> find_session d sid = None)
    \<and> (errors_is e ErrAlreadyRunning \<longrightarrow> (\<exists>row. find_session d sid = Some row \<and> c_status row = StatusRunning))"
  proof cases
    case failed
    then have "\<not> errors_is x ErrNotFound \<and> \<not> errors_is x ErrAlreadyRunning"
      using assms(2,3) sqlx by (auto simp: update_session_def update_rows_def foreign_faults_def split: option.splits if_splits)
    with failed show ?thesis by simp
  next
    case none
    have fr: "foreign_faults (\<lambda>k. f (Suc k))" using assms(2) by (auto simp: foreign_faults_def)
    have "filter ?P (t_sessions d) = []"
      using none(1) by (auto simp: update_session_def update_rows_def split: option.splits if_splits)
    then have run: "c_status row = StatusRunning" if "find_session d sid = Some row" for row
      using find_session_Some [OF that] by (cases "c_status row") (auto simp: filter_empty_conv)
    have "\<not> errors_is x ErrAlreadyRunning" if "SessionByID (\<lambda>k. f (Suc k)) d sid = Inl x" for x
      using that assms(3) by (auto simp: SessionByID_def split: option.splits)
    with none d run SessionByID_cases [OF fr, of d sid] show ?thesis by (auto split: sum.splits)
  qed
  then show "errors_is e ErrNotFound \<Longrightarrow> find_session d sid = None"
    "errors_is e ErrAlreadyRunning \<Longrightarrow> \<exists>row. find_session d sid = Some row \<and> c_status row = StatusRunning" by simp_all
qed

text \<open>A start on a row that runs fails for foreign reasons only.\<close>

lemma Start_running_foreign:
  assumes "Start waiting env sid s = (s', Some e)" and "find_session (sv_store s) sid = Some row" and "c_status row = StatusRunning"
    and "start_env_ok env" and "contexts_ok s" and "\<forall>x \<in> set_option waiting. foreign x"
  shows "foreign e"
proof -
  have "foreign e \<or> (\<exists>st. startCurrent env sid s = (s', st, Some e))"
    using assms(1,5,6) by (fastforce simp: Start_def sessionOperation_def contexts_ok_def split: option.splits if_splits prod.splits)
  then show ?thesis
  proof
    assume "\<exists>st. startCurrent env sid s = (s', st, Some e)"
    then obtain st where st: "startCurrent env sid s = (s', st, Some e)" by blast
    have "foreign_faults (se_fault env)" using assms(4) by (simp add: start_env_ok_def)
    with startCurrent_foreign [OF st assms(4,5)] startCurrent_running(1) [OF st assms(2,3)] show ?thesis by blast
  qed
qed


subsection \<open>Statements leave the runs alone\<close>

lemma update_session_runs: "update_session f P g d = Inr (d', n) \<Longrightarrow> t_runs d' = t_runs d"
  by (auto simp: update_session_def update_rows_def split: option.splits if_splits)

lemma save_hits_runs: "save_hits f sid hits d = Inr d' \<Longrightarrow> t_runs d' = t_runs d"
  by (induction hits arbitrary: f d) (auto simp: upsert_ip_def Let_def split: option.splits sum.splits if_splits)

lemma statement_runs:
  "t_runs (fst (Stop f d sid now)) = t_runs d" "t_runs (fst (Finish f d sid now)) = t_runs d"
  "t_runs (fst (SaveTick f d sid snap hits)) = t_runs d" "t_runs (fst (Delete f d sid)) = t_runs d"
proof -
  show "t_runs (fst (Stop f d sid now)) = t_runs d"
    using Stop_cases [of f d sid now] by (cases "Stop f d sid now") (auto dest: update_session_runs)
  show "t_runs (fst (Finish f d sid now)) = t_runs d"
    using Finish_cases [of f d sid now] by (cases "Finish f d sid now") (auto dest: update_session_runs)
  show "t_runs (fst (SaveTick f d sid snap hits)) = t_runs d"
    using SaveTick_cases [of f d sid snap hits]
    by (cases "SaveTick f d sid snap hits") (auto dest!: update_session_runs save_hits_runs)
  show "t_runs (fst (Delete f d sid)) = t_runs d"
    by (auto simp: Delete_def delete_sessions_def split: option.splits)
qed

lemma settle_runs: "t_runs (sv_store (settle sid ws s)) = t_runs (sv_store s)"
proof (induction sid ws s rule: settle.induct)
  case (2 sid f snap hits ev ws s)
  then show ?case using statement_runs(3) [of f "sv_store s" sid snap hits]
    by (cases "SaveTick f (sv_store s) sid snap hits"; cases "snd (SaveTick f (sv_store s) sid snap hits)") auto
qed (simp_all add: statement_runs)

lemma stop_loop_runs: "t_runs (sv_store (fst (stop_loop sid expired a retries s))) = t_runs (sv_store s)"
proof (induction sid expired a retries s rule: stop_loop.induct)
  case (1 sid expired a retries s)
  obtain d x where st: "Stop (fst a) (sv_store s) sid (snd a) = (d, x)" by fastforce
  with statement_runs(1) [of "fst a" "sv_store s" sid "snd a"] have d: "t_runs d = t_runs (sv_store s)" by simp
  show ?case
  proof (cases "x = None \<or> err_is x ErrNotRunning \<or> retries = []")
    case True
    with st d show ?thesis by (auto simp: stop_loop.simps [of sid])
  next
    case False
    then obtain a' rs where "retries = a' # rs" by (cases retries) auto
    with "1.IH" [OF st [symmetric]] False st d show ?thesis by (auto simp: stop_loop.simps [of sid expired a])
  qed
qed

lemma stop_worker_runs: "t_runs (sv_store (fst (stop_worker env sid s))) = t_runs (sv_store s)"
proof -
  have *: "t_runs (sv_store t') = t_runs (sv_store t)"
    if "stop_loop sid (en_expired env) (en_attempt env) (en_retries env) t = (t', e)" for t t' e
    using stop_loop_runs [of sid "en_expired env" "en_attempt env" "en_retries env" t] that by simp
  have "t_runs (sv_store (worker_exit sid ref (settle sid ws s))) = t_runs (sv_store s)" for ref ws
    by (simp add: worker_exit_def settle_runs split: option.split)
  with * show ?thesis
    by (auto simp: stop_worker_def split: option.split sum.split prod.split)
qed

lemma stopWithOwnership_runs:
  assumes "stopWithOwnership env restore sid s = (s', e)"
  shows "t_runs (sv_store s') = t_runs (sv_store s)"
proof -
  obtain s1 p dl x where w: "stop_worker env sid s = (s1, p, dl, x)" by (metis prod_cases4)
  have "sv_store s2 = sv_store s1" if "scheduleRecovery sid r s1 = (s2, y)" for r s2 y
    using that by (auto simp: scheduleRecovery_def split: if_splits option.splits)
  with assms w have "sv_store s' = sv_store s1"
    by (auto simp: stopWithOwnership_def split: if_splits option.splits prod.splits
        dest: publishPrepared_result(1) startCurrent_result(1))
  with stop_worker_runs [of env sid s] w show ?thesis by simp
qed


subsection \<open>Deleting one session\<close>

text \<open>What the environment may report without being mistaken for the program's own "not found" or "not running".\<close>

definition delete_env_good :: "delete_env \<Rightarrow> uuid \<Rightarrow> bool" where
  "delete_env_good env sid \<longleftrightarrow> stop_env_ok (de_stop env sid) \<and> foreign (en_expired (de_stop env sid))
     \<and> foreign_faults (de_read env sid) \<and> start_env_ok (de_restore env sid) \<and> foreign_faults (de_row env sid)
     \<and> (\<forall>e \<in> set_option (de_flush env) \<union> set_option (de_mutation env). foreign e)"

text \<open>An operation on one session leaves the others, the runs and the invariants alone.\<close>

definition only_session :: "uuid \<Rightarrow> supervisor \<Rightarrow> supervisor \<Rightarrow> bool" where
  "only_session sid s t \<longleftrightarrow>
     (\<forall>x. x = sid \<or> find_session (sv_store t) x = find_session (sv_store s) x \<and> sv_workers t x = sv_workers s x)
   \<and> db_ok (sv_store t) \<and> contexts_ok t \<and> t_runs (sv_store t) = t_runs (sv_store s)"

lemma only_session_stop:
  assumes "stopWithOwnership env restore sid s = (s', e)" and "stop_env_ok env" and "contexts_ok s" and "db_ok (sv_store s)"
  shows "only_session sid s s'"
  using stopWithOwnership_same(1) [OF assms(1,2)] assms(3,4) stopWithOwnership_runs [OF assms(1)]
  by (auto simp: only_session_def same_besides_def contexts_ok_def)

lemma only_session_delete_row:
  assumes "only_session sid s t" and "Delete f (sv_store t) sid = (d, e)"
  shows "only_session sid s (t\<lparr>sv_store := d\<rparr>)"
  using assms(1) Delete_rows [OF assms(2)] assms(2) statement_runs(4) [of f "sv_store t" sid]
    apply_op_ok [of "sv_store t" "\<lambda>_. None" id f "DoDelete sid"]
  by (auto simp: only_session_def contexts_ok_def)

lemma only_session_samples:
  "sv_store t' = sv_store t \<Longrightarrow> sv_workers t' = sv_workers t \<Longrightarrow> sv_root t' = sv_root t \<Longrightarrow> sv_recoveryCtx t' = sv_recoveryCtx t \<Longrightarrow>
     only_session sid s t' = only_session sid s t"
  by (simp add: only_session_def contexts_ok_def)

text \<open>Once the session no longer runs, a deletion ends in the flush, in the mutation, or in the row.\<close>

lemma delete_session_cases:
  fixes s1 :: supervisor
  assumes "SessionByID (de_read env sid) (sv_store s) sid = Inr v" and "s_Status v = StatusRunning"
    and "stopWithOwnership (de_stop env sid) (de_restore env sid) sid s = (s1, err)" and "err = None \<or> err_is err ErrNotRunning"
    and "Delete (de_row env sid) (sv_store s1) sid = (d, x)" and "delete_session env sid s = (s', (), e)"
  defines "s2 \<equiv> flush_sink (de_flush env) (de_written env) (de_left env) s1"
  obtains (flush) y where "s' = s2" "e = Some (Wrapped ''flush samples before delete'' y)" "de_flush env = Some y"
    | (mutation) y m t where "s' = s2\<lparr>sv_samples := t\<rparr>" "e = Some (Wrapped m y)" "de_mutation env = Some y"
    | (row) t where "s' = s2\<lparr>sv_samples := t, sv_store := d\<rparr>" "e = x"
proof -
  have cont: "(err \<noteq> None \<and> \<not> err_is err ErrNotRunning) = False" using assms(4) by auto
  have "sv_store s2 = sv_store s1" by (simp add: s2_def flush_sink_def split: option.split)
  then have step: "delete_session env sid s = (case de_flush env of
        Some y \<Rightarrow> (s2, (), Some (Wrapped ''flush samples before delete'' y))
      | None \<Rightarrow> (case DeleteSession (de_mutation env) (de_applied env) sid (sv_samples s2) of
          (table, Some y) \<Rightarrow> (s2\<lparr>sv_samples := table\<rparr>, (), Some y)
        | (table, None) \<Rightarrow> (s2\<lparr>sv_samples := table, sv_store := d\<rparr>, (), x)))"
    using cont assms(5) by (simp add: delete_session_def assms(1-3) Let_def s2_def [symmetric] cong: option.case_cong prod.case_cong) auto
  show thesis
  proof (cases "de_flush env")
    case (Some y)
    with step assms(6) show ?thesis by (intro flush [of y]) simp_all
  next
    case None
    show ?thesis
    proof (cases "de_mutation env")
      case (Some y)
      with None step assms(6) show ?thesis by (intro mutation [of _ _ y]) (simp_all add: DeleteSession_def)
    next
      case None': None
      with None step assms(6) show ?thesis by (intro row) (simp_all add: DeleteSession_def)
    qed
  qed
qed

text \<open>
  Deleting a session that runs: only a deletion that reports success (or that the session is gone) has
  removed the row; then no worker is left either.
\<close>

lemma delete_running_outcome:
  assumes "delete_session env sid s = (s', (), e)" and "delete_env_good env sid" and "contexts_ok s" and "db_ok (sv_store s)"
    and "find_session (sv_store s) sid = Some r" and "c_status r = StatusRunning"
  shows "only_session sid s s'
    \<and> (e = None \<or> err_is e ErrNotFound \<longrightarrow> find_session (sv_store s') sid = None \<and> sv_workers s' sid = None)"
proof -
  have good: "stop_env_ok (de_stop env sid)" "foreign (en_expired (de_stop env sid))" "foreign_faults (de_read env sid)"
    "start_env_ok (de_restore env sid)" "foreign_faults (de_row env sid)" "\<forall>x \<in> set_option (de_flush env). foreign x"
    "\<forall>x \<in> set_option (de_mutation env). foreign x"
    using assms(2) by (auto simp: delete_env_good_def)
  note read = SessionByID_cases [OF good(3), of "sv_store s" sid]
  show ?thesis
  proof (cases "SessionByID (de_read env sid) (sv_store s) sid")
    case (Inl x)
    with assms(1,3-5) read show ?thesis by (auto simp: delete_session_def only_session_def)
  next
    case (Inr v)
    have run: "s_Status v = StatusRunning" using read Inr assms(5,6) by simp
    obtain s1 err where stop: "stopWithOwnership (de_stop env sid) (de_restore env sid) sid s = (s1, err)" by fastforce
    note P1 = only_session_stop [OF stop good(1) assms(3,4)]
    have exists: "find_session (sv_store s1) sid \<noteq> None"
      using stopWithOwnership_same(1) [OF stop good(1)] assms(5) by (simp add: same_besides_def)
    note refused = stopWithOwnership_refused [OF _ good(1,2,4) assms(3), of sid s1]
    show ?thesis
    proof (cases "err = None \<or> err_is err ErrNotRunning")
      case False
      then obtain x where x: "err = Some x" by auto
      have "\<not> errors_is x ErrNotFound" using refused(2) [OF stop [unfolded x]] exists by (auto simp: foreign_def)
      with False x P1 assms(1) Inr run stop show ?thesis by (auto simp: delete_session_def)
    next
      case True
      have unowned: "sv_workers s1 sid = None"
      proof (cases err)
        case None
        with stopWithOwnership_same(2) [OF stop good(1)] assms(4) show ?thesis by simp
      next
        case (Some x)
        with True have "\<not> foreign x" by (simp add: foreign_def)
        from refused(3) [OF stop [unfolded Some] this] show ?thesis .
      qed
      define s2 where "s2 = flush_sink (de_flush env) (de_written env) (de_left env) s1"
      have s2: "sv_store s2 = sv_store s1" "sv_workers s2 = sv_workers s1" "sv_root s2 = sv_root s1" "sv_recoveryCtx s2 = sv_recoveryCtx s1"
        by (simp_all add: s2_def flush_sink_def split: option.split)
      have P2: "only_session sid s s2" using P1 only_session_samples [OF s2] by simp
      obtain d x where del: "Delete (de_row env sid) (sv_store s2) sid = (d, x)" by fastforce
      have row: "x = None \<longrightarrow> find_session d sid = None" "\<not> err_is x ErrNotFound"
        using Delete_rows [OF del] del good(5) by (auto simp: Delete_def foreign_faults_def split: option.splits)
      have P3: "only_session sid s (s2\<lparr>sv_samples := t, sv_store := d\<rparr>)" for t
        by (rule only_session_delete_row [where t = "s2\<lparr>sv_samples := t\<rparr>" and f = "de_row env sid"])
           (use P2 del in \<open>simp_all add: only_session_samples [of "s2\<lparr>sv_samples := t\<rparr>" s2]\<close>)
      have "Delete (de_row env sid) (sv_store s1) sid = (d, x)" using del s2(1) by simp
      from delete_session_cases [OF Inr run stop True this assms(1), folded s2_def]
      show ?thesis
      proof cases
        case (3 t)
        with P3 \<open>x = None \<longrightarrow> _\<close> \<open>\<not> err_is x ErrNotFound\<close> unowned s2 show ?thesis by simp
      qed (use P2 good(6,7) in \<open>auto simp: foreign_def only_session_samples [of "s2\<lparr>sv_samples := _\<rparr>" s2]\<close>)
    qed
  qed
qed

end
