(* ===== verification/Secrets.thy ===== *)
theory Secrets
  imports Prelude GoStrings
begin

text \<open>
  \<open>internal/crypto/crypto.go\<close> and the URL handling of \<open>internal/proxydial/dialer.go\<close>. AES-256-GCM is the
  record \<open>aead\<close> (what \<open>cipher.AEAD\<close> offers), \<open>net/url.Parse\<close> is the parameter \<open>parse\<close>; a parsed URL keeps
  the parts the program reads.
\<close>

subsection \<open>Encryption of proxy URLs\<close>

record aead =
  ae_nonce_size :: nat
  ae_seal :: "string \<Rightarrow> string \<Rightarrow> string"
  ae_open :: "string \<Rightarrow> string \<Rightarrow> string result"

text \<open>\<open>gcm key\<close> stands for \<open>aes.NewCipher\<close> followed by \<open>cipher.NewGCM\<close>; the error names the failing one.\<close>

definition NewCipher :: "(string \<Rightarrow> aead result) \<Rightarrow> string \<Rightarrow> aead result" where
  "NewCipher gcm key = (if length key \<noteq> 32 then Inl (ErrOther ''encryption key must be 32 bytes'') else gcm key)"

text \<open>\<open>random\<close> is what \<open>io.ReadFull(rand.Reader, nonce)\<close> yields for the nonce size.\<close>

definition Encrypt :: "aead \<Rightarrow> (nat \<Rightarrow> string result) \<Rightarrow> string \<Rightarrow> (string \<times> string) result" where
  "Encrypt c random plaintext =
     (case random (ae_nonce_size c) of
        Inl e \<Rightarrow> Inl (Wrapped ''generate encryption nonce'' e)
      | Inr nonce \<Rightarrow> Inr (ae_seal c nonce plaintext, nonce))"

definition Decrypt :: "aead \<Rightarrow> string \<Rightarrow> string \<Rightarrow> string result" where
  "Decrypt c ciphertext nonce =
     (if ciphertext = [] then Inl (ErrOther ''decrypt proxy credentials: ciphertext is empty'')
      else if length nonce \<noteq> ae_nonce_size c
      then Inl (ErrOther (''decrypt proxy credentials: nonce length is '' @ itoa (int (length nonce)) @ '', want '' @ itoa (int (ae_nonce_size c))))
      else (case ae_open c nonce ciphertext of
              Inl e \<Rightarrow> Inl (Wrapped ''decrypt proxy credentials'' e)
            | Inr plaintext \<Rightarrow> Inr plaintext))"


subsection \<open>Proxy URLs\<close>

record url =
  u_scheme :: string
  u_host :: string
  u_hostname :: string
  u_port :: string
  u_user :: "(string \<times> string option) option"

definition parseURL :: "(string \<Rightarrow> url option) \<Rightarrow> string \<Rightarrow> url result" where
  "parseURL parse raw =
     (case parse raw of
        None \<Rightarrow> Inl (ErrOther ''parse proxy URL: invalid URL'')
      | Some u \<Rightarrow> if u_hostname u = [] \<or> u_port u = [] then Inl (ErrOther ''proxy URL requires host and port'') else Inr u)"

text \<open>\<open>net.JoinHostPort\<close>.\<close>

definition join_host_port :: "string \<Rightarrow> string \<Rightarrow> string" where
  "join_host_port host port =
     (if CHR '':'' \<in> set host then ''['' @ host @ '']:'' @ port else host @ '':'' @ port)"

definition Display :: "(string \<Rightarrow> url option) \<Rightarrow> string \<Rightarrow> string result" where
  "Display parse raw =
     (case parseURL parse raw of Inl e \<Rightarrow> Inl e | Inr u \<Rightarrow> Inr (join_host_port (u_hostname u) (u_port u)))"

text \<open>The dialer \<open>FromURL\<close> builds; a SOCKS5 dialer carries its credentials, a CONNECT dialer the URL.\<close>

datatype dialer = Socks5 string "(string \<times> string) option" duration | Connect url duration

definition FromURL :: "(string \<Rightarrow> url option) \<Rightarrow> (string \<Rightarrow> string) \<Rightarrow> string \<Rightarrow> duration \<Rightarrow> dialer result" where
  "FromURL parse lower raw timeout =
     (case parseURL parse raw of
        Inl e \<Rightarrow> Inl e
      | Inr u \<Rightarrow>
          (let scheme = to_lower lower (u_scheme u) in
           if scheme = ''socks5'' \<or> scheme = ''socks5h''
           then Inr (Socks5 (u_host u) (map_option (\<lambda>(user, password). (user, case password of None \<Rightarrow> [] | Some p \<Rightarrow> p)) (u_user u)) timeout)
           else if scheme = ''http'' \<or> scheme = ''https'' then Inr (Connect u timeout)
           else Inl (ErrOther (''unsupported proxy scheme '' @ u_scheme u))))"

text \<open>What \<open>Display\<close> shows depends on host and port alone.\<close>

lemma Display_credential_free:
  assumes "parse raw = Some u" and "parse raw' = Some (u\<lparr>u_user := user\<rparr>)"
  shows "Display parse raw' = Display parse raw"
  using assms by (simp add: Display_def parseURL_def)

text \<open>
  a proxy URL sealed for storage is read back unchanged under the same key, whatever the nonce, and a
  stored pair whose nonce has a wrong length or whose ciphertext is empty is refused rather than opened.
\<close>

theorem Encrypt_roundtrip:
  assumes "\<And>nonce p. length nonce = ae_nonce_size c \<Longrightarrow> ae_open c nonce (ae_seal c nonce p) = Inr p \<and> ae_seal c nonce p \<noteq> []"
    and "\<And>n nonce. random n = Inr nonce \<Longrightarrow> length nonce = n"
    and "Encrypt c random plaintext = Inr (ciphertext, nonce)"
  shows "Decrypt c ciphertext nonce = Inr plaintext
     \<and> (length other \<noteq> ae_nonce_size c \<longrightarrow> (\<exists>e. Decrypt c ciphertext other = Inl e)) \<and> (\<exists>e. Decrypt c [] nonce = Inl e)"
proof -
  have n: "random (ae_nonce_size c) = Inr nonce" "ciphertext = ae_seal c nonce plaintext"
    using assms(3) by (auto simp: Encrypt_def split: sum.splits)
  with assms(1) [OF assms(2) [OF n(1)], of plaintext] assms(2) [OF n(1)] show ?thesis by (simp add: Decrypt_def)
qed

definition demo_aead :: aead where
  "demo_aead = \<lparr>ae_nonce_size = 2, ae_seal = (\<lambda>n p. n @ rev p),
     ae_open = (\<lambda>n x. if take (length n) x = n then Inr (rev (drop (length n) x)) else Inl (ErrOther ''message authentication failed''))\<rparr>"

theorem Encrypt_roundtrip_witness: "Decrypt demo_aead ''nnba'' ''nn'' = Inr ''ab'' \<and> (\<exists>e. Decrypt demo_aead ''nnba'' ''n'' = Inl e)"
  using Encrypt_roundtrip [of demo_aead "\<lambda>n. Inr (replicate n (CHR ''n''))" "''ab''" "''nnba''" "''nn''" "''n''"]
  by (simp add: demo_aead_def Encrypt_def numeral_2_eq_2 length_0_conv [symmetric] del: length_0_conv)

end
