(* ===== verification/ApiSessions.thy ===== *)
theory ApiSessions
  imports Lifecycle Secrets
begin

text \<open>
  The session handlers of \<open>internal/api\<close> (\<open>errors.go\<close>, \<open>server.go\<close>, \<open>edit.go\<close>): request validation, the
  mapping of domain values to responses, and each handler as a function on the supervisor's state. A
  handler answers with an \<open>apiError\<close> or a response. What it meets while it runs is an argument: the fault
  plans of its statements, the clock, the new id, the random nonce, and the environment of the lifecycle
  call. Request modes are the strings of the request.
\<close>

subsection \<open>Errors\<close>

record api_error =
  ae_status :: int
  ae_code :: string
  ae_message :: string

type_synonym 'a response = "api_error + 'a"

definition invalidRequest :: api_error where
  "invalidRequest = \<lparr>ae_status = 400, ae_code = ''invalid_request'', ae_message = ''request is invalid''\<rparr>"
definition notFound :: api_error where
  "notFound = \<lparr>ae_status = 404, ae_code = ''not_found'', ae_message = ''session not found''\<rparr>"
definition sessionNotRunning :: api_error where
  "sessionNotRunning = \<lparr>ae_status = 409, ae_code = ''session_not_running'', ae_message = ''session is not running''\<rparr>"
definition sessionAlreadyRunning :: api_error where
  "sessionAlreadyRunning = \<lparr>ae_status = 409, ae_code = ''session_already_running'', ae_message = ''session is already running''\<rparr>"
definition internalError :: api_error where
  "internalError = \<lparr>ae_status = 500, ae_code = ''internal_error'', ae_message = ''internal server error''\<rparr>"
definition dependencyUnavailable :: api_error where
  "dependencyUnavailable = \<lparr>ae_status = 503, ae_code = ''dependency_unavailable'', ae_message = ''dependency unavailable''\<rparr>"

lemmas api_errors = invalidRequest_def notFound_def sessionNotRunning_def sessionAlreadyRunning_def internalError_def
  dependencyUnavailable_def

text \<open>
  \<open>writeError\<close>: the status and the JSON body; an error that is not an \<open>apiError\<close> (\<open>None\<close>) is reported as an
  internal one. The body is a struct of two fields in the order of their names.
\<close>

definition writeError :: "api_error option \<Rightarrow> int \<times> string" where
  "writeError e =
     (let v = (case e of Some a \<Rightarrow> a | None \<Rightarrow> internalError)
      in (ae_status v, json_object [(''code'', ae_code v), (''message'', ae_message v)] @ [CHR 0x0A]))"

definition requestErrorHandler :: "go_error \<Rightarrow> int \<times> string" where
  "requestErrorHandler e = writeError (Some invalidRequest)"

definition responseErrorHandler :: "api_error option \<Rightarrow> int \<times> string" where
  "responseErrorHandler e = writeError e"


subsection \<open>The server\<close>

text \<open>\<open>Server\<close>: which dependencies are present, the cipher, the defaults and the variant cap.\<close>

record server =
  sr_store :: bool
  sr_control :: bool
  sr_runStore :: bool
  sr_reader :: bool
  sr_cipher :: "aead option"
  sr_ProbeTarget :: string
  sr_DialTimeout :: duration
  sr_maxVariants :: int

definition defaultProbeTarget :: string where
  "defaultProbeTarget = ''https://speed.cloudflare.com/cdn-cgi/trace''"
definition defaultDialTimeout :: duration where "defaultDialTimeout = 10 * second"
definition maxPersistedInteger :: int where "maxPersistedInteger = 2147483647"

definition NewServer :: "bool \<Rightarrow> bool \<Rightarrow> aead option \<Rightarrow> string \<Rightarrow> duration \<Rightarrow> bool \<Rightarrow> int \<Rightarrow> bool list \<Rightarrow> server" where
  "NewServer store control cipher probeTarget dialTimeout runStore maxVariants readers =
     \<lparr>sr_store = store, sr_control = control, sr_runStore = runStore,
      sr_reader = (case readers of [] \<Rightarrow> False | r # _ \<Rightarrow> r), sr_cipher = cipher,
      sr_ProbeTarget = (if probeTarget = [] then defaultProbeTarget else probeTarget),
      sr_DialTimeout = (if dialTimeout = 0 then defaultDialTimeout else dialTimeout),
      sr_maxVariants = (if maxVariants \<le> 0 then 128 else maxVariants)\<rparr>"


subsection \<open>Validation\<close>

definition defaultProbes :: "string \<Rightarrow> int" where
  "defaultProbes m = (if m = ''pool'' then 8 else 3)"

definition validProbeTarget :: "(string \<Rightarrow> url option) \<Rightarrow> string \<Rightarrow> bool" where
  "validProbeTarget parse raw =
     (case parse raw of None \<Rightarrow> False
      | Some u \<Rightarrow> u_host u \<noteq> [] \<and> (u_scheme u = ''http'' \<or> u_scheme u = ''https''))"

definition validPersistedInteger :: "int \<Rightarrow> int \<Rightarrow> bool" where
  "validPersistedInteger value minimum \<longleftrightarrow> value \<ge> minimum \<and> value \<le> maxPersistedInteger"

definition validOptionalPersistedInteger :: "int option \<Rightarrow> bool" where
  "validOptionalPersistedInteger v = (case v of None \<Rightarrow> True | Some n \<Rightarrow> validPersistedInteger n 1)"

definition secondsPointer :: "int option \<Rightarrow> duration option" where
  "secondsPointer v = map_option (\<lambda>n. wrap64 (n * second)) v"

text \<open>The pattern \<open>^[A-Za-z]{2}$\<close>, then upper case.\<close>

definition ascii_letter :: "char \<Rightarrow> bool" where
  "ascii_letter c \<longleftrightarrow> 65 \<le> byte c \<and> byte c \<le> 90 \<or> 97 \<le> byte c \<and> byte c \<le> 122"

definition normalizedTargetCountry :: "string option \<Rightarrow> string option" where
  "normalizedTargetCountry v =
     (case v of None \<Rightarrow> Some []
      | Some s \<Rightarrow> if s = [] then Some []
                  else if length s = 2 \<and> list_all ascii_letter s then Some (map ascii_upper s) else None)"

text \<open>\<open>CreateSessionRequest\<close>; a run request shares these fields but the proxy.\<close>

record create_request =
  rq_Name :: string
  rq_Proxy :: "string option"
  rq_Mode :: string
  rq_CadenceSeconds :: int
  rq_ProbesPerSample :: "int option"
  rq_ProbeTarget :: "string option"
  rq_DialTimeoutMs :: "int option"
  rq_MaxSamples :: "int option"
  rq_MaxDurationSeconds :: "int option"
  rq_TargetCountry :: "string option"

definition valid_name :: "string \<Rightarrow> bool" where
  "valid_name name \<longleftrightarrow> name \<noteq> [] \<and> rune_count name \<le> 100"

text \<open>What both create handlers compute from a request: probes, probe target, dial timeout, country.\<close>

record settings =
  st_probes :: int
  st_probeTarget :: string
  st_dialTimeout :: duration
  st_country :: string

definition sampling_settings :: "(string \<Rightarrow> url option) \<Rightarrow> server \<Rightarrow> create_request \<Rightarrow> settings response" where
  "sampling_settings parse S body =
     (let probes = (case rq_ProbesPerSample body of None \<Rightarrow> defaultProbes (rq_Mode body) | Some n \<Rightarrow> n) in
      if probes < 1 \<or> probes > 255 then Inl invalidRequest
      else let probeTarget = (case rq_ProbeTarget body of None \<Rightarrow> sr_ProbeTarget S | Some t \<Rightarrow> t) in
      if \<not> validProbeTarget parse probeTarget then Inl invalidRequest
      else if \<exists>n \<in> set_option (rq_DialTimeoutMs body). \<not> validPersistedInteger n 100 then Inl invalidRequest
      else let dialTimeout = (case rq_DialTimeoutMs body of None \<Rightarrow> sr_DialTimeout S | Some n \<Rightarrow> wrap64 (n * millisecond)) in
      if dialTimeout < 100 * millisecond \<or> dialTimeout > maxPersistedInteger * millisecond
         \<or> \<not> validOptionalPersistedInteger (rq_MaxSamples body) \<or> \<not> validOptionalPersistedInteger (rq_MaxDurationSeconds body)
      then Inl invalidRequest
      else (case normalizedTargetCountry (rq_TargetCountry body) of
              None \<Rightarrow> Inl invalidRequest
            | Some country \<Rightarrow> Inr \<lparr>st_probes = probes, st_probeTarget = probeTarget, st_dialTimeout = dialTimeout, st_country = country\<rparr>))"

definition mode_of :: "string \<Rightarrow> mode" where
  "mode_of m = (if m = ''pool'' then ModePool else ModeSticky)"

text \<open>The session value both create handlers build.\<close>

definition new_session :: "uuid \<Rightarrow> string \<Rightarrow> string \<Rightarrow> string \<Rightarrow> string \<Rightarrow> create_request \<Rightarrow> settings \<Rightarrow> time \<Rightarrow> session" where
  "new_session sid name ciphertext nonce display body st now =
     \<lparr>s_ID = sid, s_Name = name, ProxyCiphertext = ciphertext, ProxyNonce = nonce, ProxyDisplay = display,
      s_Mode = mode_of (rq_Mode body), Cadence = wrap64 (rq_CadenceSeconds body * second), ProbesPerSample = st_probes st,
      ProbeTarget = st_probeTarget st, DialTimeout = st_dialTimeout st, MaxSamples = rq_MaxSamples body,
      MaxDuration = secondsPointer (rq_MaxDurationSeconds body), s_Status = StatusRunning,
      s_TargetCountry = st_country st, SequenceOffset = 0, s_Snapshot = zero_snapshot, s_CreatedAt = now,
      StartedAt = Some now, StoppedAt = None\<rparr>"


subsection \<open>Responses\<close>

record session_view =
  w_Id :: uuid
  w_Name :: string
  w_ProxyDisplay :: string
  w_ProxyUsername :: "string option"
  w_Mode :: mode
  w_Status :: status
  w_CadenceSeconds :: int
  w_ProbesPerSample :: int
  w_ProbeTarget :: string
  w_DialTimeoutMs :: int
  w_MaxSamples :: "int option"
  w_MaxDurationSeconds :: "int option"
  w_SamplesTaken :: int
  w_ProbesOk :: int
  w_ProbesTotal :: int
  w_DistinctIps :: int
  w_CreatedAt :: time
  w_StartedAt :: "time option"
  w_StoppedAt :: "time option"
  w_LastSampleAt :: "time option"
  w_LastRttMs :: "int option"
  w_SuccessRate :: rat
  w_LastPrimaryIp :: "string option"
  w_LastPrimaryCategory :: "string option"
  w_LastError :: "string option"
  w_TargetCountry :: "string option"

definition optionalString :: "string \<Rightarrow> string option" where
  "optionalString value = (if value = [] then None else Some value)"

definition api_durationSeconds :: "duration option \<Rightarrow> int option" where
  "api_durationSeconds v = map_option (\<lambda>d. go_div d second) v"

definition api_durationMillis :: "duration option \<Rightarrow> int option" where
  "api_durationMillis v = map_option (\<lambda>d. go_div d millisecond) v"

definition api_mapSession :: "session \<Rightarrow> session_view" where
  "api_mapSession value =
     \<lparr>w_Id = s_ID value, w_Name = s_Name value, w_ProxyDisplay = ProxyDisplay value, w_ProxyUsername = None,
      w_Mode = s_Mode value, w_Status = s_Status value, w_CadenceSeconds = go_div (Cadence value) second,
      w_ProbesPerSample = ProbesPerSample value, w_ProbeTarget = ProbeTarget value,
      w_DialTimeoutMs = go_div (DialTimeout value) millisecond, w_MaxSamples = MaxSamples value,
      w_MaxDurationSeconds = api_durationSeconds (MaxDuration value), w_SamplesTaken = SamplesTaken (s_Snapshot value),
      w_ProbesOk = sn_ProbesOK (s_Snapshot value), w_ProbesTotal = ProbesTotal (s_Snapshot value),
      w_DistinctIps = sn_DistinctIPs (s_Snapshot value), w_CreatedAt = s_CreatedAt value, w_StartedAt = StartedAt value,
      w_StoppedAt = StoppedAt value, w_LastSampleAt = LastSampleAt (s_Snapshot value),
      w_LastRttMs = api_durationMillis (LastRTT (s_Snapshot value)),
      w_SuccessRate = (if ProbesTotal (s_Snapshot value) > 0
        then of_int (sn_ProbesOK (s_Snapshot value)) / of_int (ProbesTotal (s_Snapshot value)) else 0),
      w_LastPrimaryIp = (if is_valid (LastPrimaryIP (s_Snapshot value)) then Some (addr_str (LastPrimaryIP (s_Snapshot value))) else None),
      w_LastPrimaryCategory = optionalString (LastCategory (s_Snapshot value)),
      w_LastError = optionalString (LastError (s_Snapshot value)),
      w_TargetCountry = optionalString (s_TargetCountry value)\<rparr>"

subsection \<open>Request bodies\<close>

text \<open>
  The checks of the raw JSON body. \<open>decode\<close> stands for the first \<open>Decode\<close> of the JSON decoder: None is an error
  or a JSON \<open>null\<close>, otherwise the members of the object (with their raw values) and the rest of the body.
\<close>

type_synonym json_decode = "string \<Rightarrow> ((string, string) gomap \<times> string) option"

definition blank_json :: "string \<Rightarrow> bool" where
  "blank_json s \<longleftrightarrow> list_all (\<lambda>c. byte c = 32 \<or> byte c = 9 \<or> byte c = 13 \<or> byte c = 10) s"

definition json_null :: "string \<Rightarrow> bool" where
  "json_null value \<longleftrightarrow> trim_space value = ''null''"

definition common_fields :: "string list" where
  "common_fields = [''mode'', ''cadence_seconds'', ''max_samples'', ''max_duration_seconds'', ''target_country'']"

definition not_null_fields :: "string list" where
  "not_null_fields = [''probes_per_sample'', ''probe_target'', ''dial_timeout_ms'']"

definition decode_body :: "json_decode \<Rightarrow> string \<Rightarrow> (string, string) gomap option" where
  "decode_body decode raw =
     (case decode raw of None \<Rightarrow> None | Some (fs, rest) \<Rightarrow> if blank_json rest then Some fs else None)"

definition validateCreateSessionJSON :: "json_decode \<Rightarrow> string \<Rightarrow> unit response" where
  "validateCreateSessionJSON decode raw =
     (case decode_body decode raw of
        None \<Rightarrow> Inl invalidRequest
      | Some fs \<Rightarrow>
          if list_all (\<lambda>(name, value). name = ''name'' \<or> name = ''proxy'' \<or> name \<in> set common_fields
               \<or> name \<in> set not_null_fields \<and> \<not> json_null value) fs
          then Inr () else Inl invalidRequest)"

definition validateEditJSON :: "json_decode \<Rightarrow> string \<Rightarrow> unit response" where
  "validateEditJSON decode raw =
     (case decode_body decode raw of
        None \<Rightarrow> Inl invalidRequest
      | Some fs \<Rightarrow> if list_all (\<lambda>(name, value). name = ''name'' \<and> \<not> json_null value) fs then Inr () else Inl invalidRequest)"

text \<open>\<open>object\<close> stands for \<open>json.Unmarshal\<close> into a map of raw messages; a JSON \<open>null\<close> gives the nil map.\<close>

definition validateAxesJSON :: "(string \<Rightarrow> (string, string) gomap option) \<Rightarrow> string \<Rightarrow> unit response" where
  "validateAxesJSON object raw =
     (if json_null raw then Inl invalidRequest
      else (case object raw of
        None \<Rightarrow> Inl invalidRequest
      | Some axes \<Rightarrow>
          if list_all (\<lambda>(_, spec). case object spec of
               None \<Rightarrow> False
             | Some axisFields \<Rightarrow> list_all (\<lambda>(key, _). key \<in> {''kind'', ''values'', ''from'', ''to'', ''count'', ''length''}) axisFields) axes
          then Inr () else Inl invalidRequest))"

definition validateCreateRunJSON :: "(string \<Rightarrow> (string, string) gomap option) \<Rightarrow> json_decode \<Rightarrow> string \<Rightarrow> unit response" where
  "validateCreateRunJSON object decode raw =
     (case decode_body decode raw of
        None \<Rightarrow> Inl invalidRequest
      | Some fs \<Rightarrow>
          if list_all (\<lambda>(name, value). name = ''name'' \<or> name = ''template'' \<or> name \<in> set common_fields
               \<or> name \<in> set not_null_fields \<and> \<not> json_null value
               \<or> name = ''axes'' \<and> validateAxesJSON object value = Inr ()) fs
          then Inr () else Inl invalidRequest)"

definition maxCreateSessionBodyBytes :: int where "maxCreateSessionBodyBytes = 2 ^ 20"

text \<open>Reading the body fails when the connection does or when it is longer than the cap.\<close>

definition readCappedBody :: "string result \<Rightarrow> string response" where
  "readCappedBody body =
     (case body of Inl _ \<Rightarrow> Inl invalidRequest
      | Inr raw \<Rightarrow> if int (length raw) > maxCreateSessionBodyBytes then Inl invalidRequest else Inr raw)"

definition validateRequestBody ::
  "(string \<Rightarrow> (string, string) gomap option) \<Rightarrow> json_decode \<Rightarrow> string \<Rightarrow> string \<Rightarrow> string result \<Rightarrow> string result response" where
  "validateRequestBody object decode http_method path body =
     (case (if http_method = ''POST'' \<and> path = ''/api/sessions'' then Some (validateCreateSessionJSON decode)
            else if http_method = ''POST'' \<and> path = ''/api/runs'' then Some (validateCreateRunJSON object decode)
            else if http_method = ''PATCH'' \<and> (prefix ''/api/sessions/'' path \<or> prefix ''/api/runs/'' path) then Some (validateEditJSON decode)
            else None) of
        None \<Rightarrow> Inr body
      | Some validate \<Rightarrow>
          (case readCappedBody body of
             Inl e \<Rightarrow> Inl e
           | Inr raw \<Rightarrow> (case validate raw of Inl e \<Rightarrow> Inl e | Inr _ \<Rightarrow> Inr (Inr raw))))"


subsection \<open>Creating a session\<close>

text \<open>
  What a create request meets: the nonce, the new id, the clock, the statements of \<open>Create\<close>, the start of
  its worker, and what the clean-up after a failed start meets.
\<close>

record create_env =
  ce_random :: "nat \<Rightarrow> string result"
  ce_id :: uuid
  ce_now :: time
  ce_create :: fault_plan
  ce_waiting :: "go_error option"
  ce_start :: start_env
  ce_stop :: fault_plan
  ce_later :: time
  ce_delete :: fault_plan

definition valid_request :: "create_request \<Rightarrow> bool" where
  "valid_request body \<longleftrightarrow> valid_name (trim_space (rq_Name body)) \<and> validPersistedInteger (rq_CadenceSeconds body) 1
     \<and> (rq_Mode body = ''sticky'' \<or> rq_Mode body = ''pool'')"

definition store_and_start :: "create_env \<Rightarrow> session \<Rightarrow> supervisor \<Rightarrow> supervisor \<times> session_view response" where
  "store_and_start env v s =
     (case Create (ce_create env) (sv_store s) v of
        (d, Inl _) \<Rightarrow> (s\<lparr>sv_store := d\<rparr>, Inl internalError)
      | (d, Inr created) \<Rightarrow>
     (case Start (ce_waiting env) (ce_start env) (s_ID created) (s\<lparr>sv_store := d\<rparr>) of
        (s1, None) \<Rightarrow> (s1, Inr (api_mapSession created))
      | (s1, Some _) \<Rightarrow>
     (case Stop (ce_stop env) (sv_store s1) (s_ID created) (ce_later env) of
        (d2, None) \<Rightarrow> (s1\<lparr>sv_store := d2\<rparr>, Inl internalError)
      | (d2, Some _) \<Rightarrow> (s1\<lparr>sv_store := fst (Delete (ce_delete env) d2 (s_ID created))\<rparr>, Inl internalError))))"

definition CreateSession ::
  "(string \<Rightarrow> url option) \<Rightarrow> server \<Rightarrow> create_env \<Rightarrow> create_request option \<Rightarrow> supervisor \<Rightarrow> supervisor \<times> session_view response" where
  "CreateSession parse S env request s =
     (case request of
        None \<Rightarrow> (s, Inl invalidRequest)
      | Some body \<Rightarrow>
     (case rq_Proxy body of
        None \<Rightarrow> (s, Inl invalidRequest)
      | Some proxy \<Rightarrow>
     if proxy = [] \<or> \<not> valid_request body then (s, Inl invalidRequest)
     else (case sampling_settings parse S body of
        Inl e \<Rightarrow> (s, Inl e)
      | Inr st \<Rightarrow>
     (case Display parse proxy of
        Inl _ \<Rightarrow> (s, Inl invalidRequest)
      | Inr display \<Rightarrow>
     (case sr_cipher S of
        None \<Rightarrow> (s, Inl internalError)
      | Some c \<Rightarrow>
     if \<not> sr_store S \<or> \<not> sr_control S then (s, Inl internalError)
     else (case Encrypt c (ce_random env) proxy of
        Inl _ \<Rightarrow> (s, Inl internalError)
      | Inr (ciphertext, nonce) \<Rightarrow>
          store_and_start env
            (new_session (ce_id env) (trim_space (rq_Name body)) ciphertext nonce display body st (ce_now env)) s))))))"


subsection \<open>The other handlers\<close>

definition ListSessions :: "server \<Rightarrow> fault_plan \<Rightarrow> supervisor \<Rightarrow> session_view list response" where
  "ListSessions S f s =
     (if \<not> sr_store S then Inl internalError
      else (case Sessions f (sv_store s) of
        Inl _ \<Rightarrow> Inl internalError
      | Inr vs \<Rightarrow> Inr (map api_mapSession vs)))"

definition userinfo_name :: "url \<Rightarrow> string" where
  "userinfo_name u = (case u_user u of None \<Rightarrow> [] | Some (name, _) \<Rightarrow> name)"

definition proxy_username :: "(string \<Rightarrow> url option) \<Rightarrow> server \<Rightarrow> session \<Rightarrow> string option" where
  "proxy_username parse S v =
     (case sr_cipher S of None \<Rightarrow> None
      | Some c \<Rightarrow>
     (case Decrypt c (ProxyCiphertext v) (ProxyNonce v) of Inl _ \<Rightarrow> None
      | Inr plaintext \<Rightarrow>
     (case parse plaintext of None \<Rightarrow> None
      | Some u \<Rightarrow> optionalString (userinfo_name u))))"

definition session_by_id :: "(string \<Rightarrow> url option) \<Rightarrow> server \<Rightarrow> fault_plan \<Rightarrow> uuid \<Rightarrow> supervisor \<Rightarrow> session_view response" where
  "session_by_id parse S f sid s =
     (if \<not> sr_store S then Inl internalError
      else (case SessionByID f (sv_store s) sid of
        Inl e \<Rightarrow> Inl (if errors_is e ErrNotFound then notFound else internalError)
      | Inr v \<Rightarrow> Inr ((api_mapSession v)\<lparr>w_ProxyUsername := proxy_username parse S v\<rparr>)))"

text \<open>The error of a lifecycle call, as the handlers of stopping and deleting answer it.\<close>

definition lifecycle_error :: "go_error \<Rightarrow> api_error" where
  "lifecycle_error e =
     (if errors_is e ErrNotFound then notFound else if errors_is e ErrNotRunning then sessionNotRunning else internalError)"

definition StopSession :: "server \<Rightarrow> go_error option \<Rightarrow> stop_env \<Rightarrow> start_env \<Rightarrow> uuid \<Rightarrow> supervisor \<Rightarrow> supervisor \<times> unit response" where
  "StopSession S waiting env restore sid s =
     (if \<not> sr_control S then (s, Inl internalError)
      else (case SupStop waiting env restore sid s of
        (s', None) \<Rightarrow> (s', Inr ())
      | (s', Some e) \<Rightarrow> (s', Inl (lifecycle_error e))))"

definition ReenableSession ::
  "server \<Rightarrow> fault_plan \<Rightarrow> time \<Rightarrow> go_error option \<Rightarrow> start_env \<Rightarrow> fault_plan \<Rightarrow> uuid \<Rightarrow> supervisor \<Rightarrow> supervisor \<times> session_view response" where
  "ReenableSession S f now waiting env reads sid s =
     (if \<not> sr_control S \<or> \<not> sr_store S then (s, Inl internalError)
      else (case SupReenable f now waiting env sid s of
        (s', None) \<Rightarrow> (s', case SessionByID reads (sv_store s') sid of Inl _ \<Rightarrow> Inl internalError | Inr v \<Rightarrow> Inr (api_mapSession v))
      | (s', Some e) \<Rightarrow> (s', Inl (if errors_is e ErrNotFound then notFound
                                 else if errors_is e ErrAlreadyRunning then sessionAlreadyRunning else internalError))))"

definition api_DeleteSession :: "server \<Rightarrow> go_error option \<Rightarrow> delete_env \<Rightarrow> uuid \<Rightarrow> supervisor \<Rightarrow> supervisor \<times> unit response" where
  "api_DeleteSession S waiting env sid s =
     (if \<not> sr_control S then (s, Inl internalError)
      else (case SupDelete waiting env sid s of
        (s', None) \<Rightarrow> (s', Inr ())
      | (s', Some e) \<Rightarrow> (s', Inl (lifecycle_error e))))"

definition editedName :: "string option \<Rightarrow> string response" where
  "editedName raw =
     (case raw of None \<Rightarrow> Inl invalidRequest
      | Some r \<Rightarrow> let name = trim_space r in
          if name = [] \<or> rune_count name > 100 then Inl invalidRequest else Inr name)"

text \<open>
  \<open>EditSession\<close>: the body, if there is one, is the \<open>name\<close> member. It does not check that the store is there;
  None is the panic of the nil call.
\<close>

definition EditSession ::
  "server \<Rightarrow> fault_plan \<Rightarrow> fault_plan \<Rightarrow> uuid \<Rightarrow> string option option \<Rightarrow> supervisor \<Rightarrow> (supervisor \<times> session_view response) option" where
  "EditSession S f reads sid request s =
     (case request of
        None \<Rightarrow> Some (s, Inl invalidRequest)
      | Some raw \<Rightarrow>
     (case editedName raw of
        Inl e \<Rightarrow> Some (s, Inl e)
      | Inr name \<Rightarrow>
     if \<not> sr_store S then None
     else (case Rename f (sv_store s) sid name of
        (d, Some e) \<Rightarrow> Some (s\<lparr>sv_store := d\<rparr>, Inl (if errors_is e ErrNotFound then notFound else internalError))
      | (d, None) \<Rightarrow>
          Some (s\<lparr>sv_store := d\<rparr>,
            case SessionByID reads d sid of
              Inl e \<Rightarrow> Inl (if errors_is e ErrNotFound then notFound else internalError)
            | Inr v \<Rightarrow> Inr (api_mapSession v)))))"


subsection \<open>Accepted requests\<close>

text \<open>The bounds every accepted setting keeps.\<close>

lemma sampling_settings_bounds:
  assumes "sampling_settings parse S body = Inr st"
  shows "1 \<le> st_probes st" "st_probes st \<le> 255" "100 \<le> go_div (st_dialTimeout st) millisecond"
    "go_div (st_dialTimeout st) millisecond \<le> maxPersistedInteger"
    "rq_DialTimeoutMs body = Some n \<Longrightarrow> go_div (st_dialTimeout st) millisecond = n"
    "rq_MaxSamples body = Some m \<Longrightarrow> 1 \<le> m \<and> m \<le> maxPersistedInteger"
    "rq_MaxDurationSeconds body = Some k \<Longrightarrow> 1 \<le> k \<and> k \<le> maxPersistedInteger"
    "st_probes st = (case rq_ProbesPerSample body of None \<Rightarrow> defaultProbes (rq_Mode body) | Some p \<Rightarrow> p)"
    "st_probeTarget st = (case rq_ProbeTarget body of None \<Rightarrow> sr_ProbeTarget S | Some t \<Rightarrow> t)"
    "normalizedTargetCountry (rq_TargetCountry body) = Some (st_country st)"
proof -
  define d where "d = st_dialTimeout st"
  have ms: "0 < millisecond" by (simp add: millisecond_def)
  have d: "100 * millisecond \<le> d" "d \<le> maxPersistedInteger * millisecond"
    and dn: "\<And>n. rq_DialTimeoutMs body = Some n \<Longrightarrow> 100 \<le> n \<and> n \<le> maxPersistedInteger \<and> d = wrap64 (n * millisecond)"
    and opt: "validOptionalPersistedInteger (rq_MaxSamples body)" "validOptionalPersistedInteger (rq_MaxDurationSeconds body)"
    and rest: "1 \<le> st_probes st" "st_probes st \<le> 255"
      "st_probes st = (case rq_ProbesPerSample body of None \<Rightarrow> defaultProbes (rq_Mode body) | Some p \<Rightarrow> p)"
      "st_probeTarget st = (case rq_ProbeTarget body of None \<Rightarrow> sr_ProbeTarget S | Some t \<Rightarrow> t)"
      "normalizedTargetCountry (rq_TargetCountry body) = Some (st_country st)"
    using assms by (auto simp: sampling_settings_def Let_def validPersistedInteger_def d_def split: if_splits option.splits)
  have "0 \<le> d" using d(1) ms by (simp add: millisecond_def)
  then have g: "go_div d millisecond = d div millisecond" using ms by (simp add: go_div_nonneg)
  show "100 \<le> go_div (st_dialTimeout st) millisecond" "go_div (st_dialTimeout st) millisecond \<le> maxPersistedInteger"
    using zdiv_mono1 [OF d(1) ms] zdiv_mono1 [OF d(2) ms] ms by (simp_all add: g flip: d_def)
  show "go_div (st_dialTimeout st) millisecond = n" if "rq_DialTimeoutMs body = Some n"
  proof -
    have "int64 (n * millisecond)" using dn [OF that] by (simp add: int64_def millisecond_def maxPersistedInteger_def)
    with dn [OF that] have "d = n * millisecond" by simp
    then have "d div millisecond = n" using ms by simp
    then show ?thesis using g by (simp add: d_def)
  qed
  show "rq_MaxSamples body = Some m \<Longrightarrow> 1 \<le> m \<and> m \<le> maxPersistedInteger"
    "rq_MaxDurationSeconds body = Some k \<Longrightarrow> 1 \<le> k \<and> k \<le> maxPersistedInteger"
    using opt by (simp_all add: validOptionalPersistedInteger_def validPersistedInteger_def)
  show "1 \<le> st_probes st" "st_probes st \<le> 255"
    "st_probes st = (case rq_ProbesPerSample body of None \<Rightarrow> defaultProbes (rq_Mode body) | Some p \<Rightarrow> p)"
    "st_probeTarget st = (case rq_ProbeTarget body of None \<Rightarrow> sr_ProbeTarget S | Some t \<Rightarrow> t)"
    "normalizedTargetCountry (rq_TargetCountry body) = Some (st_country st)" using rest by simp_all
qed

text \<open>Numbers a request may carry, as 32-bit columns.\<close>

lemma persisted_int32: "1 \<le> n \<Longrightarrow> n \<le> maxPersistedInteger \<Longrightarrow> wrap32 n = n"
  by (rule wrap32_id) (simp add: int32_def maxPersistedInteger_def)

lemma seconds_roundtrip:
  assumes "1 \<le> n" and "n \<le> maxPersistedInteger"
  shows "durationSeconds (wrap64 (n * second)) = n"
proof -
  have "int64 (n * second)" using assms by (simp add: int64_def second_def maxPersistedInteger_def)
  moreover have "go_div (n * second) second = n" using assms by (simp add: go_div_nonneg second_def)
  ultimately show ?thesis using assms by (simp add: durationSeconds_def persisted_int32)
qed

definition echoed :: "server \<Rightarrow> create_request \<Rightarrow> session \<Rightarrow> bool" where
  "echoed S body v \<longleftrightarrow>
     go_div (Cadence v) second = rq_CadenceSeconds body
   \<and> ProbesPerSample v = (case rq_ProbesPerSample body of None \<Rightarrow> defaultProbes (rq_Mode body) | Some p \<Rightarrow> p)
   \<and> ProbeTarget v = (case rq_ProbeTarget body of None \<Rightarrow> sr_ProbeTarget S | Some t \<Rightarrow> t)
   \<and> (case rq_DialTimeoutMs body of None \<Rightarrow> True | Some n \<Rightarrow> go_div (DialTimeout v) millisecond = n)
   \<and> MaxSamples v = rq_MaxSamples body \<and> api_durationSeconds (MaxDuration v) = rq_MaxDurationSeconds body
   \<and> normalizedTargetCountry (rq_TargetCountry body) = Some (s_TargetCountry v)
   \<and> s_Mode v = mode_of (rq_Mode body) \<and> s_Snapshot v = zero_snapshot"

text \<open>What an accepted request makes satisfies the table's constraints, and is read back as requested.\<close>

lemma new_session_typed:
  fixes sid name ciphertext nonce display now
  assumes "sampling_settings parse S body = Inr st" and "validPersistedInteger (rq_CadenceSeconds body) 1"
  defines "v \<equiv> new_session sid name ciphertext nonce display body st now"
  shows "row_ok (insertSessionParams v)" and "echoed S body (mapSession (insertSessionParams v) [])"
proof -
  note b = sampling_settings_bounds [OF assms(1)]
  have cad: "1 \<le> rq_CadenceSeconds body" "rq_CadenceSeconds body \<le> maxPersistedInteger"
    using assms(2) by (simp_all add: validPersistedInteger_def)
  have ms: "map_option wrap32 (rq_MaxSamples body) = rq_MaxSamples body"
    using b(6) by (cases "rq_MaxSamples body") (auto simp: persisted_int32)
  have md: "map_option durationSeconds (secondsPointer (rq_MaxDurationSeconds body)) = rq_MaxDurationSeconds body"
    using b(7) by (cases "rq_MaxDurationSeconds body") (auto simp: secondsPointer_def seconds_roundtrip)
  have dt: "durationMillis32 (st_dialTimeout st) = go_div (st_dialTimeout st) millisecond"
    using b(3,4) by (simp add: durationMillis32_def persisted_int32)
  have pr: "wrap32 (st_probes st) = st_probes st" using b(1,2) by (simp add: int32_def)
  have z: "wrap32 0 = 0" "int32 0" by (simp_all add: int32_def)
  have row: "c_cadence_seconds (insertSessionParams v) = rq_CadenceSeconds body"
    "c_probes_per_sample (insertSessionParams v) = st_probes st"
    "c_dial_timeout_ms (insertSessionParams v) = go_div (st_dialTimeout st) millisecond"
    "c_max_samples (insertSessionParams v) = rq_MaxSamples body"
    "c_max_duration_seconds (insertSessionParams v) = rq_MaxDurationSeconds body"
    using seconds_roundtrip [OF cad] ms md dt pr by (simp_all add: insertSessionParams_def v_def new_session_def)
  have zero: "c_last_primary_ip (insertSessionParams v) = NoAddr" "c_sequence_offset (insertSessionParams v) = 0"
    "c_samples_taken (insertSessionParams v) = 0"
    by (simp_all add: insertSessionParams_def v_def new_session_def zero_snapshot_def z)
  show "row_ok (insertSessionParams v)"
    using row zero cad b(1-3,6,7) z by (auto simp: row_ok_def inet_ok_def)
  have whole_units: "go_div (n * second) second = n" "go_div (n * millisecond) millisecond = n" if "0 \<le> n" for n
    using that by (simp_all add: go_div_nonneg second_def millisecond_def)
  let ?w = "mapSession (insertSessionParams v) []"
  have "api_durationSeconds (MaxDuration ?w) = rq_MaxDurationSeconds body"
    using b(7) row(5) whole_units(1) by (cases "rq_MaxDurationSeconds body") (simp_all add: mapSession_def api_durationSeconds_def)
  moreover have "go_div (Cadence ?w) second = rq_CadenceSeconds body"
    using row(1) cad whole_units(1) by (simp add: mapSession_def)
  moreover have "go_div (DialTimeout ?w) millisecond = go_div (st_dialTimeout st) millisecond"
    using row(3) b(3) whole_units(2) by (simp add: mapSession_def)
  moreover have "s_Snapshot ?w = zero_snapshot"
    by (simp add: mapSession_def insertSessionParams_def v_def new_session_def zero_snapshot_def z(1) nullif_empty_def stringValue_def)
  moreover have "ProbesPerSample ?w = st_probes st" "MaxSamples ?w = rq_MaxSamples body"
    using row(2,4) by (simp_all add: mapSession_def)
  moreover have "ProbeTarget ?w = st_probeTarget st" "s_TargetCountry ?w = st_country st" "s_Mode ?w = mode_of (rq_Mode body)"
    by (simp_all add: mapSession_def insertSessionParams_def v_def new_session_def)
  ultimately show "echoed S body ?w"
    unfolding echoed_def using b(5,8-10) by (simp split: option.split)
qed


subsection \<open>Creating a session\<close>

lemma new_session_simps [simp]:
  "s_ID (new_session sid name c n display body st now) = sid"
  "s_Snapshot (new_session sid name c n display body st now) = zero_snapshot"
  "s_Status (new_session sid name c n display body st now) = StatusRunning"
  "ProxyCiphertext (new_session sid name c n display body st now) = c"
  "ProxyNonce (new_session sid name c n display body st now) = n"
  "ProxyDisplay (new_session sid name c n display body st now) = display"
  "s_Name (new_session sid name c n display body st now) = name"
  by (simp_all add: new_session_def)

lemma insertSessionParams_simps [simp]:
  "c_id (insertSessionParams v) = s_ID v" "c_status (insertSessionParams v) = s_Status v" "c_run_id (insertSessionParams v) = None"
  "c_last_primary_ip (insertSessionParams v) = LastPrimaryIP (s_Snapshot v)"
  "c_proxy_ciphertext (insertSessionParams v) = ProxyCiphertext v" "c_proxy_nonce (insertSessionParams v) = ProxyNonce v"
  "c_proxy_display (insertSessionParams v) = ProxyDisplay v" "c_name (insertSessionParams v) = s_Name v"
  by (simp_all add: insertSessionParams_def)

lemma insert_new_row:
  assumes "insert_row r d = Inr d'"
  shows "find_session d (c_id r) = None" "find_session d' = (find_session d)(c_id r \<mapsto> r)"
  using assms by (auto simp: insert_row_def find_session_def find_snoc_session fun_eq_iff split: if_splits option.splits)

text \<open>The three outcomes of \<open>Create\<close>: nothing inserted, inserted and read back, inserted and not read back.\<close>

lemma Create_outcome:
  assumes "Create f d v = (d', r)" and "s_Snapshot v = zero_snapshot"
  shows "(d' = d \<and> (\<exists>e. r = Inl e))
    \<or> (find_session d (s_ID v) = None \<and> find_session d' = (find_session d)(s_ID v \<mapsto> insertSessionParams v)
       \<and> (case r of Inl _ \<Rightarrow> f 1 \<noteq> None | Inr created \<Rightarrow> created = mapSession (insertSessionParams v) []))"
proof (cases "qInsertSession f (insertSessionParams v) d")
  case (Inl e)
  with assms(1) show ?thesis by (auto simp: Create_def)
next
  case (Inr d1)
  then have "insert_row (insertSessionParams v) d = Inr d1" by (simp split: option.splits)
  note new = insert_new_row [OF this]
  have cat: "last_category d1 (insertSessionParams v) = []"
    using assms(2) by (simp add: last_category_def zero_snapshot_def)
  have "d' = d1" "r = SessionByID (\<lambda>k. f (Suc k)) d1 (s_ID v)" using assms(1) Inr by (auto simp: Create_def)
  with new cat show ?thesis by (auto simp: SessionByID_def split: option.splits)
qed


definition demo_parse_url :: "string \<Rightarrow> url option" where
  "demo_parse_url raw =
     (if raw = ''https://t'' then Some \<lparr>u_scheme = ''https'', u_host = ''t'', u_hostname = ''t'', u_port = [], u_user = None\<rparr>
      else if raw = ''socks5://u:p@h:1''
      then Some \<lparr>u_scheme = ''socks5'', u_host = ''h:1'', u_hostname = ''h'', u_port = ''1'', u_user = Some (''u'', Some ''p'')\<rparr>
      else None)"

definition demo_server :: server where
  "demo_server = NewServer True True (Some demo_aead) ''https://t'' 0 True 0 [True]"

definition demo_request :: create_request where
  "demo_request = \<lparr>rq_Name = ''s'', rq_Proxy = Some ''socks5://u:p@h:1'', rq_Mode = ''pool'', rq_CadenceSeconds = 60,
     rq_ProbesPerSample = None, rq_ProbeTarget = None, rq_DialTimeoutMs = Some 2147483647, rq_MaxSamples = Some 5,
     rq_MaxDurationSeconds = None, rq_TargetCountry = Some ''de''\<rparr>"

definition demo_settings :: settings where
  "demo_settings = \<lparr>st_probes = 8, st_probeTarget = ''https://t'', st_dialTimeout = 2147483647 * millisecond, st_country = ''DE''\<rparr>"

lemma demo_settings_of: "sampling_settings demo_parse_url demo_server demo_request = Inr demo_settings"
proof -
  have "wrap64 (2147483647 * millisecond) = 2147483647 * millisecond" by (rule wrap64_id) (simp add: int64_def millisecond_def)
  moreover have "char_of (68 :: nat) = CHR ''D''" "char_of (69 :: nat) = CHR ''E''" by code_simp+
  ultimately show ?thesis
    by (simp add: sampling_settings_def demo_server_def demo_request_def demo_settings_def NewServer_def defaultProbes_def Let_def
        validProbeTarget_def demo_parse_url_def validPersistedInteger_def validOptionalPersistedInteger_def maxPersistedInteger_def
        normalizedTargetCountry_def ascii_letter_def ascii_upper_def millisecond_def)
qed


text \<open>Inserting, starting and cleaning up; no other session is touched.\<close>

definition created_or_clean :: "create_env \<Rightarrow> supervisor \<Rightarrow> supervisor \<Rightarrow> session_view response \<Rightarrow> bool" where
  "created_or_clean env s s' r \<longleftrightarrow>
     (\<forall>x. x = ce_id env \<or> find_session (sv_store s') x = find_session (sv_store s) x \<and> sv_workers s' x = sv_workers s x)
   \<and> (case r of
        Inr w \<Rightarrow> find_session (sv_store s) (ce_id env) = None
          \<and> (\<exists>row. find_session (sv_store s') (ce_id env) = Some row \<and> c_status row = StatusRunning
               \<and> w = api_mapSession (mapSession row []))
          \<and> sv_workers s' (ce_id env) \<noteq> None
      | Inl e \<Rightarrow> sv_workers s' = sv_workers s \<and> e = internalError
          \<and> (find_session (sv_store s') (ce_id env) = find_session (sv_store s) (ce_id env)
             \<or> (\<exists>row. find_session (sv_store s') (ce_id env) = Some row \<and> c_status row = StatusStopped)
             \<or> ce_create env 1 \<noteq> None \<or> ce_stop env 0 \<noteq> None \<and> ce_delete env 0 \<noteq> None))"

lemma store_and_start_outcome:
  assumes made: "store_and_start env v s = (s', r)" and ok: "db_ok (sv_store s)"
    and v: "s_ID v = ce_id env" "s_Snapshot v = zero_snapshot" "s_Status v = StatusRunning"
  shows "created_or_clean env s s' r"
proof -
  obtain d cr where create: "Create (ce_create env) (sv_store s) v = (d, cr)" by fastforce
  note out = Create_outcome [OF create v(2)]
  show ?thesis
  proof (cases cr)
    case (Inl e)
    then have "s' = s\<lparr>sv_store := d\<rparr>" "r = Inl internalError" using made create by (simp_all add: store_and_start_def)
    with out Inl v show ?thesis by (auto simp: created_or_clean_def split: if_splits)
  next
    case (Inr created)
    then have new: "find_session (sv_store s) (ce_id env) = None" "find_session d = (find_session (sv_store s))(ce_id env \<mapsto> insertSessionParams v)"
      and cid: "created = mapSession (insertSessionParams v) []" "s_ID created = ce_id env"
      using out v by (auto simp: mapSession_def)
    obtain s1 se where st: "Start (ce_waiting env) (ce_start env) (ce_id env) (s\<lparr>sv_store := d\<rparr>) = (s1, se)" by fastforce
    note sr = Start_result [OF st]
    show ?thesis
    proof (cases se)
      case None
      then have "s' = s1" "r = Inr (api_mapSession created)" using made create Inr st cid by (simp_all add: store_and_start_def)
      with new cid sr None v show ?thesis by (auto simp: created_or_clean_def)
    next
      case (Some x)
      then have s1: "s1 = s\<lparr>sv_store := d\<rparr>" using sr(2) by simp
      obtain d2 e2 where stop: "Stop (ce_stop env) d (ce_id env) (ce_later env) = (d2, e2)" by fastforce
      obtain d3 e3 where del: "Delete (ce_delete env) d2 (ce_id env) = (d3, e3)" by fastforce
      have r: "r = Inl internalError" and s': "s' = s\<lparr>sv_store := if e2 = None then d2 else d3\<rparr>"
        using made create Inr st Some s1 cid stop del by (auto simp: store_and_start_def split: option.splits)
      have "db_ok d" using apply_op_ok [of "sv_store s" "\<lambda>_. None" id "ce_create env" "DoCreate v"] create ok by simp
      then have stopped: "ce_stop env 0 = None \<Longrightarrow> e2 = None"
        using Stop_succeeds [of d "ce_id env" "insertSessionParams v" "ce_stop env" "ce_later env"] stop new(2) v by simp
      have deleted: "ce_delete env 0 = None \<Longrightarrow> e3 = None" using del by (auto simp: Delete_def)
      have "find_session d2 x = (if x = ce_id env \<and> e2 = None then Some ((insertSessionParams v)\<lparr>c_status := StatusStopped, c_stopped_at := Some (timestamp (ce_later env))\<rparr>)
          else find_session d x)" for x
        using Stop_rows [OF stop, of x] new(2) v find_session_Some [of d x] by (cases "find_session d x") (auto split: if_splits)
      with Delete_rows [OF del] r s' stopped deleted new v show ?thesis by (cases e2; cases e3) (auto simp: created_or_clean_def)
    qed
  qed
qed


definition demo_create :: create_env where
  "demo_create = \<lparr>ce_random = (\<lambda>n. Inr (replicate n (CHR ''n''))), ce_id = 3, ce_now = 5000, ce_create = no_faults, ce_waiting = None,
     ce_start = demo_start, ce_stop = no_faults, ce_later = 6000, ce_delete = no_faults\<rparr>"


text \<open>
  A failed read-back of the insert is answered with 500 without any clean-up: the row runs, nobody owns it.
\<close>

lemma create_session_orphan:
  "\<exists>s' row. CreateSession demo_parse_url demo_server (demo_create\<lparr>ce_create := (\<lambda>k. if k = 1 then Some CtxCanceled else None)\<rparr>)
       (Some demo_request) demo_supervisor = (s', Inl internalError)
     \<and> find_session (sv_store s') 3 = Some row \<and> c_status row = StatusRunning \<and> sv_workers s' 3 = None"
proof -
  let ?env = "demo_create\<lparr>ce_create := (\<lambda>k. if k = 1 then Some CtxCanceled else None)\<rparr>"
  let ?v = "new_session 3 (trim_space ''s'') ''nn1:h@p:u//:5skcos'' ''nn'' ''h:1'' demo_request demo_settings 5000"
  have cad: "validPersistedInteger (rq_CadenceSeconds demo_request) 1"
    by (simp add: demo_request_def validPersistedInteger_def maxPersistedInteger_def)
  have fresh: "find_session demo_db 3 = None" by (simp add: find_session_def demo_db_def)
  obtain d where ins: "insert_row (insertSessionParams ?v) demo_db = Inr d"
    using new_session_typed(1) [OF demo_settings_of cad] fresh by (simp add: insert_row_def)
  note new = insert_new_row [OF ins]
  have create: "Create (ce_create ?env) demo_db ?v = (d, Inl (Wrapped ''session by id'' CtxCanceled))"
    using ins by (simp add: Create_def SessionByID_def)
  have "rune_count ''s'' \<le> 100" by code_simp
  then have "valid_request demo_request"
    using cad by (simp add: valid_request_def valid_name_def demo_request_def trim_space_visible visible_def)
  then have "CreateSession demo_parse_url demo_server ?env (Some demo_request) demo_supervisor
      = store_and_start ?env ?v demo_supervisor"
    using demo_settings_of
    by (simp add: CreateSession_def demo_request_def demo_server_def NewServer_def demo_parse_url_def Display_def parseURL_def
        Encrypt_def demo_aead_def demo_create_def join_host_port_def numeral_2_eq_2)
  also have "\<dots> = (demo_supervisor\<lparr>sv_store := d\<rparr>, Inl internalError)"
    using create by (simp add: store_and_start_def)
  finally show ?thesis using new(2) by auto
qed


subsection \<open>Stopping and re-enabling\<close>

text \<open>
  C9: the status of a stop request tells the truth: after 204 the row is stopped and no worker is left, 404
  means there is no such row and 409 that its row does not run; whatever the answer, only this session's
  row and worker may have changed.
\<close>

theorem stop_session_status:
  assumes "StopSession S waiting env restore sid s = (s', r)" and "sr_control S" and "db_ok (sv_store s)"
    and "stop_env_ok env" "foreign (en_expired env)" "start_env_ok restore" "contexts_ok s" "waiting = None"
  shows "(\<forall>x. x = sid \<or> find_session (sv_store s') x = find_session (sv_store s) x \<and> sv_workers s' x = sv_workers s x)
    \<and> (case r of
         Inr _ \<Rightarrow> sv_workers s' sid = None \<and> (\<exists>row. find_session (sv_store s') sid = Some row \<and> c_status row = StatusStopped)
       | Inl e \<Rightarrow> (if ae_status e = 404 then find_session (sv_store s') sid = None
                   else if ae_status e = 409 then (case find_session (sv_store s') sid of None \<Rightarrow> True | Some row \<Rightarrow> c_status row \<noteq> StatusRunning)
                   else e = internalError))"
proof (cases "sv_closing s")
  case True
  with assms(1,2,8) show ?thesis
    by (auto simp: StopSession_def SupStop_def sessionOperation_def lifecycle_error_def api_errors)
next
  case False
  obtain s1 err where stop: "stopWithOwnership env restore sid s = (s1, err)" by fastforce
  note same = stopWithOwnership_same [OF stop assms(4)]
  have out: "s' = s1" "r = (case err of None \<Rightarrow> Inr () | Some e \<Rightarrow> Inl (lifecycle_error e))"
    using assms(1,2,8) False stop by (auto simp: StopSession_def SupStop_def sessionOperation_def split: option.splits)
  show ?thesis
  proof (cases err)
    case None
    with out same assms(3) show ?thesis by (auto simp: same_besides_def)
  next
    case (Some e)
    note refused = stopWithOwnership_refused [OF stop [unfolded Some] assms(4-7)]
    have "foreign e \<or> \<not> foreign e" by simp
    with out same(1) Some refused show ?thesis
      by (auto simp: same_besides_def lifecycle_error_def api_errors foreign_def split: option.split)
  qed
qed

theorem stop_session_status_witness:
  "\<exists>s' r. StopSession demo_server None demo_stop demo_start 8 demo_supervisor = (s', r) \<and> find_session (sv_store s') 7 = Some demo_row"
proof -
  obtain s' r where c: "StopSession demo_server None demo_stop demo_start 8 demo_supervisor = (s', r)" by fastforce
  have "stop_env_ok demo_stop" "foreign (en_expired demo_stop)" "start_env_ok demo_start" "contexts_ok demo_supervisor" "sr_control demo_server"
    by (simp_all add: stop_env_ok_def demo_stop_def foreign_faults_def start_env_ok_def demo_start_def no_faults_def contexts_ok_def
        demo_supervisor_def demo_server_def NewServer_def)
  with spec [OF conjunct1 [OF stop_session_status [OF c]], of 7] c demo_db_ok demo_find show ?thesis by simp
qed

text \<open>
  re-enabling answers 200 only when the row runs again with its counters reset and a worker owns it; 404
  means there is no such row, 409 that its row runs; a 500 leaves the row as it was, or running again without
  a new worker.
\<close>

theorem reenable_session_status:
  assumes "ReenableSession S f now waiting env reads sid s = (s', r)" and "sr_control S" "sr_store S" and "db_ok (sv_store s)"
    and "foreign_faults f" "\<And>k x. f k = Some x \<Longrightarrow> \<not> errors_is x ErrAlreadyRunning"
    and "start_env_ok env" "contexts_ok s" "\<forall>x \<in> set_option waiting. foreign x"
  shows "case r of
      Inr w \<Rightarrow> sv_workers s' sid \<noteq> None
        \<and> (\<exists>row. find_session (sv_store s') sid = Some row \<and> c_status row = StatusRunning \<and> c_samples_taken row = 0)
    | Inl e \<Rightarrow> (if ae_status e = 404 then find_session (sv_store s') sid = None
        else if ae_status e = 409 then (\<exists>row. find_session (sv_store s') sid = Some row \<and> c_status row = StatusRunning)
        else e = internalError \<and> (s' = s \<or> (\<exists>row. find_session (sv_store s') sid = Some row \<and> c_status row = StatusRunning)))"
proof -
  obtain s1 err where re: "SupReenable f now waiting env sid s = (s1, err)" by fastforce
  have r: "s' = s1" "r = (case err of
      None \<Rightarrow> (case SessionByID reads (sv_store s1) sid of Inl _ \<Rightarrow> Inl internalError | Inr v \<Rightarrow> Inr (api_mapSession v))
    | Some e \<Rightarrow> Inl (if errors_is e ErrNotFound then notFound else if errors_is e ErrAlreadyRunning then sessionAlreadyRunning else internalError))"
    using assms(1-3) re by (auto simp: ReenableSession_def split: option.splits)
  consider (root) x where "sv_root s = Some x" "s1 = s" "err = Some x"
    | (refused) e where "Reenable f (sv_store s) sid now = (sv_store s1, Some e)" "err = Some e" "s1 = s\<lparr>sv_store := sv_store s1\<rparr>"
    | (started) d where "Reenable f (sv_store s) sid now = (d, None)" "Start waiting env sid (s\<lparr>sv_store := d\<rparr>) = (s1, err)"
    using re by (auto simp: SupReenable_def split: option.splits prod.splits)
  then show ?thesis
  proof cases
    case root
    then have "x = CtxCanceled \<or> x = CtxDeadlineExceeded" using assms(8) by (simp add: contexts_ok_def)
    with root r show ?thesis by (auto simp: api_errors)
  next
    case refused
    note why = Reenable_refused [OF refused(1) assms(5,6,4)]
    from refused(3) why(1) have "s1 = s" by simp
    with refused(2) r why(2,3) show ?thesis by (auto simp: api_errors)
  next
    case started
    note dn = Reenable_done [OF started(1) assms(4)]
    note st = Start_result [OF started(2)]
    have "contexts_ok (s\<lparr>sv_store := d\<rparr>)" using assms(8) by (simp add: contexts_ok_def)
    then have "foreign e" if "err = Some e" for e
      using Start_running_foreign [of waiting env sid "s\<lparr>sv_store := d\<rparr>" s1 e] started(2) that dn(1) assms(7,9) by auto
    with r st(1,3) dn(1) show ?thesis by (auto simp: foreign_def api_errors split: option.splits sum.splits)
  qed
qed

theorem reenable_session_status_witness:
  "\<exists>s' r. ReenableSession demo_server no_faults 5000 None demo_start no_faults 8 demo_supervisor = (s', r)
     \<and> (case r of Inr w \<Rightarrow> sv_workers s' 8 \<noteq> None | Inl e \<Rightarrow> ae_status e = 404 \<longrightarrow> find_session (sv_store s') 8 = None)"
proof -
  obtain s' r where c: "ReenableSession demo_server no_faults 5000 None demo_start no_faults 8 demo_supervisor = (s', r)" by fastforce
  have "start_env_ok demo_start" "contexts_ok demo_supervisor" "sr_control demo_server" "sr_store demo_server"
    by (simp_all add: start_env_ok_def contexts_ok_def demo_supervisor_def demo_start_def demo_server_def NewServer_def)
  with reenable_session_status [OF c] c demo_db_ok show ?thesis by (auto split: sum.splits)
qed

text \<open>
  When the worker cannot be prepared, the row has already been set running: nobody owns it, and a retry is
  refused with 409.
\<close>

lemma reenable_session_orphan:
  defines "env \<equiv> \<lparr>se_fault = no_faults, se_prepare = (\<lambda>_. Inl (ErrOther ''bad proxy''))\<rparr>"
    and "s \<equiv> demo_supervisor\<lparr>sv_store := demo_db\<lparr>t_sessions := [demo_row\<lparr>c_status := StatusStopped\<rparr>]\<rparr>\<rparr>"
  shows "\<exists>s' row. ReenableSession demo_server no_faults 5000 None env no_faults 7 s = (s', Inl internalError)
     \<and> find_session (sv_store s') 7 = Some row \<and> c_status row = StatusRunning \<and> sv_workers s' 7 = None
     \<and> ReenableSession demo_server no_faults 5000 None env no_faults 7 s' = (s', Inl sessionAlreadyRunning)"
proof -
  define row where "row = reenable_row 5000 (demo_row\<lparr>c_status := StatusStopped\<rparr>)"
  define d where "d = demo_db\<lparr>t_sessions := [row]\<rparr>"
  have ok: "row_ok row" using demo_row_ok by (simp add: row_def reenable_row_def row_ok_def inet_ok_def demo_row_def
      insertSessionParams_def demo_session_def zero_snapshot_def int32_def)
  have row: "c_id row = 7" "c_status row = StatusRunning" by (simp_all add: row_def reenable_row_def)
  have first: "Reenable no_faults (sv_store s) 7 5000 = (d, None)"
    using ok by (simp add: Reenable_def update_session_def update_rows_def s_def timestamp_def d_def row_def)
  have found: "find_session d 7 = Some row" using row by (simp add: find_session_def d_def)
  have "update_session no_faults (\<lambda>r. c_id r = 7 \<and> c_status r \<in> {StatusStopped, StatusFinished}) (reenable_row 5000) d = Inr (d, 0)"
    using row by (simp add: update_session_def update_rows_def d_def)
  then have again: "Reenable no_faults d 7 5000 = (d, Some ErrAlreadyRunning)"
    using found by (simp add: Reenable_def SessionByID_def timestamp_def)
  have start: "Start None env 7 (s\<lparr>sv_store := d\<rparr>) = (s\<lparr>sv_store := d\<rparr>, Some (ErrOther ''bad proxy''))"
    using row found by (simp add: Start_def sessionOperation_def startCurrent_def SessionByID_def start_def env_def s_def mapSession_def)
  have srv: "sr_control demo_server" "sr_store demo_server" by (simp_all add: demo_server_def NewServer_def)
  have "ReenableSession demo_server no_faults 5000 None env no_faults 7 s = (s\<lparr>sv_store := d\<rparr>, Inl internalError)"
    using first start srv by (simp add: ReenableSession_def SupReenable_def s_def)
  moreover have "ReenableSession demo_server no_faults 5000 None env no_faults 7 (s\<lparr>sv_store := d\<rparr>) = (s\<lparr>sv_store := d\<rparr>, Inl sessionAlreadyRunning)"
    using again srv by (simp add: ReenableSession_def SupReenable_def s_def)
  ultimately show ?thesis using found row by (intro exI [of _ "s\<lparr>sv_store := d\<rparr>"] exI [of _ row]) (simp add: s_def)
qed

end
