(* ===== verification/ApiRuns.thy ===== *)
theory ApiRuns
  imports ApiSessions Expand
begin

text \<open>
  The run handlers of \<open>internal/api/runs.go\<close> and \<open>edit.go\<close>: creating a variation run (template and axes
  to child sessions, stored together and started one by one, rolled back together), listing, stopping,
  re-enabling, renaming and deleting it. As in theory ApiSessions, a handler is a function on the supervisor's
  state and what it meets is an argument; requests of other clients do not interleave with it.
\<close>

subsection \<open>Axes of a request\<close>

text \<open>\<open>openapi.AxisSpec\<close>.\<close>

record api_axis =
  aa_kind :: string
  aa_values :: "string list option"
  aa_from :: "64 word option"
  aa_to :: "64 word option"
  aa_count :: "int option"
  aa_length :: "int option"

definition unsafeAxisValueChars :: string where
  "unsafeAxisValueChars = map char_of ([32, 9, 13, 10] :: nat list) @ '':/?#@%''"

text \<open>\<open>strings.ContainsAny\<close> for an ASCII character set.\<close>

definition contains_any :: "string \<Rightarrow> string \<Rightarrow> bool" where
  "contains_any s chars \<longleftrightarrow> (\<exists>c \<in> set s. c \<in> set chars)"

definition map_axis :: "api_axis \<Rightarrow> axis_spec option" where
  "map_axis spec =
     (if \<exists>v \<in> set (case aa_values spec of None \<Rightarrow> [] | Some vs \<Rightarrow> vs). contains_any v unsafeAxisValueChars then None
      else if aa_kind spec = AxisRange \<and> (aa_from spec = None \<or> aa_to spec = None) then None
      else Some \<lparr>ax_kind = aa_kind spec, ax_values = (case aa_values spec of None \<Rightarrow> [] | Some vs \<Rightarrow> vs),
        ax_from = (case aa_from spec of None \<Rightarrow> 0 | Some n \<Rightarrow> n), ax_to = (case aa_to spec of None \<Rightarrow> 0 | Some n \<Rightarrow> n),
        ax_count = (case aa_count spec of None \<Rightarrow> 0 | Some n \<Rightarrow> n), ax_length = (case aa_length spec of None \<Rightarrow> 0 | Some n \<Rightarrow> n)\<rparr>)"

fun mapAxes :: "(string, api_axis) gomap \<Rightarrow> axes option" where
  "mapAxes [] = Some []"
| "mapAxes ((name, spec) # rest) =
     (case map_axis spec of
        None \<Rightarrow> None
      | Some a \<Rightarrow> (case mapAxes rest of None \<Rightarrow> None | Some axes \<Rightarrow> Some ((name, a) # axes)))"


subsection \<open>Credentials\<close>

definition url_password :: "url \<Rightarrow> string" where
  "url_password u = (case u_user u of Some (_, Some password) \<Rightarrow> password | _ \<Rightarrow> [])"

definition credentialInPassword :: "(string \<Rightarrow> url option) \<Rightarrow> string \<Rightarrow> params \<Rightarrow> bool" where
  "credentialInPassword parse rawURL ps =
     (case parse rawURL of None \<Rightarrow> False
      | Some u \<Rightarrow> url_password u \<noteq> [] \<and> list_ex (\<lambda>(_, value). value \<noteq> [] \<and> contains_str (url_password u) value) ps)"

text \<open>\<open>strings.Index\<close> and \<open>strings.LastIndex\<close>, as the text before and after the match.\<close>

fun cut_first :: "string \<Rightarrow> string \<Rightarrow> (string \<times> string) option" where
  "cut_first sep [] = (if sep = [] then Some ([], []) else None)"
| "cut_first sep (c # s) =
     (if prefix sep (c # s) then Some ([], drop (length sep) (c # s))
      else map_option (\<lambda>(before, after). (c # before, after)) (cut_first sep s))"

fun after_last :: "char \<Rightarrow> string \<Rightarrow> string option" where
  "after_last c [] = None"
| "after_last c (x # s) = (case after_last c s of Some t \<Rightarrow> Some t | None \<Rightarrow> if x = c then Some s else None)"

definition redactTemplate :: "(string \<Rightarrow> url option) \<Rightarrow> string \<Rightarrow> string" where
  "redactTemplate parse raw =
     (case cut_first ''://'' raw of
        None \<Rightarrow> ''***''
      | Some (scheme, rest) \<Rightarrow>
          (case after_last (CHR ''@'') rest of
             None \<Rightarrow> ''***''
           | Some host \<Rightarrow> (case Display parse (scheme @ ''://'' @ host) of Inr display \<Rightarrow> display | Inl _ \<Rightarrow> ''***'')))"


subsection \<open>Responses\<close>

record run_view =
  rv_Id :: uuid
  rv_Name :: string
  rv_TemplateDisplay :: string
  rv_Status :: run_status
  rv_VariantCount :: int
  rv_DistinctIps :: int
  rv_CreatedAt :: time

definition mapRun :: "run_summary \<Rightarrow> run_view" where
  "mapRun summary =
     \<lparr>rv_Id = run_ID (rs_Run summary), rv_Name = run_Name (rs_Run summary), rv_TemplateDisplay = TemplateDisplay (rs_Run summary),
      rv_Status = rs_Status summary, rv_VariantCount = rs_VariantCount summary, rv_DistinctIps = rs_DistinctIPs summary,
      rv_CreatedAt = run_CreatedAt (rs_Run summary)\<rparr>"

record variant_view =
  vw_SessionId :: uuid
  vw_Name :: string
  vw_CellKey :: string
  vw_Params :: params
  vw_TargetCountry :: "string option"
  vw_Status :: status
  vw_SamplesTaken :: int
  vw_DistinctIps :: int

text \<open>\<open>decode\<close> stands for \<open>json.Unmarshal\<close> into a map of strings; what it fails on is shown without parameters.\<close>

definition mapVariant :: "(string \<Rightarrow> params option) \<Rightarrow> variant_session \<Rightarrow> variant_view" where
  "mapVariant decode v =
     \<lparr>vw_SessionId = vs_SessionID v, vw_Name = vs_Name v, vw_CellKey = vs_CellKey v,
      vw_Params = (case decode (vs_Params v) of None \<Rightarrow> [] | Some ps \<Rightarrow> ps),
      vw_TargetCountry = optionalString (vs_TargetCountry v), vw_Status = vs_Status v,
      vw_SamplesTaken = SamplesTaken (vs_Snapshot v), vw_DistinctIps = sn_DistinctIPs (vs_Snapshot v)\<rparr>"


subsection \<open>Creating a run\<close>

text \<open>\<open>CreateRunRequest\<close>: the settings it shares with a session request, the template and the axes.\<close>

record run_request =
  rr_settings :: create_request
  rr_Template :: "string option"
  rr_Axes :: "(string, api_axis) gomap"

definition maxTemplateBytes :: nat where "maxTemplateBytes = 4096"

text \<open>
  What a run request meets: the nonces of its encryptions and the ids of its children (both numbered in the
  order they are drawn), the JSON text of the axes, the transaction, and the start and clean-up of each child.
\<close>

record run_env =
  re_random :: "nat \<Rightarrow> nat \<Rightarrow> string result"
  re_id :: uuid
  re_ids :: "nat \<Rightarrow> uuid"
  re_now :: time
  re_axesJSON :: "string result"
  re_create :: fault_plan
  re_start :: "uuid \<Rightarrow> go_error option \<times> start_env"
  re_delete :: "uuid \<Rightarrow> go_error option \<times> delete_env"
  re_deleteRun :: fault_plan

text \<open>The loop over the variants, from the \<open>k\<close>-th on.\<close>

fun make_children ::
  "(string \<Rightarrow> url option) \<Rightarrow> aead \<Rightarrow> run_env \<Rightarrow> string \<Rightarrow> create_request \<Rightarrow> settings \<Rightarrow> nat \<Rightarrow> variant list \<Rightarrow> child_session list response" where
  "make_children parse c env name body st k [] = Inr []"
| "make_children parse c env name body st k (v # vs) =
     (if credentialInPassword parse (v_url v) (v_params v) then Inl invalidRequest
      else (case Display parse (v_url v) of
        Inl _ \<Rightarrow> Inl invalidRequest
      | Inr display \<Rightarrow>
     (case Encrypt c (re_random env (Suc k)) (v_url v) of
        Inl _ \<Rightarrow> Inl internalError
      | Inr (ciphertext, nonce) \<Rightarrow>
     (case make_children parse c env name body st (Suc k) vs of
        Inl e \<Rightarrow> Inl e
      | Inr children \<Rightarrow>
          Inr (\<lparr>cs_Session = new_session (re_ids env k) (VariantName name (v_params v)) ciphertext nonce display body st (re_now env),
                cs_Params = json_object (v_params v), cs_CellKey = v_cell_key v\<rparr> # children)))))"

fun start_children :: "(uuid \<Rightarrow> go_error option \<times> start_env) \<Rightarrow> uuid list \<Rightarrow> supervisor \<Rightarrow> supervisor \<times> go_error option" where
  "start_children envs [] s = (s, None)"
| "start_children envs (sid # sids) s =
     (case Start (fst (envs sid)) (snd (envs sid)) sid s of
        (s', e) \<Rightarrow> if e \<noteq> None \<and> \<not> err_is e ErrNotRunning \<and> \<not> err_is e ErrNotFound then (s', e) else start_children envs sids s')"

text \<open>The clean-up visits every child; the flag says that each is confirmed gone.\<close>

fun delete_children :: "(uuid \<Rightarrow> go_error option \<times> delete_env) \<Rightarrow> uuid list \<Rightarrow> supervisor \<Rightarrow> supervisor \<times> bool" where
  "delete_children envs [] s = (s, True)"
| "delete_children envs (sid # sids) s =
     (case SupDelete (fst (envs sid)) (snd (envs sid)) sid s of
        (s', e) \<Rightarrow> (case delete_children envs sids s' of
           (s'', confirmed) \<Rightarrow> (s'', (e = None \<or> err_is e ErrNotFound) \<and> confirmed)))"

definition start_run :: "run_env \<Rightarrow> run \<Rightarrow> child_session list \<Rightarrow> supervisor \<Rightarrow> supervisor \<times> run_view response" where
  "start_run env r children s =
     (let ids = map (\<lambda>c. s_ID (cs_Session c)) children in
      case CreateRun (re_create env) (sv_store s) r children of
        (d, Some _) \<Rightarrow> (s\<lparr>sv_store := d\<rparr>, Inl internalError)
      | (d, None) \<Rightarrow>
     (case start_children (re_start env) ids (s\<lparr>sv_store := d\<rparr>) of
        (s1, None) \<Rightarrow> (s1, Inr (mapRun \<lparr>rs_Run = r, rs_VariantCount = int (length children), rs_DistinctIPs = 0, rs_Status = RunRunning\<rparr>))
      | (s1, Some _) \<Rightarrow>
     (case delete_children (re_delete env) ids s1 of
        (s2, confirmed) \<Rightarrow>
          (if confirmed then s2\<lparr>sv_store := fst (DeleteRun (re_deleteRun env) (sv_store s2) (run_ID r))\<rparr> else s2, Inl internalError))))"

text \<open>From the template to the run and its children: everything before the database is touched.\<close>

definition plan_run ::
  "(string \<Rightarrow> url option) \<Rightarrow> ('r \<Rightarrow> nat vresult \<times> 'r) \<Rightarrow> 'r \<Rightarrow> server \<Rightarrow> aead \<Rightarrow> run_env \<Rightarrow> run_request \<Rightarrow> string \<Rightarrow> settings
     \<Rightarrow> (run \<times> child_session list) response" where
  "plan_run parse rand_int g S c env request template st =
     (let body = rr_settings request; name = trim_space (rq_Name body) in
      case ParseTemplate template of
        Inl _ \<Rightarrow> Inl invalidRequest
      | Inr t \<Rightarrow>
     (case mapAxes (rr_Axes request) of
        None \<Rightarrow> Inl invalidRequest
      | Some axes \<Rightarrow>
     (case fst (Expand t axes (DefaultRandString rand_int) (sr_maxVariants S) g) of
        Inl _ \<Rightarrow> Inl invalidRequest
      | Inr variants \<Rightarrow>
     if variants = [] then Inl invalidRequest
     else (case Encrypt c (re_random env 0) template of
        Inl _ \<Rightarrow> Inl internalError
      | Inr (ciphertext, nonce) \<Rightarrow>
     (case re_axesJSON env of
        Inl _ \<Rightarrow> Inl internalError
      | Inr axesJSON \<Rightarrow>
     (case make_children parse c env name body st 0 variants of
        Inl e \<Rightarrow> Inl e
      | Inr children \<Rightarrow>
          Inr (\<lparr>run_ID = re_id env, run_Name = name, TemplateCiphertext = ciphertext, TemplateNonce = nonce,
                TemplateDisplay = (case Display parse template of Inr d \<Rightarrow> d | Inl _ \<Rightarrow> redactTemplate parse template),
                run_Axes = axesJSON, run_CreatedAt = re_now env\<rparr>, children)))))))"

definition api_CreateRun ::
  "(string \<Rightarrow> url option) \<Rightarrow> ('r \<Rightarrow> nat vresult \<times> 'r) \<Rightarrow> 'r \<Rightarrow> server \<Rightarrow> run_env \<Rightarrow> run_request option \<Rightarrow> supervisor
     \<Rightarrow> supervisor \<times> run_view response" where
  "api_CreateRun parse rand_int g S env request s =
     (case request of
        None \<Rightarrow> (s, Inl invalidRequest)
      | Some body \<Rightarrow>
     (case rr_Template body of
        None \<Rightarrow> (s, Inl invalidRequest)
      | Some template \<Rightarrow>
     if \<not> valid_request (rr_settings body) \<or> trim_space template = [] \<or> length template > maxTemplateBytes
     then (s, Inl invalidRequest)
     else (case sampling_settings parse S (rr_settings body) of
        Inl e \<Rightarrow> (s, Inl e)
      | Inr st \<Rightarrow>
     (case sr_cipher S of
        None \<Rightarrow> (s, Inl internalError)
      | Some c \<Rightarrow>
     if \<not> sr_runStore S \<or> \<not> sr_store S \<or> \<not> sr_control S then (s, Inl internalError)
     else (case plan_run parse rand_int g S c env body template st of
        Inl e \<Rightarrow> (s, Inl e)
      | Inr (r, children) \<Rightarrow> start_run env r children s)))))"


subsection \<open>The other run handlers\<close>

definition RunConfig :: "server \<Rightarrow> int" where
  "RunConfig S = (if sr_maxVariants S \<le> 0 then 128 else sr_maxVariants S)"

definition ListRuns :: "server \<Rightarrow> fault_plan \<Rightarrow> supervisor \<Rightarrow> run_view list response" where
  "ListRuns S f s =
     (if \<not> sr_runStore S then Inl internalError
      else (case Runs f (sv_store s) of Inl _ \<Rightarrow> Inl internalError | Inr summaries \<Rightarrow> Inr (map mapRun summaries)))"

definition run_error :: "go_error \<Rightarrow> api_error" where
  "run_error e = (if errors_is e ErrRunNotFound then notFound else internalError)"

text \<open>A run's summary, as most handlers answer with it.\<close>

definition run_summary_view :: "fault_plan \<Rightarrow> uuid \<Rightarrow> supervisor \<Rightarrow> run_view response" where
  "run_summary_view f rid s =
     (case RunByID f (sv_store s) rid of Inl e \<Rightarrow> Inl (run_error e) | Inr summary \<Rightarrow> Inr (mapRun summary))"

definition run_by_id ::
  "(string \<Rightarrow> params option) \<Rightarrow> (string \<Rightarrow> string) \<Rightarrow> server \<Rightarrow> fault_plan \<Rightarrow> fault_plan \<Rightarrow> uuid \<Rightarrow> supervisor
     \<Rightarrow> (run_view \<times> variant_view list) response" where
  "run_by_id decode jsonb S f f' rid s =
     (if \<not> sr_runStore S then Inl internalError
      else (case run_summary_view f rid s of
        Inl e \<Rightarrow> Inl e
      | Inr summary \<Rightarrow>
     (case RunSessions jsonb f' (sv_store s) rid of
        Inl _ \<Rightarrow> Inl internalError
      | Inr vs \<Rightarrow> Inr (summary, map (mapVariant decode) vs))))"

text \<open>
  \<open>fanOut\<close>: the run must exist, then the operation is applied to each child in turn; \<open>skip\<close> and a missing
  session count as done, and the first other error ends the loop.
\<close>

type_synonym session_op = "uuid \<Rightarrow> supervisor \<Rightarrow> supervisor \<times> go_error option"

fun fan_loop :: "session_op \<Rightarrow> go_error \<Rightarrow> uuid list \<Rightarrow> supervisor \<Rightarrow> supervisor \<times> unit response" where
  "fan_loop op skip [] s = (s, Inr ())"
| "fan_loop op skip (sid # sids) s =
     (case op sid s of
        (s', e) \<Rightarrow> if e = None \<or> err_is e skip \<or> err_is e ErrNotFound then fan_loop op skip sids s' else (s', Inl internalError))"

definition fanOut ::
  "(string \<Rightarrow> string) \<Rightarrow> server \<Rightarrow> fault_plan \<Rightarrow> fault_plan \<Rightarrow> uuid \<Rightarrow> session_op \<Rightarrow> go_error \<Rightarrow> supervisor \<Rightarrow> supervisor \<times> unit response" where
  "fanOut jsonb S f f' rid op skip s =
     (if \<not> sr_runStore S \<or> \<not> sr_control S then (s, Inl internalError)
      else (case RunByID f (sv_store s) rid of
        Inl e \<Rightarrow> (s, Inl (run_error e))
      | Inr _ \<Rightarrow>
     (case RunSessions jsonb f' (sv_store s) rid of
        Inl _ \<Rightarrow> (s, Inl internalError)
      | Inr vs \<Rightarrow> fan_loop op skip (map vs_SessionID vs) s)))"

text \<open>The plans of the reads before the loop and of the summary after it.\<close>

record fan_env =
  fe_run :: fault_plan
  fe_sessions :: fault_plan
  fe_summary :: fault_plan

definition fan_out_view ::
  "(string \<Rightarrow> string) \<Rightarrow> server \<Rightarrow> fan_env \<Rightarrow> uuid \<Rightarrow> session_op \<Rightarrow> go_error \<Rightarrow> supervisor \<Rightarrow> supervisor \<times> run_view response" where
  "fan_out_view jsonb S env rid op skip s =
     (if \<not> sr_control S then (s, Inl internalError)
      else (case fanOut jsonb S (fe_run env) (fe_sessions env) rid op skip s of
        (s', Inl e) \<Rightarrow> (s', Inl e)
      | (s', Inr _) \<Rightarrow> (s', run_summary_view (fe_summary env) rid s')))"

text \<open>What stopping or re-enabling a child meets.\<close>

type_synonym stop_plan = "uuid \<Rightarrow> go_error option \<times> stop_env \<times> start_env"
type_synonym reenable_plan = "uuid \<Rightarrow> fault_plan \<times> time \<times> go_error option \<times> start_env"

definition stop_op :: "stop_plan \<Rightarrow> session_op" where
  "stop_op envs sid s = (case envs sid of (waiting, env, restore) \<Rightarrow> SupStop waiting env restore sid s)"

definition reenable_op :: "reenable_plan \<Rightarrow> session_op" where
  "reenable_op envs sid s = (case envs sid of (f, now, waiting, env) \<Rightarrow> SupReenable f now waiting env sid s)"

definition StopRun :: "(string \<Rightarrow> string) \<Rightarrow> server \<Rightarrow> fan_env \<Rightarrow> stop_plan \<Rightarrow> uuid \<Rightarrow> supervisor \<Rightarrow> supervisor \<times> run_view response" where
  "StopRun jsonb S env envs rid s = fan_out_view jsonb S env rid (stop_op envs) ErrNotRunning s"

definition ReenableRun :: "(string \<Rightarrow> string) \<Rightarrow> server \<Rightarrow> fan_env \<Rightarrow> reenable_plan \<Rightarrow> uuid \<Rightarrow> supervisor \<Rightarrow> supervisor \<times> run_view response" where
  "ReenableRun jsonb S env envs rid s = fan_out_view jsonb S env rid (reenable_op envs) ErrAlreadyRunning s"

definition api_DeleteRun ::
  "(string \<Rightarrow> string) \<Rightarrow> server \<Rightarrow> fan_env \<Rightarrow> (uuid \<Rightarrow> go_error option) \<Rightarrow> delete_env \<Rightarrow> uuid \<Rightarrow> supervisor \<Rightarrow> supervisor \<times> unit response" where
  "api_DeleteRun jsonb S env waiting denv rid s =
     (if \<not> sr_runStore S \<or> \<not> sr_control S then (s, Inl internalError)
      else (case RunByID (fe_run env) (sv_store s) rid of
        Inl e \<Rightarrow> (s, Inl (run_error e))
      | Inr _ \<Rightarrow>
     (case RunSessions jsonb (fe_sessions env) (sv_store s) rid of
        Inl _ \<Rightarrow> (s, Inl internalError)
      | Inr vs \<Rightarrow>
     (case SupDeleteSessions waiting denv (map vs_SessionID vs) s of
        (s1, Some _) \<Rightarrow> (s1, Inl internalError)
      | (s1, None) \<Rightarrow>
     (case DeleteRun (fe_summary env) (sv_store s1) rid of
        (d, Some _) \<Rightarrow> (s1\<lparr>sv_store := d\<rparr>, Inl internalError)
      | (d, None) \<Rightarrow> (s1\<lparr>sv_store := d\<rparr>, Inr ()))))))"

definition EditRun ::
  "(string \<Rightarrow> params option) \<Rightarrow> (string \<Rightarrow> string) \<Rightarrow> server \<Rightarrow> fault_plan \<Rightarrow> fault_plan \<Rightarrow> uuid \<Rightarrow> string option option \<Rightarrow> supervisor
     \<Rightarrow> supervisor \<times> run_view response" where
  "EditRun decode jsonb S f reads rid request s =
     (if \<not> sr_runStore S then (s, Inl internalError)
      else (case request of
        None \<Rightarrow> (s, Inl invalidRequest)
      | Some raw \<Rightarrow>
     (case editedName raw of
        Inl e \<Rightarrow> (s, Inl e)
      | Inr name \<Rightarrow>
     (case RenameRun decode jsonb f (sv_store s) rid name of
        (d, Some e) \<Rightarrow> (s\<lparr>sv_store := d\<rparr>, Inl (run_error e))
      | (d, None) \<Rightarrow> (s\<lparr>sv_store := d\<rparr>, run_summary_view reads rid (s\<lparr>sv_store := d\<rparr>))))))"


subsection \<open>All or nothing\<close>

lemma SupDelete_running:
  assumes "SupDelete waiting env sid s = (s', e)" and "delete_env_good env sid" and "contexts_ok s" and "db_ok (sv_store s)"
    and "find_session (sv_store s) sid = Some r" and "c_status r = StatusRunning" and "\<forall>x \<in> set_option waiting. foreign x"
  shows "only_session sid s s'
    \<and> (e = None \<or> err_is e ErrNotFound \<longrightarrow> find_session (sv_store s') sid = None \<and> sv_workers s' sid = None)"
proof (cases "sv_closing s \<or> waiting \<noteq> None")
  case True
  with assms show ?thesis
    by (auto simp: SupDelete_def sessionOperation_def only_session_def foreign_def split: if_splits option.splits)
next
  case False
  then have "delete_session env sid s = (s', (), e)"
    using assms(1) by (auto simp: SupDelete_def sessionOperation_def split: prod.splits)
  from delete_running_outcome [OF this assms(2-6)] show ?thesis .
qed

text \<open>The clean-up loop: what it does not own stays, and when it is confirmed every child is gone.\<close>

lemma delete_children_outcome:
  assumes "delete_children envs ids s = (s', confirmed)" and "distinct ids" and "contexts_ok s" and "db_ok (sv_store s)"
    and "\<And>sid. sid \<in> set ids \<Longrightarrow> \<exists>r. find_session (sv_store s) sid = Some r \<and> c_status r = StatusRunning"
    and "\<And>sid. delete_env_good (snd (envs sid)) sid" and "\<And>sid. \<forall>x \<in> set_option (fst (envs sid)). foreign x"
  shows "(\<forall>x. x \<in> set ids \<or> find_session (sv_store s') x = find_session (sv_store s) x \<and> sv_workers s' x = sv_workers s x)
    \<and> t_runs (sv_store s') = t_runs (sv_store s) \<and> db_ok (sv_store s')
    \<and> (confirmed \<longrightarrow> (\<forall>x \<in> set ids. find_session (sv_store s') x = None \<and> sv_workers s' x = None))"
  using assms(1-5)
proof (induction ids arbitrary: s confirmed)
  case (Cons sid ids)
  obtain s1 e where del: "SupDelete (fst (envs sid)) (snd (envs sid)) sid s = (s1, e)" by fastforce
  obtain more where rest: "delete_children envs ids s1 = (s', more)"
    and conf: "confirmed = ((e = None \<or> err_is e ErrNotFound) \<and> more)"
    using Cons.prems(1) del by (auto split: prod.splits)
  obtain r where r: "find_session (sv_store s) sid = Some r" "c_status r = StatusRunning" using Cons.prems(5) [of sid] by auto
  from SupDelete_running [OF del assms(6) Cons.prems(3,4) r assms(7)]
  have others: "\<And>x. x \<noteq> sid \<Longrightarrow> find_session (sv_store s1) x = find_session (sv_store s) x"
      "\<And>x. x \<noteq> sid \<Longrightarrow> sv_workers s1 x = sv_workers s x" and inv: "db_ok (sv_store s1)" "contexts_ok s1" "t_runs (sv_store s1) = t_runs (sv_store s)"
    and gone: "e = None \<or> err_is e ErrNotFound \<Longrightarrow> find_session (sv_store s1) sid = None \<and> sv_workers s1 sid = None"
    by (simp_all add: only_session_def) blast+
  have sid: "sid \<notin> set ids" "distinct ids" using Cons.prems(2) by simp_all
  have "\<exists>r. find_session (sv_store s1) y = Some r \<and> c_status r = StatusRunning" if "y \<in> set ids" for y
    using that sid Cons.prems(5) [of y] others(1) [of y] by (cases "y = sid") simp_all
  from Cons.IH [OF rest sid(2) inv(2,1) this]
  have ih: "\<And>x. x \<notin> set ids \<Longrightarrow> find_session (sv_store s') x = find_session (sv_store s1) x"
    "\<And>x. x \<notin> set ids \<Longrightarrow> sv_workers s' x = sv_workers s1 x" "t_runs (sv_store s') = t_runs (sv_store s1)"
    "db_ok (sv_store s')" "more \<Longrightarrow> \<forall>x \<in> set ids. find_session (sv_store s') x = None \<and> sv_workers s' x = None" by blast+
  have "find_session (sv_store s') x = find_session (sv_store s) x \<and> sv_workers s' x = sv_workers s x" if "x \<notin> set (sid # ids)" for x
    using that ih(1,2) [of x] others [of x] by simp
  moreover have "find_session (sv_store s') sid = None \<and> sv_workers s' sid = None" if confirmed
    using that conf gone ih(1,2) [OF sid(1)] by simp
  ultimately show ?case using ih(3-5) inv(3) conf by simp blast
qed simp

text \<open>The start loop: the database stays, and success means that a worker owns every child.\<close>

lemma start_children_outcome:
  assumes "start_children envs ids s = (s', e)" and "contexts_ok s"
    and "\<And>sid. sid \<in> set ids \<Longrightarrow> \<exists>r. find_session (sv_store s) sid = Some r \<and> c_status r = StatusRunning"
    and "\<And>sid. start_env_ok (snd (envs sid))" and "\<And>sid. \<forall>x \<in> set_option (fst (envs sid)). foreign x"
  shows "sv_store s' = sv_store s \<and> contexts_ok s' \<and> (\<forall>x. x \<in> set ids \<or> sv_workers s' x = sv_workers s x)
    \<and> (\<forall>x. sv_workers s x \<noteq> None \<longrightarrow> sv_workers s' x \<noteq> None)
    \<and> (e = None \<longrightarrow> (\<forall>x \<in> set ids. sv_workers s' x \<noteq> None))"
  using assms(1-3)
proof (induction ids arbitrary: s)
  case (Cons sid ids)
  obtain s1 x where st: "Start (fst (envs sid)) (snd (envs sid)) sid s = (s1, x)" by fastforce
  note res = Start_result [OF st]
  obtain r where r: "find_session (sv_store s) sid = Some r" "c_status r = StatusRunning" using Cons.prems(3) [of sid] by auto
  show ?case
  proof (cases x)
    case None
    have ctx: "contexts_ok s1"
      using st Cons.prems(2) by (auto simp: Start_def sessionOperation_def contexts_ok_def split: option.splits if_splits prod.splits
          dest: startCurrent_result(5,6))
    have "start_children envs ids s1 = (s', e)" using Cons.prems(1) st None by simp
    from Cons.IH [OF this ctx] Cons.prems(3) res(1)
    have ih: "sv_store s' = sv_store s1" "contexts_ok s'" "\<And>x. x \<notin> set ids \<Longrightarrow> sv_workers s' x = sv_workers s1 x"
      "\<And>x. sv_workers s1 x \<noteq> None \<Longrightarrow> sv_workers s' x \<noteq> None" "e = None \<Longrightarrow> \<forall>x \<in> set ids. sv_workers s' x \<noteq> None" by auto
    have "sv_workers s' x = sv_workers s x" if "x \<notin> set (sid # ids)" for x
      using that ih(3) [of x] res(4) [of x] by simp
    moreover have "sv_workers s' x \<noteq> None" if "sv_workers s x \<noteq> None" for x
      using that ih(4) [of x] res(5) [of x] by simp
    ultimately show ?thesis using ih(1,2,5) ih(4) [OF res(3) [OF None]] res(1) by simp blast
  next
    case (Some y)
    then have "foreign y" using Start_running_foreign [OF _ r assms(4) Cons.prems(2) assms(5)] st by blast
    with Cons.prems(1,2) st Some res(1,2) show ?thesis by (auto simp: foreign_def)
  qed
qed simp

abbreviation child_id :: "child_session \<Rightarrow> uuid" where "child_id c \<equiv> s_ID (cs_Session c)"

lemma child_row_simps [simp]:
  "c_id (child_row rid c) = child_id c" "c_run_id (child_row rid c) = Some rid" "c_status (child_row rid c) = s_Status (cs_Session c)"
  "c_variant_params (child_row rid c) = Some (cs_Params c)" "c_cell_key (child_row rid c) = Some (cs_CellKey c)"
  "c_name (child_row rid c) = s_Name (cs_Session c)" "c_proxy_display (child_row rid c) = ProxyDisplay (cs_Session c)"
  "c_proxy_ciphertext (child_row rid c) = ProxyCiphertext (cs_Session c)" "c_proxy_nonce (child_row rid c) = ProxyNonce (cs_Session c)"
  "\<not> c_name_customized (child_row rid c)"
  by (simp_all add: child_row_def)

lemma insert_children_new:
  assumes "insert_children f rid cs d = Inr d'"
  shows "distinct (map child_id cs)" "c \<in> set cs \<Longrightarrow> find_session d (child_id c) = None"
    "c \<in> set cs \<Longrightarrow> find_session d' (child_id c) = Some (child_row rid c)"
    "x \<notin> child_id ` set cs \<Longrightarrow> find_session d' x = find_session d x" "t_runs d' = t_runs d"
proof -
  have "distinct (map child_id cs) \<and> (\<forall>c \<in> set cs. find_session d (child_id c) = None \<and> find_session d' (child_id c) = Some (child_row rid c))
    \<and> (\<forall>x. x \<notin> child_id ` set cs \<longrightarrow> find_session d' x = find_session d x) \<and> t_runs d' = t_runs d"
    using assms
  proof (induction cs arbitrary: f d)
    case Nil
    then show ?case by (auto split: option.splits)
  next
    case (Cons c cs)
    have same: "(child_row rid c)\<lparr>c_name_customized := False\<rparr> = child_row rid c" by (simp add: child_row_def)
    obtain d1 where ins: "insert_row (child_row rid c) d = Inr d1" and rest: "insert_children (\<lambda>k. f (Suc k)) rid cs d1 = Inr d'"
      using Cons.prems by (auto simp: same split: option.splits sum.splits)
    note new = insert_new_row [OF ins]
    have "t_runs d1 = t_runs d" using ins by (auto simp: insert_row_def split: if_splits)
    moreover have "child_id c \<notin> child_id ` set cs" using Cons.IH [OF rest] new(2) by (auto simp: image_iff)
    ultimately show ?case using Cons.IH [OF rest] new by (auto split: if_splits)
  qed
  then show "distinct (map child_id cs)" "c \<in> set cs \<Longrightarrow> find_session d (child_id c) = None"
    "c \<in> set cs \<Longrightarrow> find_session d' (child_id c) = Some (child_row rid c)"
    "x \<notin> child_id ` set cs \<Longrightarrow> find_session d' x = find_session d x" "t_runs d' = t_runs d" by auto
qed

text \<open>A stored run: the row and one row per child, all new.\<close>

lemma CreateRun_new:
  assumes "CreateRun f d r cs = (d', None)"
  shows "find_run d (run_ID r) = None" "find_run d' (run_ID r) = Some (r\<lparr>run_CreatedAt := timestamp (run_CreatedAt r)\<rparr>)"
    "distinct (map child_id cs)" "c \<in> set cs \<Longrightarrow> find_session d (child_id c) = None"
    "c \<in> set cs \<Longrightarrow> find_session d' (child_id c) = Some (child_row (run_ID r) c)"
    "x \<notin> child_id ` set cs \<Longrightarrow> find_session d' x = find_session d x"
proof -
  obtain tx g where run: "insert_run r d = Inr tx" and children: "insert_children g (run_ID r) cs tx = Inr d'"
    using CreateRun_cases [OF assms] by auto
  note new = insert_children_new [OF children]
  have "find P (xs @ [y]) = (case find P xs of None \<Rightarrow> if P y then Some y else None | Some z \<Rightarrow> Some z)" for P and xs :: "run list" and y
    by (induction xs) auto
  with run new(5) show "find_run d (run_ID r) = None" "find_run d' (run_ID r) = Some (r\<lparr>run_CreatedAt := timestamp (run_CreatedAt r)\<rparr>)"
    by (auto simp: insert_run_def find_run_def split: if_splits)
  have "find_session tx y = find_session d y" for y
    using run by (auto simp: insert_run_def find_session_def split: if_splits)
  with new show "distinct (map child_id cs)" "c \<in> set cs \<Longrightarrow> find_session d (child_id c) = None"
    "c \<in> set cs \<Longrightarrow> find_session d' (child_id c) = Some (child_row (run_ID r) c)"
    "x \<notin> child_id ` set cs \<Longrightarrow> find_session d' x = find_session d x" by simp_all
qed

text \<open>Deleting a run without children.\<close>

lemma DeleteRun_result:
  assumes "DeleteRun f d rid = (d', e)" and "\<And>x r. find_session d x = Some r \<Longrightarrow> c_run_id r \<noteq> Some rid" and "db_ok d"
  shows "if e = None then find_run d' rid = None else d' = d" "find_session d' x = find_session d x"
proof -
  show "if e = None then find_run d' rid = None else d' = d"
    using assms(1) by (auto simp: DeleteRun_def find_run_def find_None_iff delete_sessions_def split: option.splits)
  have "\<forall>r \<in> set (t_sessions d). c_run_id r \<noteq> Some rid"
    using assms(2,3) find_unique [of "t_sessions d"] by (auto simp: db_ok_def find_session_def)
  then have "filter (\<lambda>r. c_run_id r \<noteq> Some rid) (t_sessions d) = t_sessions d" by (simp add: filter_id_conv)
  then show "find_session d' x = find_session d x"
    using assms(1) by (auto simp: DeleteRun_def find_session_def delete_sessions_def split: option.splits)
qed

text \<open>What a run request does to the supervisor: everything, or nothing that could run on its own.\<close>

definition run_all_or_nothing :: "uuid \<Rightarrow> uuid list \<Rightarrow> supervisor \<Rightarrow> supervisor \<Rightarrow> run_view response \<Rightarrow> bool" where
  "run_all_or_nothing rid ids s s' r \<longleftrightarrow>
     (\<forall>x. x \<in> set ids \<or> find_session (sv_store s') x = find_session (sv_store s) x \<and> sv_workers s' x = sv_workers s x)
   \<and> (case r of
        Inr w \<Rightarrow> rv_VariantCount w = int (length ids) \<and> find_run (sv_store s') rid \<noteq> None
          \<and> list_all (\<lambda>x. (\<exists>row. find_session (sv_store s') x = Some row \<and> c_run_id row = Some rid \<and> c_status row = StatusRunning)
               \<and> sv_workers s' x \<noteq> None) ids
      | Inl e \<Rightarrow> e = internalError \<and> (find_run (sv_store s') rid \<noteq> None
          \<or> (\<forall>x. find_session (sv_store s') x = find_session (sv_store s) x \<and> sv_workers s' x \<in> {sv_workers s x, None})))"

definition run_env_ok :: "run_env \<Rightarrow> bool" where
  "run_env_ok env \<longleftrightarrow> (\<forall>sid. start_env_ok (snd (re_start env sid)) \<and> (\<forall>x \<in> set_option (fst (re_start env sid)). foreign x)
     \<and> delete_env_good (snd (re_delete env sid)) sid \<and> (\<forall>x \<in> set_option (fst (re_delete env sid)). foreign x))"

text \<open>The roll-back after a failed start; \<open>old\<close> is the database before the run.\<close>

lemma roll_back_outcome:
  assumes del: "delete_children (re_delete env) ids s1 = (s2, confirmed)" and "distinct ids" and "contexts_ok s1" and "db_ok (sv_store s1)"
    and running: "\<forall>x \<in> set ids. \<exists>row. find_session (sv_store s1) x = Some row \<and> c_status row = StatusRunning"
    and "run_env_ok env" and "find_run (sv_store s1) rid \<noteq> None"
    and before: "\<And>x. find_session old x = (if x \<in> set ids then None else find_session (sv_store s1) x)"
    and fresh: "\<forall>x row. find_session old x = Some row \<longrightarrow> c_run_id row \<noteq> Some rid"
  defines "s' \<equiv> if confirmed then s2\<lparr>sv_store := fst (DeleteRun (re_deleteRun env) (sv_store s2) rid)\<rparr> else s2"
  shows "x \<notin> set ids \<Longrightarrow> find_session (sv_store s') x = find_session old x \<and> sv_workers s' x = sv_workers s1 x"
    and "find_run (sv_store s') rid \<noteq> None
      \<or> (\<forall>x. find_session (sv_store s') x = find_session old x \<and> sv_workers s' x = (if x \<in> set ids then None else sv_workers s1 x))"
proof -
  have "(\<forall>x. x \<in> set ids \<or> find_session (sv_store s2) x = find_session (sv_store s1) x \<and> sv_workers s2 x = sv_workers s1 x)
      \<and> t_runs (sv_store s2) = t_runs (sv_store s1) \<and> db_ok (sv_store s2)
      \<and> (confirmed \<longrightarrow> (\<forall>x \<in> set ids. find_session (sv_store s2) x = None \<and> sv_workers s2 x = None))"
    using delete_children_outcome [OF del assms(2-4)] running assms(6) by (simp add: run_env_ok_def)
  then have s2: "\<And>x. x \<notin> set ids \<Longrightarrow> find_session (sv_store s2) x = find_session old x \<and> sv_workers s2 x = sv_workers s1 x"
    "t_runs (sv_store s2) = t_runs (sv_store s1)" "db_ok (sv_store s2)"
    "confirmed \<Longrightarrow> \<forall>x \<in> set ids. find_session (sv_store s2) x = None \<and> sv_workers s2 x = None"
    using before by auto
  have kept: "find_run (sv_store s2) rid \<noteq> None" using s2(2) assms(7) by (simp add: find_run_def)
  have "(x \<notin> set ids \<longrightarrow> find_session (sv_store s') x = find_session old x \<and> sv_workers s' x = sv_workers s1 x)
    \<and> (find_run (sv_store s') rid \<noteq> None
      \<or> (\<forall>x. find_session (sv_store s') x = find_session old x \<and> sv_workers s' x = (if x \<in> set ids then None else sv_workers s1 x)))"
  proof (cases confirmed)
    case False
    with s2(1) kept show ?thesis by (simp add: s'_def)
  next
    case True
    obtain d3 e3 where dr: "DeleteRun (re_deleteRun env) (sv_store s2) rid = (d3, e3)" by fastforce
    have gone: "find_session (sv_store s2) x = find_session old x" for x
      using s2(1) [of x] s2(4) True before [of x] by (cases "x \<in> set ids") auto
    have "c_run_id row \<noteq> Some rid" if "find_session (sv_store s2) x = Some row" for x row
      using that gone fresh by metis
    note drr = DeleteRun_result [OF dr this s2(3)]
    have "sv_workers s2 x = (if x \<in> set ids then None else sv_workers s1 x)" for x using s2(1,4) True by auto
    with True dr drr(2) gone s2(1) show ?thesis by (auto simp: s'_def)
  qed
  then show "x \<notin> set ids \<Longrightarrow> find_session (sv_store s') x = find_session old x \<and> sv_workers s' x = sv_workers s1 x"
    "find_run (sv_store s') rid \<noteq> None
      \<or> (\<forall>x. find_session (sv_store s') x = find_session old x \<and> sv_workers s' x = (if x \<in> set ids then None else sv_workers s1 x))" by auto
qed

lemma start_run_outcome:
  assumes "start_run env r children s = (s', res)" and "run_env_ok env" and "contexts_ok s" and "db_ok (sv_store s)"
    and "\<forall>c \<in> set children. s_Status (cs_Session c) = StatusRunning"
  shows "run_all_or_nothing (run_ID r) (map child_id children) s s' res"
proof -
  let ?ids = "map child_id children"
  obtain d ce where create: "CreateRun (re_create env) (sv_store s) r children = (d, ce)" by fastforce
  show ?thesis
  proof (cases ce)
    case (Some e)
    then have "d = sv_store s" using CreateRun_cases [OF create] by simp
    with assms(1) create Some show ?thesis by (auto simp: start_run_def run_all_or_nothing_def)
  next
    case None
    note new = CreateRun_new [OF create [unfolded None]]
    define s0 where "s0 = s\<lparr>sv_store := d\<rparr>"
    have s0: "sv_store s0 = d" "sv_workers s0 = sv_workers s" "contexts_ok s0" using assms(3) by (simp_all add: s0_def contexts_ok_def)
    have ok: "db_ok d" using apply_op_ok [of "sv_store s" "\<lambda>_. None" id "re_create env" "DoCreateRun r children"] create assms(4) by simp
    have run: "\<exists>row. find_session (sv_store s0) x = Some row \<and> c_status row = StatusRunning" if "x \<in> set ?ids" for x
      using that new(5) assms(5) s0(1) by auto
    obtain s1 se where st: "start_children (re_start env) ?ids s0 = (s1, se)" by fastforce
    have "sv_store s1 = d \<and> contexts_ok s1 \<and> (\<forall>x. x \<in> set ?ids \<or> sv_workers s1 x = sv_workers s x)
      \<and> (se = None \<longrightarrow> (\<forall>x \<in> set ?ids. sv_workers s1 x \<noteq> None))"
      using start_children_outcome [OF st s0(3) run] assms(2) s0(1,2) by (simp add: run_env_ok_def)
    then have s1: "sv_store s1 = d" "contexts_ok s1" "\<And>x. x \<notin> set ?ids \<Longrightarrow> sv_workers s1 x = sv_workers s x"
      "se = None \<Longrightarrow> \<forall>x \<in> set ?ids. sv_workers s1 x \<noteq> None" by blast+
    show ?thesis
    proof (cases se)
      case None: None
      then have "s' = s1" "res = Inr (mapRun \<lparr>rs_Run = r, rs_VariantCount = int (length children), rs_DistinctIPs = 0, rs_Status = RunRunning\<rparr>)"
        using assms(1) create \<open>ce = None\<close> st by (simp_all add: start_run_def Let_def s0_def comp_def)
      with s1 new assms(5) None show ?thesis
        by (auto simp add: run_all_or_nothing_def mapRun_def list_all_iff)
    next
      case (Some x)
      obtain s2 confirmed where del: "delete_children (re_delete env) ?ids s1 = (s2, confirmed)" by fastforce
      have out: "s' = (if confirmed then s2\<lparr>sv_store := fst (DeleteRun (re_deleteRun env) (sv_store s2) (run_ID r))\<rparr> else s2)"
        "res = Inl internalError"
        using assms(1) create \<open>ce = None\<close> st Some del by (simp_all add: start_run_def Let_def s0_def comp_def)
      have before: "find_session (sv_store s) x = (if x \<in> set ?ids then None else find_session (sv_store s1) x)" for x
        using new(4,6) s1(1) by auto
      have fresh: "\<forall>x row. find_session (sv_store s) x = Some row \<longrightarrow> c_run_id row \<noteq> Some (run_ID r)"
      proof (intro allI impI notI)
        fix x row
        assume "find_session (sv_store s) x = Some row" "c_run_id row = Some (run_ID r)"
        with find_session_Some [of "sv_store s" x row] assms(4) have "run_ID r \<in> run_ID ` set (t_runs (sv_store s))" by (auto simp: db_ok_def)
        with new(1) show False by (simp add: find_run_None)
      qed
      have kept: "find_run (sv_store s1) (run_ID r) \<noteq> None" "db_ok (sv_store s1)" using new(2) s1(1) ok by simp_all
      have run1: "\<forall>x \<in> set ?ids. \<exists>row. find_session (sv_store s1) x = Some row \<and> c_status row = StatusRunning"
        using run s0(1) s1(1) by simp
      note rb = roll_back_outcome [where ids = ?ids and old = "sv_store s" and rid = "run_ID r", OF del new(3) s1(2) kept(2) run1 assms(2) kept(1) before fresh]
      have "find_session (sv_store s') x = find_session (sv_store s) x \<and> sv_workers s' x = sv_workers s x" if "x \<notin> set ?ids" for x
        using rb(1) [where x = x] s1(3) [of x] that unfolding out(1) by simp
      moreover have "find_run (sv_store s') (run_ID r) \<noteq> None
          \<or> (\<forall>x. find_session (sv_store s') x = find_session (sv_store s) x \<and> sv_workers s' x = (if x \<in> set ?ids then None else sv_workers s1 x))"
        unfolding out(1) by (rule rb(2))
      then have "find_run (sv_store s') (run_ID r) \<noteq> None
          \<or> (\<forall>x. find_session (sv_store s') x = find_session (sv_store s) x \<and> sv_workers s' x \<in> {sv_workers s x, None})"
      proof
        assume *: "\<forall>x. find_session (sv_store s') x = find_session (sv_store s) x \<and> sv_workers s' x = (if x \<in> set ?ids then None else sv_workers s1 x)"
        have "sv_workers s' x \<in> {sv_workers s x, None}" for x using * s1(3) [of x] by (cases "x \<in> set ?ids") simp_all
        with * show ?thesis by blast
      qed blast
      ultimately show ?thesis using out(2) unfolding run_all_or_nothing_def by auto
    qed
  qed
qed

lemma start_run_success:
  assumes "start_run env r children s = (s', Inr w)" and "run_env_ok env" and "contexts_ok s"
    and "\<forall>c \<in> set children. s_Status (cs_Session c) = StatusRunning" and "c \<in> set children"
  shows "find_session (sv_store s') (child_id c) = Some (child_row (run_ID r) c)" "rv_VariantCount w = int (length children)"
proof -
  obtain d where create: "CreateRun (re_create env) (sv_store s) r children = (d, None)"
    and start: "start_children (re_start env) (map child_id children) (s\<lparr>sv_store := d\<rparr>) = (s', None)"
    and w: "rv_VariantCount w = int (length children)"
    using assms(1) by (auto simp: start_run_def Let_def mapRun_def split: prod.splits option.splits)
  note new = CreateRun_new [OF create]
  have "contexts_ok (s\<lparr>sv_store := d\<rparr>)" using assms(3) by (simp add: contexts_ok_def)
  moreover have "\<exists>row. find_session (sv_store (s\<lparr>sv_store := d\<rparr>)) x = Some row \<and> c_status row = StatusRunning"
    if "x \<in> set (map child_id children)" for x using that new(5) assms(4) by auto
  ultimately have "sv_store s' = d" using start_children_outcome [OF start] assms(2) by (simp add: run_env_ok_def)
  with new(5) assms(5) w show "find_session (sv_store s') (child_id c) = Some (child_row (run_ID r) c)"
    "rv_VariantCount w = int (length children)" by simp_all
qed

text \<open>The children are the variants, one by one.\<close>

definition child_of :: "(string \<Rightarrow> url option) \<Rightarrow> run_env \<Rightarrow> string \<Rightarrow> nat \<Rightarrow> variant \<Rightarrow> child_session \<Rightarrow> bool" where
  "child_of parse env name k v c \<longleftrightarrow> child_id c = re_ids env k \<and> s_Status (cs_Session c) = StatusRunning
     \<and> s_Name (cs_Session c) = VariantName name (v_params v) \<and> cs_Params c = json_object (v_params v) \<and> cs_CellKey c = v_cell_key v
     \<and> Display parse (v_url v) = Inr (ProxyDisplay (cs_Session c)) \<and> \<not> credentialInPassword parse (v_url v) (v_params v)"

lemma make_children_of:
  assumes "make_children parse c env name body st k vs = Inr cs"
  shows "length cs = length vs \<and> (\<forall>i < length vs. child_of parse env name (k + i) (vs ! i) (cs ! i))"
  using assms
proof (induction vs arbitrary: k cs)
  case (Cons v vs)
  obtain display ct nonce rest where cs: "cs = \<lparr>cs_Session = new_session (re_ids env k) (VariantName name (v_params v)) ct nonce display body st (re_now env),
        cs_Params = json_object (v_params v), cs_CellKey = v_cell_key v\<rparr> # rest"
    "make_children parse c env name body st (Suc k) vs = Inr rest"
    "Display parse (v_url v) = Inr display" "\<not> credentialInPassword parse (v_url v) (v_params v)"
    using Cons.prems by (auto split: if_splits sum.splits prod.splits)
  then have "child_of parse env name k v (hd cs)" by (simp add: child_of_def)
  with cs(1) Cons.IH [OF cs(2)] show ?case by (auto simp: less_Suc_eq_0_disj)
qed simp

lemma child_ids:
  assumes "make_children parse c env name body st 0 vs = Inr cs"
  shows "map child_id cs = map (re_ids env) [0..<length cs]"
  using make_children_of [OF assms] by (intro nth_equalityI) (auto simp: child_of_def)

lemma plan_run_ok:
  assumes "plan_run parse rand_int g S c env request template st = Inr (r, cs)"
  obtains t axes vs where "ParseTemplate template = Inr t" "mapAxes (rr_Axes request) = Some axes"
    "fst (Expand t axes (DefaultRandString rand_int) (sr_maxVariants S) g) = Inr vs" "vs \<noteq> []" "run_ID r = re_id env"
    "make_children parse c env (trim_space (rq_Name (rr_settings request))) (rr_settings request) st 0 vs = Inr cs"
    "run_Name r = trim_space (rq_Name (rr_settings request))"
  using assms by (auto simp: plan_run_def Let_def split: sum.splits option.splits if_splits prod.splits)

text \<open>The outcomes of the handler: refused, failed before the database, or planned and started.\<close>

lemma CreateRun_handled:
  assumes "api_CreateRun parse rand_int g S env request s = (s', res)"
  obtains (refused) e where "s' = s" "res = Inl e" "e = invalidRequest \<or> e = internalError"
    | (planned) body template st c r cs where "request = Some body" "rr_Template body = Some template" "sr_cipher S = Some c"
        "plan_run parse rand_int g S c env body template st = Inr (r, cs)" "start_run env r cs s = (s', res)"
proof -
  have settings: "e = invalidRequest" if "sampling_settings parse S body = Inl e" for body e
    using that by (auto simp: sampling_settings_def Let_def split: if_splits option.splits)
  have children: "e = invalidRequest \<or> e = internalError" if "make_children parse c env name body st k vs = Inl e" for c name body st k vs e
    using that by (induction vs arbitrary: k) (auto split: if_splits sum.splits prod.splits)
  have plan: "e = invalidRequest \<or> e = internalError" if "plan_run parse rand_int g S c env body template st = Inl e" for c body template st e
    using that children by (auto simp: plan_run_def Let_def split: sum.splits option.splits if_splits prod.splits)
  show thesis
    using assms settings plan refused planned
    by (simp add: api_CreateRun_def split: option.splits if_splits sum.splits prod.splits) metis+
qed




subsection \<open>A run for examples\<close>

definition run_parse_url :: "string \<Rightarrow> url option" where
  "run_parse_url raw =
     (if raw = ''hx'' \<or> raw = ''hy'' then Some \<lparr>u_scheme = ''http'', u_host = ''h:1'', u_hostname = ''h'', u_port = ''1'', u_user = Some (''u'', Some ''p'')\<rparr>
      else demo_parse_url raw)"

definition demo_run_request :: run_request where
  "demo_run_request = \<lparr>rr_settings = demo_request\<lparr>rq_Proxy := None\<rparr>, rr_Template = Some ''h{a}'',
     rr_Axes = [(''a'', \<lparr>aa_kind = AxisList, aa_values = Some [''x'', ''y''], aa_from = None, aa_to = None, aa_count = None, aa_length = None\<rparr>)]\<rparr>"

definition demo_run_env :: run_env where
  "demo_run_env = \<lparr>re_random = (\<lambda>_ n. Inr (replicate n (CHR ''n''))), re_id = 90, re_ids = (\<lambda>k. 91 + k), re_now = 5000,
     re_axesJSON = Inr ''{}'', re_create = no_faults, re_start = (\<lambda>_. (None, demo_start)), re_delete = (\<lambda>_. (None, demo_delete)),
     re_deleteRun = no_faults\<rparr>"

definition demo_rand_int :: "nat \<Rightarrow> nat vresult \<times> nat" where "demo_rand_int r = (Inr 0, r)"

lemma demo_run_axes: "mapAxes (rr_Axes demo_run_request) = Some demo_axes"
proof -
  have "\<not> contains_any ''x'' unsafeAxisValueChars" "\<not> contains_any ''y'' unsafeAxisValueChars" by code_simp+
  then show ?thesis by (simp add: demo_run_request_def map_axis_def demo_axes_def zero_axis_def)
qed

lemma demo_run_expand:
  "fst (Expand \<lparr>tpl_raw = ''h{a}'', tpl_names = [''a'']\<rparr> demo_axes (DefaultRandString demo_rand_int) 128 0) =
     Inr [\<lparr>v_params = [(''a'', ''x'')], v_cell_key = canonicalKey [(''a'', ''x'')], v_url = ''hx''\<rparr>,
          \<lparr>v_params = [(''a'', ''y'')], v_cell_key = canonicalKey [(''a'', ''y'')], v_url = ''hy''\<rparr>]"
  by (simp add: Expand_def demo_axes_def Placeholders_def plannedCount_def axis_size_def axis_of_def
      go_div_def int64_def cartesian_def values_of_def fixed_names_def random_names_def Let_def
      randomCartesian_def Render_def trim_space_visible visible_def find_all_index_def find_all_from.simps match_at.simps
      brace_def Template.slice_def MaxRenderedBytes_def)

lemma demo_run_env_ok: "run_env_ok demo_run_env"
  by (simp add: run_env_ok_def demo_run_env_def start_env_ok_def demo_start_def delete_env_good_def demo_delete_def demo_stop_def
      stop_env_ok_def foreign_faults_def foreign_def)

lemma demo_contexts_ok: "contexts_ok demo_supervisor"
  by (simp add: contexts_ok_def demo_supervisor_def)

lemma demo_run_settings: "sampling_settings run_parse_url demo_server (rr_settings demo_run_request) = Inr demo_settings"
proof -
  have "validProbeTarget run_parse_url ''https://t''" by (simp add: validProbeTarget_def run_parse_url_def demo_parse_url_def)
  then show ?thesis using demo_settings_of
    by (simp add: sampling_settings_def demo_server_def demo_run_request_def demo_request_def NewServer_def Let_def split: if_splits)
qed

lemma demo_run_plan:
  "\<exists>r cs. plan_run run_parse_url demo_rand_int 0 demo_server demo_aead demo_run_env demo_run_request ''h{a}'' demo_settings = Inr (r, cs)
     \<and> run_ID r = 90 \<and> map child_id cs = [91, 92]
     \<and> (\<forall>c \<in> set cs. \<exists>sid name ct nonce display. cs_Session c = new_session sid name ct nonce display (rr_settings demo_run_request) demo_settings 5000)"
proof -
  have ok: "\<not> credentialInPassword run_parse_url ''hx'' [(''a'', ''x'')]" "\<not> credentialInPassword run_parse_url ''hy'' [(''a'', ''y'')]"
    by (simp_all add: credentialInPassword_def run_parse_url_def url_password_def contains_str_def)
  have display: "Display run_parse_url ''hx'' = Inr ''h:1''" "Display run_parse_url ''hy'' = Inr ''h:1''"
    by (simp_all add: Display_def parseURL_def run_parse_url_def join_host_port_def)
  show ?thesis
    using demo_parse demo_run_axes demo_run_expand ok display
    by (simp add: plan_run_def Let_def demo_server_def NewServer_def Encrypt_def demo_run_env_def) blast
qed

lemma insert_children_succeeds:
  assumes "\<And>k. f k = None" and "distinct (map child_id cs)" and "\<And>c. c \<in> set cs \<Longrightarrow> find_session d (child_id c) = None"
    and "\<And>c. c \<in> set cs \<Longrightarrow> row_ok (child_row rid c)" and "find_run d rid \<noteq> None"
  shows "\<exists>d'. insert_children f rid cs d = Inr d'"
  using assms
proof (induction cs arbitrary: f d)
  case Nil then show ?case by simp
next
  case (Cons c cs)
  have same: "(child_row rid c)\<lparr>c_name_customized := False\<rparr> = child_row rid c" by (simp add: child_row_def)
  have "\<exists>x \<in> set (t_runs d). run_ID x = rid" using Cons.prems(5) by (auto simp: find_run_def find_None_iff)
  then obtain d1 where ins: "insert_row (child_row rid c) d = Inr d1"
    using Cons.prems(3) [of c] Cons.prems(4) [of c] by (simp add: insert_row_def)
  note new = insert_new_row [OF ins]
  have "t_runs d1 = t_runs d" using ins by (auto simp: insert_row_def split: if_splits)
  then have run: "find_run d1 rid \<noteq> None" using Cons.prems(5) by (simp add: find_run_def)
  have fresh: "find_session d1 (child_id x) = None" if x: "x \<in> set cs" for x
  proof -
    have "child_id x \<in> child_id ` set cs" using x by (rule imageI)
    then have "child_id x \<noteq> child_id c" using Cons.prems(2) by auto
    then show ?thesis using Cons.prems(3) [of x] x unfolding new(2) by simp
  qed
  have "\<exists>d'. insert_children (\<lambda>k. f (Suc k)) rid cs d1 = Inr d'"
  proof (rule Cons.IH)
    show "f (Suc k) = None" for k by (rule Cons.prems(1))
    show "distinct (map child_id cs)" using Cons.prems(2) by simp
    show "row_ok (child_row rid x)" if "x \<in> set cs" for x using Cons.prems(4) [of x] that by simp
  qed (use fresh run in blast)+
  then show ?case using Cons.prems(1) [of 0] by (simp add: same ins)
qed

lemma start_children_succeeds:
  assumes "\<And>sid. fst (envs sid) = None" and "\<And>sid. foreign_faults (se_fault (snd (envs sid)))" "\<And>sid. se_fault (snd (envs sid)) 0 = None"
    and "\<And>sid v. \<exists>p. se_prepare (snd (envs sid)) v = Inr p" and "\<not> sv_closing s" "sv_root s = None"
    and "\<And>sid. sid \<in> set ids \<Longrightarrow> \<exists>r. find_session (sv_store s) sid = Some r \<and> c_status r = StatusRunning"
  shows "\<exists>s'. start_children envs ids s = (s', None)"
  using assms(5-7)
proof (induction ids arbitrary: s)
  case (Cons sid ids)
  obtain s1 st e where cur: "startCurrent (snd (envs sid)) sid s = (s1, st, e)" by (metis prod_cases3)
  obtain r where r: "find_session (sv_store s) sid = Some r" "c_status r = StatusRunning" using Cons.prems(3) [of sid] by auto
  have "e = None" by (rule startCurrent_running(2) [OF cur r assms(2) Cons.prems(1,2) assms(3,4)])
  with cur have start: "Start (fst (envs sid)) (snd (envs sid)) sid s = (s1, None)"
    using assms(1) Cons.prems(1,2) by (simp add: Start_def sessionOperation_def)
  note res = startCurrent_result [OF cur]
  have "\<exists>s'. start_children envs ids s1 = (s', None)"
  proof (rule Cons.IH)
    show "\<not> sv_closing s1" "sv_root s1 = None" using res(4,5) Cons.prems(1,2) by simp_all
    show "\<exists>r. find_session (sv_store s1) x = Some r \<and> c_status r = StatusRunning" if "x \<in> set ids" for x
      using res(1) Cons.prems(3) [of x] that by simp
  qed
  with start show ?case by simp
qed simp

lemma demo_run_created:
  "\<exists>s' w. api_CreateRun run_parse_url demo_rand_int 0 demo_server demo_run_env (Some demo_run_request) demo_supervisor = (s', Inr w)"
proof -
  obtain r cs where plan: "plan_run run_parse_url demo_rand_int 0 demo_server demo_aead demo_run_env demo_run_request ''h{a}'' demo_settings = Inr (r, cs)"
    and ids: "run_ID r = 90" "map child_id cs = [91, 92]"
    and made: "\<forall>c \<in> set cs. \<exists>sid name ct nonce display. cs_Session c = new_session sid name ct nonce display (rr_settings demo_run_request) demo_settings 5000"
    using demo_run_plan by (elim exE conjE) (rule that)
  have cad: "validPersistedInteger (rq_CadenceSeconds (rr_settings demo_run_request)) 1"
    by (simp add: demo_run_request_def demo_request_def validPersistedInteger_def maxPersistedInteger_def)
  have rows: "row_ok (child_row 90 c)" "s_Status (cs_Session c) = StatusRunning" if "c \<in> set cs" for c
    using bspec [OF made that] new_session_typed(1) [OF demo_run_settings cad] by (auto simp: child_row_def row_ok_def)
  define tx where "tx = demo_db\<lparr>t_runs := [r\<lparr>run_CreatedAt := timestamp (run_CreatedAt r)\<rparr>]\<rparr>"
  have tx: "insert_run r demo_db = Inr tx" by (simp add: insert_run_def tx_def find_run_def demo_db_def empty_db_def)
  have fresh: "find_session tx (child_id c) = None" if "c \<in> set cs" for c
  proof -
    have "child_id ` set cs = {91, 92}" using arg_cong [OF ids(2), of set] by simp
    then have "child_id c \<in> {91, 92}" using that by blast
    then have "child_id c \<noteq> 7" by auto
    then show ?thesis by (simp add: find_session_def tx_def demo_db_def)
  qed
  have "find_run tx 90 \<noteq> None" using ids(1) by (simp add: tx_def find_run_def)
  then have "\<exists>d. insert_children no_faults 90 cs tx = Inr d"
    by (rule insert_children_succeeds [rotated 4]) (simp_all add: rows fresh ids(2))
  then obtain d where ins: "insert_children no_faults 90 cs tx = Inr d" ..
  have nf: "(\<lambda>k :: nat. None) = no_faults" by (rule ext) simp
  have create: "CreateRun no_faults demo_db r cs = (d, None)"
    using tx ins ids(1) by (simp add: CreateRun_def nf)
  have "\<exists>row. find_session d x = Some row \<and> c_status row = StatusRunning" if "x \<in> set (map child_id cs)" for x
    using that CreateRun_new(5) [OF create] rows(2) by (auto simp: ids(1))
  then have "\<exists>s'. start_children (\<lambda>_. (None, demo_start)) (map child_id cs) (demo_supervisor\<lparr>sv_store := d\<rparr>) = (s', None)"
    by (intro start_children_succeeds) simp_all
  then obtain s' where "start_children (\<lambda>_. (None, demo_start)) (map child_id cs) (demo_supervisor\<lparr>sv_store := d\<rparr>) = (s', None)" ..
  then have start: "\<exists>w. start_run demo_run_env r cs demo_supervisor = (s', Inr w)"
    using create by (simp add: start_run_def demo_run_env_def Let_def comp_def)
  have "rune_count ''s'' \<le> 100" by code_simp
  then have "valid_request (rr_settings demo_run_request)"
    using cad by (simp add: valid_request_def valid_name_def demo_run_request_def demo_request_def trim_space_visible visible_def)
  moreover have "trim_space ''h{a}'' \<noteq> []" by (simp add: trim_space_visible visible_def)
  ultimately have "api_CreateRun run_parse_url demo_rand_int 0 demo_server demo_run_env (Some demo_run_request) demo_supervisor
      = start_run demo_run_env r cs demo_supervisor"
    using plan demo_run_settings by (simp add: api_CreateRun_def demo_server_def NewServer_def demo_run_request_def maxTemplateBytes_def)
  with start show ?thesis by auto
qed




subsection \<open>Fanning out over the children\<close>

text \<open>
  What \<open>fanOut\<close> relies on: an operation on one session leaves the others alone, and whenever it succeeds, or
  fails with \<open>skip\<close> or "not found", the session has reached the \<open>goal\<close>. \<open>inv\<close> is what the operation needs.
\<close>

locale child_operation =
  fixes op :: session_op and skip :: go_error and goal :: "session_row option \<Rightarrow> bool" and inv :: "supervisor \<Rightarrow> bool"
  assumes keeps: "op sid s = (s', e) \<Longrightarrow> inv s \<Longrightarrow> inv s' \<and>
      (\<forall>x. x \<noteq> sid \<longrightarrow> find_session (sv_store s') x = find_session (sv_store s) x \<and> sv_workers s' x = sv_workers s x)"
    and reaches: "op sid s = (s', e) \<Longrightarrow> inv s \<Longrightarrow> e = None \<or> err_is e skip \<or> err_is e ErrNotFound \<Longrightarrow>
      goal (find_session (sv_store s') sid)"
begin

lemma fan_loop_reaches:
  "fan_loop op skip ids s = (s', r) \<Longrightarrow> inv s \<Longrightarrow>
     (\<forall>x. x \<notin> set ids \<longrightarrow> find_session (sv_store s') x = find_session (sv_store s) x \<and> sv_workers s' x = sv_workers s x)
   \<and> (r = Inr () \<longrightarrow> (\<forall>x \<in> set ids. goal (find_session (sv_store s') x)))"
proof (induction ids arbitrary: s)
  case (Cons sid ids)
  obtain s1 e where op: "op sid s = (s1, e)" by fastforce
  note k = keeps [OF op Cons.prems(2)]
  show ?case
  proof (cases "e = None \<or> err_is e skip \<or> err_is e ErrNotFound")
    case True
    then have rest: "fan_loop op skip ids s1 = (s', r)" using Cons.prems(1) op by simp
    have "inv s1" using k by simp
    note ih = Cons.IH [OF rest this]
    have "goal (find_session (sv_store s') sid)" if "r = Inr ()"
      using ih that reaches [OF op Cons.prems(2) True] by (cases "sid \<in> set ids") simp_all
    with ih k show ?thesis by simp
  next
    case False
    with Cons.prems(1) op k show ?thesis by auto
  qed
qed simp

lemma fan_out_reaches:
  assumes "fan_out_view jsonb S env rid op skip s = (s', r)" and "inv s"
  shows "(\<forall>x. x \<notin> c_id ` set (children_of (sv_store s) rid)
            \<longrightarrow> find_session (sv_store s') x = find_session (sv_store s) x \<and> sv_workers s' x = sv_workers s x)
    \<and> (\<forall>w. r = Inr w \<longrightarrow> (\<forall>x \<in> c_id ` set (children_of (sv_store s) rid). goal (find_session (sv_store s') x)))"
proof -
  have ids: "set (map vs_SessionID vs) = c_id ` set (children_of (sv_store s) rid)"
    if "RunSessions jsonb (fe_sessions env) (sv_store s) rid = Inr vs" for vs
    using that by (auto simp: RunSessions_def ordered_children_def image_iff split: option.splits) force+
  have "s' = s \<and> (\<exists>e. r = Inl e) \<or> (\<exists>vs q. RunSessions jsonb (fe_sessions env) (sv_store s) rid = Inr vs
      \<and> fan_loop op skip (map vs_SessionID vs) s = (s', q) \<and> (\<forall>w. r = Inr w \<longrightarrow> q = Inr ()))"
    using assms(1) by (auto simp: fan_out_view_def fanOut_def split: if_splits sum.splits prod.splits)
  then show ?thesis
  proof
    assume "\<exists>vs q. RunSessions jsonb (fe_sessions env) (sv_store s) rid = Inr vs
      \<and> fan_loop op skip (map vs_SessionID vs) s = (s', q) \<and> (\<forall>w. r = Inr w \<longrightarrow> q = Inr ())"
    then obtain vs q where "RunSessions jsonb (fe_sessions env) (sv_store s) rid = Inr vs"
      and loop: "fan_loop op skip (map vs_SessionID vs) s = (s', q)" and "\<forall>w. r = Inr w \<longrightarrow> q = Inr ()" by blast
    with fan_loop_reaches [OF loop assms(2)] ids show ?thesis by metis
  qed auto
qed

end

text \<open>Stopping reaches "not running", re-enabling reaches "running"; a session that is gone has reached both.\<close>

definition not_running :: "session_row option \<Rightarrow> bool" where
  "not_running r = (case r of None \<Rightarrow> True | Some row \<Rightarrow> c_status row \<noteq> StatusRunning)"

definition running_or_gone :: "session_row option \<Rightarrow> bool" where
  "running_or_gone r = (case r of None \<Rightarrow> True | Some row \<Rightarrow> c_status row = StatusRunning)"

definition stop_inv :: "stop_plan \<Rightarrow> supervisor \<Rightarrow> bool" where
  "stop_inv envs s \<longleftrightarrow> db_ok (sv_store s) \<and> contexts_ok s
     \<and> (\<forall>sid. case envs sid of (waiting, env, restore) \<Rightarrow>
          stop_env_ok env \<and> foreign (en_expired env) \<and> start_env_ok restore \<and> (\<forall>x \<in> set_option waiting. foreign x))"

definition reenable_inv :: "reenable_plan \<Rightarrow> supervisor \<Rightarrow> bool" where
  "reenable_inv envs s \<longleftrightarrow> db_ok (sv_store s) \<and> contexts_ok s
     \<and> (\<forall>sid. case envs sid of (f, now, waiting, env) \<Rightarrow>
          foreign_faults f \<and> (\<forall>k x. f k = Some x \<longrightarrow> \<not> errors_is x ErrAlreadyRunning) \<and> start_env_ok env
          \<and> (\<forall>x \<in> set_option waiting. foreign x))"

interpretation stopping: child_operation "stop_op envs" ErrNotRunning not_running "stop_inv envs" for envs
proof unfold_locales
  fix sid s s' e
  assume op: "stop_op envs sid s = (s', e)" and inv: "stop_inv envs s"
  obtain waiting env restore where plan: "envs sid = (waiting, env, restore)" by (metis prod_cases3)
  then have ok: "stop_env_ok env" "foreign (en_expired env)" "start_env_ok restore" "\<forall>x \<in> set_option waiting. foreign x"
    "db_ok (sv_store s)" "contexts_ok s"
    using inv by (auto simp: stop_inv_def split: prod.splits)
  have out: "s' = s \<and> (\<exists>x. e = Some x \<and> foreign x) \<or> stopWithOwnership env restore sid s = (s', e)"
    using op plan ok(4) by (auto simp: stop_op_def SupStop_def sessionOperation_def split: if_splits option.splits prod.splits)
  have only: "only_session sid s s'"
    using out
  proof
    assume "s' = s \<and> (\<exists>x. e = Some x \<and> foreign x)"
    with ok(5,6) show ?thesis by (simp add: only_session_def)
  qed (rule only_session_stop [OF _ ok(1,6,5)])
  then show "stop_inv envs s' \<and> (\<forall>x. x \<noteq> sid \<longrightarrow> find_session (sv_store s') x = find_session (sv_store s) x \<and> sv_workers s' x = sv_workers s x)"
    using inv by (auto simp: only_session_def stop_inv_def)
  assume e: "e = None \<or> err_is e ErrNotRunning \<or> err_is e ErrNotFound"
  then have stop: "stopWithOwnership env restore sid s = (s', e)" using out by (auto simp: foreign_def)
  show "not_running (find_session (sv_store s') sid)"
  proof (cases e)
    case None
    with stopWithOwnership_same(2) [OF stop ok(1)] ok(5) show ?thesis by (auto simp: not_running_def)
  next
    case (Some x)
    with e have "\<not> foreign x" by (auto simp: foreign_def)
    from stopWithOwnership_refused(1) [OF stop [unfolded Some] ok(1-3,6) this] show ?thesis
      by (simp add: not_running_def split: option.split)
  qed
qed

interpretation reenabling: child_operation "reenable_op envs" ErrAlreadyRunning running_or_gone "reenable_inv envs" for envs
proof unfold_locales
  fix sid s s' e
  assume op: "reenable_op envs sid s = (s', e)" and inv: "reenable_inv envs s"
  obtain f now waiting env where plan: "envs sid = (f, now, waiting, env)" by (metis prod_cases4)
  then have ok: "foreign_faults f" "\<And>k x. f k = Some x \<Longrightarrow> \<not> errors_is x ErrAlreadyRunning" "start_env_ok env"
    "\<forall>x \<in> set_option waiting. foreign x" "db_ok (sv_store s)" "contexts_ok s"
    using inv by (auto simp: reenable_inv_def split: prod.splits)
  obtain d re where r: "Reenable f (sv_store s) sid now = (d, re)" by fastforce
  have others: "find_session d x = find_session (sv_store s) x" if "x \<noteq> sid" for x
    using Reenable_cases [OF r] find_update(1) [OF _ same_keys_simps(3), of _ _ _ _ d _ x] that find_session_Some [of "sv_store s" x]
    by (cases "find_session (sv_store s) x") auto
  have dok: "db_ok d" using apply_op_ok [of "sv_store s" "\<lambda>_. None" id f "DoReenable sid now"] r ok(5) by simp
  consider (root) x where "s' = s" "e = Some x" "sv_root s = Some x" | (refused) "s' = s\<lparr>sv_store := d\<rparr>" "e = re" "re \<noteq> None"
    | (started) "re = None" "Start waiting env sid (s\<lparr>sv_store := d\<rparr>) = (s', e)"
  proof (cases "sv_root s")
    case (Some x)
    with op plan show ?thesis by (intro that(1) [of x]) (simp_all add: reenable_op_def SupReenable_def)
  next
    case None
    with op plan r that(2,3) show ?thesis by (cases re) (auto simp: reenable_op_def SupReenable_def)
  qed
  then have "(contexts_ok s' \<and> db_ok (sv_store s') \<and> (\<forall>x. x \<noteq> sid \<longrightarrow> find_session (sv_store s') x = find_session (sv_store s) x \<and> sv_workers s' x = sv_workers s x))
    \<and> (e = None \<or> err_is e ErrAlreadyRunning \<or> err_is e ErrNotFound \<longrightarrow> running_or_gone (find_session (sv_store s') sid))"
  proof cases
    case root
    with ok(6) have "x = CtxCanceled \<or> x = CtxDeadlineExceeded" by (simp add: contexts_ok_def)
    with root ok(5,6) show ?thesis by auto
  next
    case refused
    then obtain y where y: "re = Some y" by auto
    have "d = sv_store s" "errors_is y ErrNotFound \<Longrightarrow> find_session (sv_store s) sid = None"
      "errors_is y ErrAlreadyRunning \<Longrightarrow> \<exists>row. find_session (sv_store s) sid = Some row \<and> c_status row = StatusRunning"
      using Reenable_refused [OF r [unfolded y] ok(1) _ ok(5)] ok(2) by blast+
    with refused y ok(5,6) show ?thesis by (auto simp: running_or_gone_def contexts_ok_def)
  next
    case started
    note st = Start_result [OF started(2)]
    have "db_ok (sv_store s)" by (rule ok(5))
    from Reenable_done [OF r [unfolded started(1)] this] st(1) have "running_or_gone (find_session (sv_store s') sid)"
      by (auto simp: running_or_gone_def)
    with st(1,4,8-10) others dok ok(6) show ?thesis by (auto simp: contexts_ok_def)
  qed
  then show "reenable_inv envs s' \<and> (\<forall>x. x \<noteq> sid \<longrightarrow> find_session (sv_store s') x = find_session (sv_store s) x \<and> sv_workers s' x = sv_workers s x)"
    "e = None \<or> err_is e ErrAlreadyRunning \<or> err_is e ErrNotFound \<Longrightarrow> running_or_gone (find_session (sv_store s') sid)"
    using inv by (simp_all add: reenable_inv_def)
qed

text \<open>
  C13: when stopping a run answers 200, none of its sessions runs any more, however many were already stopped or
  gone; sessions outside the run keep their rows and workers whatever the answer is.
\<close>

theorem stop_run_outcome:
  assumes "StopRun jsonb S env envs rid s = (s', r)" and "stop_inv envs s"
  shows "(\<forall>x. x \<in> c_id ` set (children_of (sv_store s) rid)
            \<or> find_session (sv_store s') x = find_session (sv_store s) x \<and> sv_workers s' x = sv_workers s x)
    \<and> (case r of Inl _ \<Rightarrow> True | Inr w \<Rightarrow> list_all (\<lambda>c. not_running (find_session (sv_store s') (c_id c))) (children_of (sv_store s) rid))"
  using stopping.fan_out_reaches [OF assms(1) [unfolded StopRun_def] assms(2)]
  by (cases r) (auto simp: list_all_iff)

theorem stop_run_outcome_witness:
  "\<exists>s' r. StopRun id demo_server \<lparr>fe_run = no_faults, fe_sessions = no_faults, fe_summary = no_faults\<rparr> (\<lambda>_. (None, demo_stop, demo_start)) 90 demo_supervisor
     = (s', r) \<and> find_session (sv_store s') 7 = Some demo_row"
proof -
  let ?env = "\<lparr>fe_run = no_faults, fe_sessions = no_faults, fe_summary = no_faults\<rparr>"
  obtain s' r where c: "StopRun id demo_server ?env (\<lambda>_. (None, demo_stop, demo_start)) 90 demo_supervisor = (s', r)" by fastforce
  have "stop_inv (\<lambda>_. (None, demo_stop, demo_start)) demo_supervisor"
    using demo_db_ok demo_contexts_ok
    by (simp add: stop_inv_def stop_env_ok_def demo_stop_def foreign_faults_def start_env_ok_def)
  from conjunct1 [OF stop_run_outcome [OF c this]] have "find_session (sv_store s') 7 = find_session (sv_store demo_supervisor) 7"
    by (auto simp: children_of_def demo_db_def dest!: spec [of _ 7])
  with c demo_find show ?thesis by simp
qed

text \<open>
  when re-enabling a run answers 200, every session of it that still exists runs; sessions outside the run
  keep their rows and workers whatever the answer is.
\<close>

theorem reenable_run_outcome:
  assumes "ReenableRun jsonb S env envs rid s = (s', r)" and "reenable_inv envs s"
  shows "(\<forall>x. x \<in> c_id ` set (children_of (sv_store s) rid)
            \<or> find_session (sv_store s') x = find_session (sv_store s) x \<and> sv_workers s' x = sv_workers s x)
    \<and> (case r of Inl _ \<Rightarrow> True | Inr w \<Rightarrow> list_all (\<lambda>c. running_or_gone (find_session (sv_store s') (c_id c))) (children_of (sv_store s) rid))"
  using reenabling.fan_out_reaches [OF assms(1) [unfolded ReenableRun_def] assms(2)]
  by (cases r) (auto simp: list_all_iff)

theorem reenable_run_outcome_witness:
  "\<exists>s' r. ReenableRun id demo_server \<lparr>fe_run = no_faults, fe_sessions = no_faults, fe_summary = no_faults\<rparr> (\<lambda>_. (no_faults, 5000, None, demo_start)) 90 demo_supervisor
     = (s', r) \<and> find_session (sv_store s') 7 = Some demo_row"
proof -
  let ?env = "\<lparr>fe_run = no_faults, fe_sessions = no_faults, fe_summary = no_faults\<rparr>"
  obtain s' r where c: "ReenableRun id demo_server ?env (\<lambda>_. (no_faults, 5000, None, demo_start)) 90 demo_supervisor = (s', r)" by fastforce
  have "reenable_inv (\<lambda>_. (no_faults, 5000, None, demo_start)) demo_supervisor"
    using demo_db_ok demo_contexts_ok by (simp add: reenable_inv_def start_env_ok_def)
  from conjunct1 [OF reenable_run_outcome [OF c this]] have "find_session (sv_store s') 7 = find_session (sv_store demo_supervisor) 7"
    by (auto simp: children_of_def demo_db_def dest!: spec [of _ 7])
  with c demo_find show ?thesis by simp
qed


subsection \<open>Deleting a run\<close>

lemma stop_each_runs: "t_runs (sv_store (fst (stop_each env sids s))) = t_runs (sv_store s)"
proof (induction sids arbitrary: s)
  case (Cons sid sids)
  obtain s1 err where w: "stopWithOwnership (de_stop env sid) (de_restore env sid) sid s = (s1, err)" by fastforce
  show ?case using Cons [of s] Cons [of s1] stopWithOwnership_runs [OF w] w by (auto split: sum.split)
qed simp

lemma delete_each_runs: "t_runs (sv_store (fst (delete_each env sids s))) = t_runs (sv_store s)"
proof (induction sids arbitrary: s)
  case (Cons sid sids)
  obtain d e where "Delete (de_row env sid) (sv_store s) sid = (d, e)" by fastforce
  with statement_runs(4) [of "de_row env sid" "sv_store s" sid] Cons [of "s\<lparr>sv_store := d\<rparr>"] show ?case by (auto split: option.split)
qed simp

lemma SupDeleteSessions_runs:
  assumes "SupDeleteSessions waiting env ids s = (s', e)"
  shows "t_runs (sv_store s') = t_runs (sv_store s)"
proof -
  obtain s1 x where st: "stop_each env (orderedIDs ids) s = (s1, x)" by fastforce
  have s1: "t_runs (sv_store s1) = t_runs (sv_store s)" using stop_each_runs [of env "orderedIDs ids" s] st by simp
  have del: "t_runs (sv_store t') = t_runs (sv_store t)" if "delete_each env ds t = (t', y)" for ds t t' y
    using delete_each_runs [of env ds t] that by simp
  have "t_runs (sv_store t) = t_runs (sv_store s)" if "delete_ordered env (orderedIDs ids) s = (t, u, y)" for t u y
    using that s1 del
    by (auto simp: delete_ordered_def st Let_def flush_sink_def split: option.splits prod.splits)
  with assms show ?thesis
    by (auto simp: SupDeleteSessions_def Let_def split: if_splits prod.splits dest!: withOperations_cases)
qed

lemma api_DeleteRun_cases:
  assumes "api_DeleteRun jsonb S env waiting denv rid s = (s', r)"
    and "\<And>k e. fe_run env k = Some e \<Longrightarrow> \<not> errors_is e ErrRunNotFound"
  obtains (early) e where "s' = s" "r = Inl e" "ae_status e = 404 \<longrightarrow> find_run (sv_store s) rid = None"
    | (planned) vs s1 x d e where "RunSessions jsonb (fe_sessions env) (sv_store s) rid = Inr vs"
        "SupDeleteSessions waiting denv (map vs_SessionID vs) s = (s1, x)" "DeleteRun (fe_summary env) (sv_store s1) rid = (d, e)"
        "(s', r) = (if x \<noteq> None then (s1, Inl internalError)
           else if e \<noteq> None then (s1\<lparr>sv_store := d\<rparr>, Inl internalError) else (s1\<lparr>sv_store := d\<rparr>, Inr ()))"
proof -
  have missing: "errors_is e ErrRunNotFound \<Longrightarrow> find_run (sv_store s) rid = None" if "RunByID (fe_run env) (sv_store s) rid = Inl e" for e
    using that assms(2) by (auto simp: RunByID_def split: option.splits)
  show thesis
  proof (cases "\<not> sr_runStore S \<or> \<not> sr_control S \<or> (\<exists>e. RunByID (fe_run env) (sv_store s) rid = Inl e)
      \<or> (\<exists>e. RunSessions jsonb (fe_sessions env) (sv_store s) rid = Inl e)")
    case True
    with assms(1) missing have "\<exists>e. s' = s \<and> r = Inl e \<and> (ae_status e = 404 \<longrightarrow> find_run (sv_store s) rid = None)"
      by (auto simp: api_DeleteRun_def run_error_def api_errors split: if_splits sum.splits)
    with early show ?thesis by blast
  next
    case False
    then obtain v vs where reads: "RunByID (fe_run env) (sv_store s) rid = Inr v" "RunSessions jsonb (fe_sessions env) (sv_store s) rid = Inr vs"
      by (cases "RunByID (fe_run env) (sv_store s) rid"; cases "RunSessions jsonb (fe_sessions env) (sv_store s) rid") auto
    obtain s1 x where del: "SupDeleteSessions waiting denv (map vs_SessionID vs) s = (s1, x)" by fastforce
    obtain d e where run: "DeleteRun (fe_summary env) (sv_store s1) rid = (d, e)" by fastforce
    show ?thesis
      by (rule planned [OF reads(2) del run])
        (use assms(1) False reads del run in \<open>cases x; cases e; simp add: api_DeleteRun_def\<close>)
  qed
qed

lemma DeleteRun_gone:
  assumes "DeleteRun f db rid = (d, e)"
  shows "find_session db sid = None \<Longrightarrow> find_session d sid = None"
    and "if e = None then find_run d rid = None else d = db"
  using assms by (auto simp: DeleteRun_def delete_sessions_def find_session_def find_run_def find_None_iff split: option.splits)

lemma RunSessions_ids:
  "RunSessions jsonb f db rid = Inr vs \<Longrightarrow> set (map vs_SessionID vs) = c_id ` set (children_of db rid)"
  by (auto simp: RunSessions_def ordered_children_def image_iff split: option.splits) force+

text \<open>
  C2: deleting a run answers 204 only when the run, every session it had and every stored or queued sample of
  them are gone; after any other answer the run row is still what it was, so the deletion can be repeated;
  and 404 is answered only when there is no such run.
\<close>

theorem delete_run_outcome:
  assumes "api_DeleteRun jsonb S env waiting denv rid s = (s', r)" and "delete_env_ok denv"
    and "\<And>k e. fe_run env k = Some e \<Longrightarrow> \<not> errors_is e ErrRunNotFound"
  shows "case r of
      Inr _ \<Rightarrow> find_run (sv_store s') rid = None
        \<and> list_all (\<lambda>c. find_session (sv_store s') (c_id c) = None
             \<and> c_id c \<notin> e_SessionID ` (set (sv_samples s') \<union> set (sv_pending s'))) (children_of (sv_store s) rid)
    | Inl e \<Rightarrow> find_run (sv_store s') rid = find_run (sv_store s) rid
        \<and> (ae_status e \<noteq> 404 \<or> find_run (sv_store s) rid = None \<and> s' = s)"
proof (cases rule: api_DeleteRun_cases [OF assms(1)])
  case prems: 1
  then show ?case by (rule assms(3))
next
  case early: (2 e)
  then show ?thesis by auto
next
  case planned: (3 vs s1 x d e)
  have runs: "find_run (sv_store s1) rid = find_run (sv_store s) rid"
    using SupDeleteSessions_runs [OF planned(2)] by (simp add: find_run_def)
  note run = DeleteRun_gone [OF planned(3)]
  show ?thesis
  proof (cases "x = None \<and> e = None")
    case True
    then have all: "\<forall>sid \<in> set (map vs_SessionID vs).
        sid \<notin> e_SessionID ` (set (sv_samples s1) \<union> set (sv_pending s1)) \<and> find_session (sv_store s1) sid = None"
      using conjunct1 [OF SupDeleteSessions_outcome [OF planned(2) assms(2)]] by (auto simp: list_all_iff)
    have "sid \<notin> e_SessionID ` (set (sv_samples s1) \<union> set (sv_pending s1)) \<and> find_session d sid = None"
      if "sid \<in> c_id ` set (children_of (sv_store s) rid)" for sid
      using bspec [OF all [unfolded RunSessions_ids [OF planned(1)]] that] run(1) [of sid] by simp
    moreover have "s' = s1\<lparr>sv_store := d\<rparr>" "r = Inr ()" using planned(4) True by simp_all
    ultimately show ?thesis using run(2) True by (simp add: list_all_iff)
  next
    case False
    with planned(4) run(2) runs show ?thesis by (cases x; cases e) (simp_all add: api_errors)
  qed
qed

theorem delete_run_outcome_witness:
  "\<exists>s' r. api_DeleteRun id demo_server \<lparr>fe_run = no_faults, fe_sessions = no_faults, fe_summary = no_faults\<rparr> (\<lambda>_. None) demo_delete 90 demo_supervisor
     = (s', r) \<and> find_run (sv_store s') 90 = None"
proof -
  let ?env = "\<lparr>fe_run = no_faults, fe_sessions = no_faults, fe_summary = no_faults\<rparr>"
  obtain s' r where c: "api_DeleteRun id demo_server ?env (\<lambda>_. None) demo_delete 90 demo_supervisor = (s', r)" by fastforce
  have "delete_env_ok demo_delete" by (simp add: delete_env_ok_def demo_delete_def stop_env_ok_def demo_stop_def)
  from delete_run_outcome [OF c this] have "case r of Inr _ \<Rightarrow> find_run (sv_store s') 90 = None
      | Inl e \<Rightarrow> find_run (sv_store s') 90 = find_run (sv_store demo_supervisor) 90" by (auto split: sum.splits)
  moreover have "find_run (sv_store demo_supervisor) 90 = None" by (simp add: find_run_def demo_db_def empty_db_def)
  ultimately show ?thesis using c by (auto split: sum.splits)
qed

end
