(* ===== verification/Csv.thy ===== *)
theory Csv
  imports Prelude GoStrings
begin

text \<open>
  Comma-separated values as the Go library's \<open>csv.Writer\<close> writes them (comma separator, no CRLF), which both CSV exports
  use, and a reader of the format (RFC 4180) as the reference: what is written is read back.
\<close>

subsection \<open>Writing\<close>

definition csv_special :: "char \<Rightarrow> bool" where
  "csv_special c \<longleftrightarrow> c = CHR '','' \<or> byte c = 34 \<or> byte c = 13 \<or> byte c = 10"

text \<open>\<open>fieldNeedsQuotes\<close>; the last test is \<open>unicode.IsSpace\<close> of the first rune.\<close>

definition needs_quotes :: "string \<Rightarrow> bool" where
  "needs_quotes field \<longleftrightarrow> field \<noteq> [] \<and> (field = [CHR 0x5C, CHR ''.''] \<or> list_ex csv_special field \<or> space_prefix field \<noteq> None)"

fun double_quotes :: "string \<Rightarrow> string" where
  "double_quotes [] = []"
| "double_quotes (c # s) = (if c = CHR 0x22 then CHR 0x22 # CHR 0x22 # double_quotes s else c # double_quotes s)"

definition csv_field :: "string \<Rightarrow> string" where
  "csv_field field = (if needs_quotes field then CHR 0x22 # double_quotes field @ [CHR 0x22] else field)"

definition csv_record :: "string list \<Rightarrow> string" where
  "csv_record fs = join_str '','' (map csv_field fs) @ [CHR 0x0A]"

definition csv_text :: "string list list \<Rightarrow> string" where
  "csv_text rows = concat (map csv_record rows)"


subsection \<open>Reading\<close>

text \<open>The rest of a quoted field, after its opening quote.\<close>

fun read_quoted :: "string \<Rightarrow> (string \<times> string) option" where
  "read_quoted [] = None"
| "read_quoted (c # s) =
     (if c = CHR 0x22
      then (case s of
              d # s' \<Rightarrow> if d = CHR 0x22 then map_option (\<lambda>(f, r). (CHR 0x22 # f, r)) (read_quoted s') else Some ([], s)
            | [] \<Rightarrow> Some ([], s))
      else map_option (\<lambda>(f, r). (c # f, r)) (read_quoted s))"

fun read_plain :: "string \<Rightarrow> string \<times> string" where
  "read_plain [] = ([], [])"
| "read_plain (c # s) =
     (if c = CHR '','' \<or> c = CHR 0x0A then ([], c # s) else (case read_plain s of (f, r) \<Rightarrow> (c # f, r)))"

definition read_field :: "string \<Rightarrow> (string \<times> string) option" where
  "read_field s = (case s of c # s' \<Rightarrow> if c = CHR 0x22 then read_quoted s' else Some (read_plain s) | [] \<Rightarrow> Some ([], []))"

text \<open>One record: fields up to the line end; the fuel is the length of the text.\<close>

fun read_record :: "nat \<Rightarrow> string \<Rightarrow> (string list \<times> string) option" where
  "read_record 0 s = None"
| "read_record (Suc k) s =
     (case read_field s of
        None \<Rightarrow> None
      | Some (f, r) \<Rightarrow>
          (case r of
             [] \<Rightarrow> None
           | c # r' \<Rightarrow>
               if c = CHR 0x0A then Some ([f], r')
               else if c = CHR '','' then map_option (\<lambda>(fs, r''). (f # fs, r'')) (read_record k r')
               else None))"

fun read_records :: "nat \<Rightarrow> string \<Rightarrow> string list list option" where
  "read_records k [] = Some []"
| "read_records 0 (c # s) = None"
| "read_records (Suc k) (c # s) =
     (case read_record (length (c # s)) (c # s) of
        None \<Rightarrow> None
      | Some (fs, r) \<Rightarrow> map_option ((#) fs) (read_records k r))"

definition read_csv :: "string \<Rightarrow> string list list option" where
  "read_csv s = read_records (length s) s"


subsection \<open>What is written is read back\<close>

definition separator :: "char \<Rightarrow> bool" where
  "separator c \<longleftrightarrow> c = CHR '','' \<or> c = CHR 0x0A"

lemma separator_not_quote: "separator c \<Longrightarrow> c \<noteq> CHR 0x22"
  by (auto simp: separator_def)

lemma read_quoted_doubled:
  "c \<noteq> CHR 0x22 \<Longrightarrow> read_quoted (double_quotes f @ CHR 0x22 # c # r) = Some (f, c # r)"
  by (induction f) simp_all

lemma read_plain_field:
  "separator c \<Longrightarrow> list_all (\<lambda>x. \<not> csv_special x) f \<Longrightarrow> read_plain (f @ c # r) = (f, c # r)"
proof (induction f)
  case (Cons x f)
  moreover have "x \<noteq> CHR 0x0A" using Cons.prems(2) by (auto simp: csv_special_def)
  ultimately show ?case by (auto simp: csv_special_def)
qed (auto simp: separator_def)

lemma read_field_written:
  assumes "separator c"
  shows "read_field (csv_field f @ c # r) = Some (f, c # r)"
proof (cases "needs_quotes f")
  case True
  then show ?thesis using read_quoted_doubled [OF separator_not_quote [OF assms], of f r]
    by (simp add: csv_field_def read_field_def)
next
  case False
  show ?thesis
  proof (cases f)
    case Nil
    with assms show ?thesis by (auto simp: csv_field_def needs_quotes_def read_field_def separator_def)
  next
    case (Cons x f')
    then have plain: "list_all (\<lambda>x. \<not> csv_special x) f" using False by (auto simp: needs_quotes_def list_ex_iff list_all_iff)
    then have "x \<noteq> CHR 0x22" using Cons by (auto simp: csv_special_def)
    with False Cons read_plain_field [OF assms plain, of r] show ?thesis by (simp add: csv_field_def read_field_def)
  qed
qed

lemma csv_record_Cons:
  "csv_record (f # g # fs) = csv_field f @ CHR '','' # csv_record (g # fs)" "csv_record [f] = csv_field f @ [CHR 0x0A]"
  by (simp_all add: csv_record_def)

lemma read_record_written:
  "fs \<noteq> [] \<Longrightarrow> length fs \<le> k \<Longrightarrow> read_record k (csv_record fs @ r) = Some (fs, r)"
proof (induction fs arbitrary: k)
  case (Cons f fs)
  then obtain k' where k: "k = Suc k'" by (cases k) auto
  show ?case
  proof (cases fs)
    case Nil
    have "read_field (csv_field f @ CHR 0x0A # r) = Some (f, CHR 0x0A # r)" by (rule read_field_written) (simp add: separator_def)
    with Nil k show ?thesis by (simp add: csv_record_Cons)
  next
    case (Cons g gs)
    have "read_field (csv_field f @ CHR '','' # (csv_record fs @ r)) = Some (f, CHR '','' # (csv_record fs @ r))"
      by (rule read_field_written) (simp add: separator_def)
    moreover have "read_record k' (csv_record fs @ r) = Some (fs, r)"
      by (rule Cons.IH) (use Cons Cons.prems k in auto)
    ultimately show ?thesis using Cons k by (simp add: csv_record_Cons)
  qed
qed simp

lemma length_csv_record: "length fs \<le> length (csv_record fs)" "csv_record fs \<noteq> []"
proof -
  have "length fs \<le> Suc (length (join_str '','' (map csv_field fs)))"
    by (induction fs rule: induct_list012) auto
  then show "length fs \<le> length (csv_record fs)" by (simp add: csv_record_def)
qed (simp add: csv_record_def)

lemma read_records_written:
  "list_all (\<lambda>fs. fs \<noteq> []) rows \<Longrightarrow> length rows \<le> k \<Longrightarrow> read_records k (csv_text rows) = Some rows"
proof (induction rows arbitrary: k)
  case (Cons fs rows)
  then obtain k' where k: "k = Suc k'" by (cases k) auto
  let ?s = "csv_record fs @ csv_text rows"
  obtain c s where s: "?s = c # s" using length_csv_record(2) [of fs] by (cases "csv_record fs") auto
  have "read_record (length ?s) ?s = Some (fs, csv_text rows)"
    using Cons.prems(1) length_csv_record(1) [of fs] by (intro read_record_written) auto
  moreover have "read_records k' (csv_text rows) = Some rows" by (rule Cons.IH) (use Cons.prems k in auto)
  ultimately have "read_records (Suc k') (c # s) = Some (fs # rows)" by (simp only: s read_records.simps option.case prod.case list.case option.map)
  then show ?case using k s by (simp only: csv_text_def list.map concat.simps)
qed (simp add: csv_text_def)

lemma read_csv_written: "list_all (\<lambda>fs. fs \<noteq> []) rows \<Longrightarrow> read_csv (csv_text rows) = Some rows"
proof -
  assume rows: "list_all (\<lambda>fs. fs \<noteq> []) rows"
  have "length rows \<le> length (csv_text rows)"
  proof (induction rows)
    case (Cons fs rows)
    then show ?case using length_csv_record(2) [of fs] by (cases "csv_record fs") (auto simp: csv_text_def)
  qed (simp add: csv_text_def)
  with rows show "read_csv (csv_text rows) = Some rows" by (simp add: read_csv_def read_records_written)
qed

end
