(* ===== verification/Exports.thy ===== *)
theory Exports
  imports ApiSessions Csv Reader
begin

text \<open>
  The two CSV exports of \<open>internal/api\<close>: \<open>csv.go\<close> (the samples of a session) and the export half of \<open>runs.go\<close>
  (the pool of a run). The writing goroutine is the same code twice: \<open>csv_stream\<close>, over a row source, which
  the ClickHouse reader and the store provide (locale \<open>row_stream\<close>). \<open>pipe\<close> says which write to the pipe
  fails, after how many bytes of it, and with which error.
\<close>

subsection \<open>Timestamps and identifiers\<close>

text \<open>Year, month and day of a day counted from 1 January of year 1 (proleptic Gregorian calendar).\<close>

definition civil :: "int \<Rightarrow> int \<times> int \<times> int" where
  "civil days =
     (let z = days + 306; era = z div 146097; doe = z mod 146097;
          yoe = (doe - doe div 1460 + doe div 36524 - doe div 146096) div 365;
          doy = doe - (365 * yoe + yoe div 4 - yoe div 100); mp = (5 * doy + 2) div 153 in
      (era * 400 + yoe + (if mp < 10 then 0 else 1), if mp < 10 then mp + 3 else mp - 9, doy - (153 * mp + 2) div 5 + 1))"

definition pad :: "nat \<Rightarrow> string \<Rightarrow> string" where
  "pad w s = replicate (w - length s) (CHR ''0'') @ s"

definition digits :: "nat \<Rightarrow> int \<Rightarrow> string" where
  "digits w n = (if n < 0 then CHR ''-'' # pad w (nat_str (nat (- n))) else pad w (nat_str (nat n)))"

text \<open>The fraction without trailing zeros.\<close>

definition nano_fraction :: "int \<Rightarrow> string" where
  "nano_fraction n =
     (if n = 0 then [] else CHR ''.'' # rev (dropWhile (\<lambda>c. c = CHR ''0'') (rev (digits 9 n))))"

text \<open>\<open>t.UTC().Format(time.RFC3339Nano)\<close>.\<close>

definition rfc3339_nano :: "time \<Rightarrow> string" where
  "rfc3339_nano t =
     (let secs = t div second; (y, m, d) = civil (secs div 86400); s = secs mod 86400 in
      digits 4 y @ ''-'' @ digits 2 m @ ''-'' @ digits 2 d @ ''T''
        @ digits 2 (s div 3600) @ '':'' @ digits 2 (s div 60 mod 60) @ '':'' @ digits 2 (s mod 60) @ nano_fraction (t mod second) @ ''Z'')"

text \<open>\<open>uuid.UUID.String\<close>.\<close>

definition uuid_str :: "uuid \<Rightarrow> string" where
  "uuid_str u =
     (let h = pad 32 (hex_str u) in
      take 8 h @ ''-'' @ take 4 (drop 8 h) @ ''-'' @ take 4 (drop 12 h) @ ''-'' @ take 4 (drop 16 h) @ ''-'' @ drop 20 h)"

definition format_bool :: "bool \<Rightarrow> string" where
  "format_bool b = (if b then ''true'' else ''false'')"


subsection \<open>Cells\<close>

definition csvHeader :: "string list" where
  "csvHeader =
     [''sample_seq'', ''sampled_at'', ''probe_index'', ''probe_ok'', ''probe_ip'', ''probe_rtt_ms'', ''primary_ip'',
      ''sample_probes_ok'', ''sample_probes_attempted'', ''rtt_min_ms'', ''rtt_med_ms'', ''rtt_max_ms'', ''ip_changed'',
      ''new_ips'', ''primary_category'', ''primary_risk'', ''error'']"

definition runCSVHeader :: "string list" where
  "runCSVHeader =
     [''ip'', ''category'', ''country'', ''isp'', ''asn'', ''risk_score'', ''greynoise_class'', ''dnsbl_listed'', ''dnsbl_hits'', ''hit_count'']"

text \<open>Neither the nil slice nor an unspecified address, in either form.\<close>

definition validIP :: "addr \<Rightarrow> bool" where
  "validIP ip = (case unmap ip of NoAddr \<Rightarrow> False | V4 w \<Rightarrow> w \<noteq> 0 | V6 w _ \<Rightarrow> w \<noteq> 0)"

definition word_str :: "'a::len word \<Rightarrow> string" where
  "word_str w = nat_str (unat w)"

definition probe_cells :: "event \<Rightarrow> nat \<Rightarrow> string list" where
  "probe_cells event i =
     (let primary = (if validIP (e_PrimaryIP event) then ip_string (e_PrimaryIP event) else []);
          ok = (i < length (e_ProbeOK event) \<and> e_ProbeOK event ! i \<noteq> 0);
          ip = (if ok \<and> i < length (e_ProbeIPs event) \<and> validIP (e_ProbeIPs event ! i) then ip_string (e_ProbeIPs event ! i) else []);
          rtt = (if i < length (e_ProbeRTTsMS event) then e_ProbeRTTsMS event ! i else 0) in
      [word_str (e_SampleSeq event), rfc3339_nano (e_SampledAt event), nat_str i,
       format_bool ok, ip, word_str rtt, primary,
       word_str (e_ProbesOK event), word_str (e_ProbesAttempted event),
       word_str (e_RTTMinMS event), word_str (e_RTTMedMS event), word_str (e_RTTMaxMS event),
       format_bool (e_IPChanged event \<noteq> 0), word_str (e_NewIPs event), e_PrimaryCategory event,
       word_str (e_PrimaryRisk event), e_Error event])"

definition writeCSVEvent :: "event \<Rightarrow> string list list" where
  "writeCSVEvent event = map (probe_cells event) [0..<unat (e_ProbesAttempted event)]"

definition formula_chars :: "char list" where
  "formula_chars = [CHR ''='', CHR ''+'', CHR ''-'', CHR ''@'', CHR 0x09, CHR 0x0D]"

definition csvFormulaSafe :: "string \<Rightarrow> string" where
  "csvFormulaSafe value = (case value of [] \<Rightarrow> [] | c # _ \<Rightarrow> if c \<in> set formula_chars then CHR 0x27 # value else value)"

definition writeRunIPRow :: "ip_row \<Rightarrow> string list list" where
  "writeRunIPRow row =
     [[row_IP row, row_Category row, csvFormulaSafe (row_Country row), csvFormulaSafe (row_ISP row), csvFormulaSafe (row_ASN row),
       case row_RiskScore row of None \<Rightarrow> [] | Some n \<Rightarrow> itoa n, csvFormulaSafe (row_GreyNoiseClass row),
       format_bool (row_DNSBLListed row), csvFormulaSafe (join_str ''|'' (row_DNSBLHits row)), itoa (row_HitCount row)]]"

text \<open>Runs of other runes become one hyphen; the first part carries the pending run.\<close>

definition filename_rune :: "nat \<Rightarrow> bool" where
  "filename_rune c \<longleftrightarrow> 65 \<le> c \<and> c \<le> 90 \<or> 97 \<le> c \<and> c \<le> 122 \<or> 48 \<le> c \<and> c \<le> 57 \<or> c = 46 \<or> c = 95 \<or> c = 45"

fun sanitize_runes :: "bool \<Rightarrow> nat list \<Rightarrow> string" where
  "sanitize_runes invalidRun [] = (if invalidRun then ''-'' else [])"
| "sanitize_runes invalidRun (c # cs) =
     (if filename_rune c then (if invalidRun then ''-'' else []) @ char_of c # sanitize_runes False cs
      else sanitize_runes True cs)"

definition sanitizedFilename :: "string \<Rightarrow> string" where
  "sanitizedFilename name =
     (let result = sanitize_runes False (runes_of (trim_space name)) in if result = [] then ''session'' else result)"


subsection \<open>The writing goroutine\<close>

text \<open>
  What the goroutine has announced on \<open>started\<close>, whether it has written the header, what went through the
  pipe, and how many writes it made. Each visited row is flushed; nothing to flush is no write.
\<close>

record csv_out =
  cs_announced :: "go_error option option"
  cs_header :: bool
  cs_sent :: string
  cs_writes :: nat

type_synonym pipe = "nat \<Rightarrow> (nat \<times> go_error) option"

definition emit :: "pipe \<Rightarrow> string \<Rightarrow> csv_out \<Rightarrow> csv_out \<times> go_error option" where
  "emit pipe text st =
     (if text = [] then (st, None)
      else (case pipe (cs_writes st) of
        None \<Rightarrow> (st\<lparr>cs_sent := cs_sent st @ text, cs_writes := Suc (cs_writes st)\<rparr>, None)
      | Some (n, e) \<Rightarrow> (st\<lparr>cs_sent := cs_sent st @ take n text, cs_writes := Suc (cs_writes st)\<rparr>, Some e)))"

definition announce :: "go_error option \<Rightarrow> csv_out \<Rightarrow> csv_out" where
  "announce err st = (if cs_announced st = None then st\<lparr>cs_announced := Some err\<rparr> else st)"

definition write_header :: "string list \<Rightarrow> csv_out \<Rightarrow> string" where
  "write_header header st = (if cs_header st then [] else csv_record header)"

definition visit_csv :: "string list \<Rightarrow> ('r \<Rightarrow> string list list) \<Rightarrow> pipe \<Rightarrow> 'r \<Rightarrow> csv_out \<Rightarrow> csv_out \<times> go_error option" where
  "visit_csv header cells pipe row st =
     emit pipe (write_header header st @ csv_text (cells row)) ((announce None st)\<lparr>cs_header := True\<rparr>)"

type_synonym 'r row_source = "('r \<Rightarrow> csv_out \<Rightarrow> csv_out \<times> go_error option) \<Rightarrow> csv_out \<Rightarrow> csv_out \<times> go_error option"

text \<open>What the goroutine announces, what the reader of the pipe gets, and the error the pipe is closed with.\<close>

definition csv_start :: csv_out where
  "csv_start = \<lparr>cs_announced = None, cs_header = False, cs_sent = [], cs_writes = 0\<rparr>"

definition csv_stream ::
  "string list \<Rightarrow> ('r \<Rightarrow> string list list) \<Rightarrow> pipe \<Rightarrow> 'r row_source \<Rightarrow> go_error option \<times> string \<times> go_error option" where
  "csv_stream header cells pipe stream =
     (case stream (visit_csv header cells pipe) csv_start of
        (st, err) \<Rightarrow>
          if cs_announced st = None \<and> err \<noteq> None then (err, cs_sent st, err)
          else (let st1 = announce None st;
                    (st2, err2) = (if err = None then emit pipe (write_header header st1) (st1\<lparr>cs_header := True\<rparr>) else (st1, err))
                in (case cs_announced st2 of Some a \<Rightarrow> a | None \<Rightarrow> None, cs_sent st2, err2)))"

text \<open>
  Serving the body. \<open>fault\<close> is a failing write to the client, after the bytes it has got. The session
  export ends a truncated body like a complete one, the run export aborts the connection.
\<close>

datatype served = Completed | WriteFailed go_error | ConnectionAborted

definition copy_body :: "(nat \<times> go_error) option \<Rightarrow> string \<Rightarrow> (string \<times> go_error) option" where
  "copy_body fault body = (case fault of Some (n, e) \<Rightarrow> if n < length body then Some (take n body, e) else None | None \<Rightarrow> None)"

definition VisitExportSessionCSVResponse :: "(nat \<times> go_error) option \<Rightarrow> string \<times> go_error option \<Rightarrow> string \<times> served" where
  "VisitExportSessionCSVResponse fault stream =
     (case copy_body fault (fst stream) of Some (got, e) \<Rightarrow> (got, WriteFailed e) | None \<Rightarrow> (fst stream, Completed))"

definition VisitExportRunCSVResponse :: "(nat \<times> go_error) option \<Rightarrow> string \<times> go_error option \<Rightarrow> string \<times> served" where
  "VisitExportRunCSVResponse fault stream =
     (case copy_body fault (fst stream) of Some (got, e) \<Rightarrow> (got, WriteFailed e)
      | None \<Rightarrow> (fst stream, if snd stream = None then Completed else ConnectionAborted))"


subsection \<open>The handlers\<close>

text \<open>A response: the disposition header, and the body with the error it ends with.\<close>

type_synonym csv_response = "string \<times> string \<times> go_error option"

definition invalidOptionalRange :: "time option \<Rightarrow> time option \<Rightarrow> bool" where
  "invalidOptionalRange lo hi = (case (lo, hi) of (Some a, Some b) \<Rightarrow> a > b | _ \<Rightarrow> False)"

definition disposition :: "string \<Rightarrow> string" where
  "disposition filename = ''attachment; filename='' @ [CHR 0x22] @ filename @ [CHR 0x22]"

definition csv_response :: "string \<Rightarrow> go_error option \<times> string \<times> go_error option \<Rightarrow> csv_response response" where
  "csv_response filename stream =
     (case stream of (Some _, _) \<Rightarrow> Inl dependencyUnavailable | (None, body, e) \<Rightarrow> Inr (disposition filename, body, e))"

definition session_error :: "go_error \<Rightarrow> api_error" where
  "session_error e = (if errors_is e ErrNotFound then notFound else dependencyUnavailable)"

definition session_rows :: "event list \<Rightarrow> uuid \<Rightarrow> time option \<Rightarrow> time option \<Rightarrow> event list" where
  "session_rows table sid lo hi = chronological (filter (sampleWhere sid lo hi) table)"

definition ExportSessionCSV ::
  "server \<Rightarrow> fault_plan \<Rightarrow> faults \<Rightarrow> event list \<Rightarrow> pipe \<Rightarrow> uuid \<Rightarrow> time option \<Rightarrow> time option \<Rightarrow> supervisor \<Rightarrow> csv_response response" where
  "ExportSessionCSV S f rf table pipe sid lo hi s =
     (if invalidOptionalRange lo hi then Inl invalidRequest
      else if \<not> sr_store S \<or> \<not> sr_reader S then Inl dependencyUnavailable
      else (case SessionByID f (sv_store s) sid of
        Inl e \<Rightarrow> Inl (session_error e)
      | Inr v \<Rightarrow>
          csv_response (sanitizedFilename (s_Name v) @ ''-'' @ uuid_str (s_ID v) @ ''.csv'')
            (csv_stream csvHeader writeCSVEvent pipe (\<lambda>visit. StreamSamples rf table sid lo hi (Some visit)))))"

definition ExportRunCSV :: "server \<Rightarrow> fault_plan \<Rightarrow> fault_plan \<Rightarrow> pipe \<Rightarrow> uuid \<Rightarrow> supervisor \<Rightarrow> csv_response response" where
  "ExportRunCSV S f rf pipe rid s =
     (if \<not> sr_runStore S then Inl dependencyUnavailable
      else (case RunByID f (sv_store s) rid of
        Inl e \<Rightarrow> Inl (if errors_is e ErrRunNotFound then notFound else dependencyUnavailable)
      | Inr summary \<Rightarrow>
          csv_response (sanitizedFilename (run_Name (rs_Run summary)) @ ''-'' @ uuid_str (run_ID (rs_Run summary)) @ ''-pool.csv'')
            (csv_stream runCSVHeader writeRunIPRow pipe (StreamPoolIPs rf (sv_store s) rid))))"


subsection \<open>Sample pages\<close>

record sample_view =
  sa_SampleSeq :: int
  sa_SampledAt :: time
  sa_ProbesAttempted :: int
  sa_ProbesOk :: int
  sa_PrimaryIp :: "string option"
  sa_DistinctIps :: int
  sa_IpChanged :: bool
  sa_NewIps :: int
  sa_RttMinMs :: int
  sa_RttMedMs :: int
  sa_RttMaxMs :: int
  sa_EgressCountry :: "string option"
  sa_PrimaryCategory :: string
  sa_PrimaryRisk :: int
  sa_ProbeIps :: "string option list"
  sa_ProbeRttsMs :: "int list"
  sa_ProbeOk :: "bool list"
  sa_Error :: string

definition probe_view :: "event \<Rightarrow> nat \<Rightarrow> string option" where
  "probe_view event i =
     (if i < length (e_ProbeOK event) \<and> e_ProbeOK event ! i \<noteq> 0 \<and> validIP (e_ProbeIPs event ! i)
      then Some (ip_string (e_ProbeIPs event ! i)) else None)"

definition mapSampleEvent :: "event \<Rightarrow> sample_view" where
  "mapSampleEvent event =
     \<lparr>sa_SampleSeq = uint (e_SampleSeq event), sa_SampledAt = e_SampledAt event,
      sa_ProbesAttempted = uint (e_ProbesAttempted event), sa_ProbesOk = uint (e_ProbesOK event),
      sa_PrimaryIp = (if validIP (e_PrimaryIP event) then Some (ip_string (e_PrimaryIP event)) else None),
      sa_DistinctIps = uint (e_DistinctIPs event), sa_IpChanged = (e_IPChanged event \<noteq> 0), sa_NewIps = uint (e_NewIPs event),
      sa_RttMinMs = uint (e_RTTMinMS event), sa_RttMedMs = uint (e_RTTMedMS event), sa_RttMaxMs = uint (e_RTTMaxMS event),
      sa_EgressCountry = optionalString (e_EgressCountry event), sa_PrimaryCategory = e_PrimaryCategory event,
      sa_PrimaryRisk = uint (e_PrimaryRisk event),
      sa_ProbeIps = map (probe_view event) [0..<length (e_ProbeIPs event)],
      sa_ProbeRttsMs = map uint (e_ProbeRTTsMS event), sa_ProbeOk = map (\<lambda>x. x \<noteq> 0) (e_ProbeOK event),
      sa_Error = e_Error event\<rparr>"

record sample_page_view =
  sv_Items :: "sample_view list"
  sv_Page :: int
  sv_PageSize :: int
  sv_Total :: int

definition apiSamplePageSize :: int where "apiSamplePageSize = 50"

definition SessionSamples ::
  "server \<Rightarrow> fault_plan \<Rightarrow> faults \<Rightarrow> event list \<Rightarrow> uuid \<Rightarrow> time option \<Rightarrow> time option \<Rightarrow> int option \<Rightarrow> supervisor \<Rightarrow> sample_page_view response" where
  "SessionSamples S f rf table sid lo hi param s =
     (if invalidOptionalRange lo hi then Inl invalidRequest
      else let page = (case param of None \<Rightarrow> 1 | Some p \<Rightarrow> p) in
      if page < 1 then Inl invalidRequest
      else if \<not> sr_store S \<or> \<not> sr_reader S then Inl dependencyUnavailable
      else (case SessionByID f (sv_store s) sid of
        Inl e \<Rightarrow> Inl (session_error e)
      | Inr _ \<Rightarrow>
     (case Samples rf table sid lo hi page of
        Inl e \<Rightarrow> Inl (if errors_is e ErrInvalidPage \<or> errors_is e ErrInvalidRange then invalidRequest else dependencyUnavailable)
      | Inr value \<Rightarrow>
          if int (sg_Total value) > 2 ^ 63 - 1 then Inl dependencyUnavailable
          else Inr \<lparr>sv_Items = map mapSampleEvent (sg_Items value), sv_Page = page, sv_PageSize = apiSamplePageSize,
                     sv_Total = int (sg_Total value)\<rparr>)))"


subsection \<open>What a stream delivers\<close>

definition export_text :: "string list \<Rightarrow> ('r \<Rightarrow> string list list) \<Rightarrow> 'r list \<Rightarrow> string" where
  "export_text header cells rows = csv_text (header # concat (map cells rows))"

lemma export_text_snoc [simp]: "export_text header cells (xs @ ys) = export_text header cells xs @ csv_text (concat (map cells ys))"
  by (simp add: export_text_def csv_text_def)

lemma csv_text_Cons: "csv_text (r # rs) = csv_record r @ csv_text rs"
  by (simp add: csv_text_def)

lemma prefix_export_text: "prefix (export_text header cells (take k rows)) (export_text header cells rows)"
  using export_text_snoc [of header cells "take k rows" "drop k rows"] by (metis append_take_drop_id prefixI)

text \<open>The state after the rows \<open>xs\<close> have been written without a failure.\<close>

definition written :: "string list \<Rightarrow> ('r \<Rightarrow> string list list) \<Rightarrow> 'r list \<Rightarrow> csv_out \<Rightarrow> bool" where
  "written header cells xs st \<longleftrightarrow>
     cs_sent st = (if cs_header st then export_text header cells xs else []) \<and> (cs_header st \<or> xs = [])
   \<and> cs_announced st = (if cs_header st then Some None else None)"

text \<open>The state once a write has failed among the rows \<open>xs\<close>.\<close>

definition broken :: "string list \<Rightarrow> ('r \<Rightarrow> string list list) \<Rightarrow> 'r list \<Rightarrow> csv_out \<Rightarrow> bool" where
  "broken header cells xs st \<longleftrightarrow> cs_announced st = Some None \<and> prefix (cs_sent st) (export_text header cells xs)"

lemma broken_append: "broken header cells xs st \<Longrightarrow> broken header cells (xs @ ys) st"
  by (auto simp: broken_def prefix_def)

lemma visit_csv_written:
  assumes "visit_csv header cells pipe x st = (st', e)" and "written header cells xs st"
  shows "(e = None \<longrightarrow> written header cells (xs @ [x]) st') \<and> (e \<noteq> None \<longrightarrow> broken header cells (xs @ [x]) st')"
proof (cases "cs_header st")
  case True
  with assms show ?thesis
    by (cases "pipe (cs_writes st)")
       (auto simp: visit_csv_def emit_def announce_def write_header_def written_def broken_def take_is_prefix split: if_splits)
next
  case False
  have "csv_record header \<noteq> []" by (rule length_csv_record)
  moreover have "export_text header cells [x] = csv_record header @ csv_text (cells x)"
    by (simp add: export_text_def csv_text_Cons)
  ultimately show ?thesis using False assms
    by (cases "pipe (cs_writes st)")
       (auto simp: visit_csv_def emit_def announce_def write_header_def written_def broken_def take_is_prefix
          simp del: take_append split: if_splits)
qed

lemma stream_loop_written:
  "stream_loop (visit_csv header cells pipe) ys st = (st', e) \<Longrightarrow> written header cells xs st \<Longrightarrow>
     (e = None \<longrightarrow> written header cells (xs @ ys) st') \<and> (e \<noteq> None \<longrightarrow> broken header cells (xs @ ys) st')"
proof (induction ys arbitrary: xs st)
  case (Cons y ys)
  obtain st1 e1 where v: "visit_csv header cells pipe y st = (st1, e1)" by fastforce
  show ?case
  proof (cases e1)
    case None
    with v visit_csv_written [OF v Cons.prems(2)] Cons.prems(1) Cons.IH [of st1 "xs @ [y]"] show ?thesis by simp
  next
    case (Some x)
    with v visit_csv_written [OF v Cons.prems(2)] Cons.prems(1) broken_append [of header cells "xs @ [y]" st1 ys] show ?thesis by auto
  qed
qed simp

text \<open>A row source: it visits its rows in order, all of them when it succeeds, and stops at the first failing visit.\<close>

locale row_stream =
  fixes stream :: "'r row_source" and rows :: "'r list"
  assumes all_visited: "stream visit s = (s', None) \<Longrightarrow> stream_loop visit rows s = (s', None)"
    and some_visited: "stream visit s = (s', Some x) \<Longrightarrow> \<exists>k. stream_loop visit (take k rows) s \<in> {(s', None), (s', Some x)}"
begin

lemma delivered:
  assumes "csv_stream header cells pipe stream = (started, body, e)"
  shows "prefix body (export_text header cells rows) \<and> (started \<noteq> None \<longrightarrow> body = [] \<and> e = started)
     \<and> (e = None \<longrightarrow> body = export_text header cells rows)"
proof -
  obtain st err where s: "stream (visit_csv header cells pipe) csv_start = (st, err)" by fastforce
  have start: "written header cells [] csv_start" by (simp add: written_def csv_start_def)
  show ?thesis
  proof (cases err)
    case None
    have w: "written header cells rows st"
      using stream_loop_written [OF all_visited [OF s [unfolded None]] start] by simp
    show ?thesis
    proof (cases "cs_header st")
      case True
      with w None s assms show ?thesis
        by (simp add: csv_stream_def announce_def written_def write_header_def emit_def Let_def)
    next
      case False
      have h: "csv_record header \<noteq> []" by (rule length_csv_record)
      from False w have st0: "rows = []" "cs_sent st = []" "cs_announced st = None" by (simp_all add: written_def)
      moreover have "export_text header cells [] = csv_record header" by (simp add: export_text_def csv_text_def)
      ultimately show ?thesis using False None s assms h
        by (cases "pipe (cs_writes st)")
           (auto simp: csv_stream_def announce_def write_header_def emit_def Let_def take_is_prefix)
    qed
  next
    case (Some x)
    from some_visited [OF s [unfolded Some]] obtain k
      where k: "stream_loop (visit_csv header cells pipe) (take k rows) csv_start \<in> {(st, None), (st, Some x)}" ..
    note pre = prefix_export_text [of header cells k rows]
    show ?thesis
    proof (cases "cs_announced st")
      case None
      have "written header cells (take k rows) st"
        using k None stream_loop_written [OF _ start, where pipe = pipe and ys = "take k rows" and st' = st and e = "Some x"]
          stream_loop_written [OF _ start, where pipe = pipe and ys = "take k rows" and st' = st and e = None]
        by (auto simp: broken_def)
      with None Some s assms show ?thesis by (auto simp: csv_stream_def written_def split: if_splits)
    next
      case (Some a)
      have "cs_announced st = Some None \<and> prefix (cs_sent st) (export_text header cells (take k rows))"
        using k Some stream_loop_written [OF _ start, where pipe = pipe and ys = "take k rows" and st' = st and e = "Some x"]
          stream_loop_written [OF _ start, where pipe = pipe and ys = "take k rows" and st' = st and e = None]
        by (auto simp: broken_def written_def split: if_splits)
      moreover from this have "prefix (cs_sent st) (export_text header cells rows)" using pre prefix_order.trans by blast
      ultimately show ?thesis using \<open>err = Some x\<close> s assms by (auto simp: csv_stream_def announce_def Let_def)
    qed
  qed
qed

end


subsection \<open>The two row sources\<close>

lemma visit_rows_all: "visit_rows f visit rows s = (s', None) \<Longrightarrow> stream_loop visit rows s = (s', None)"
  by (induction f visit rows s rule: visit_rows.induct) (auto split: option.splits prod.splits)

lemma visit_rows_some:
  "visit_rows f visit rows s = (s', Some x) \<Longrightarrow> \<exists>k. stream_loop visit (take k rows) s \<in> {(s', None), (s', Some x)}"
proof (induction rows arbitrary: f s)
  case Nil
  then show ?case by (auto split: option.splits)
next
  case (Cons row rows)
  show ?case
  proof (cases "f 0")
    case None
    obtain s1 e1 where v: "visit row s = (s1, e1)" by fastforce
    show ?thesis
    proof (cases e1)
      case e1: None
      then have "visit_rows (\<lambda>k. f (Suc k)) visit rows s1 = (s', Some x)" using Cons.prems None v by simp
      from Cons.IH [OF this] obtain k where "stream_loop visit (take k rows) s1 \<in> {(s', None), (s', Some x)}" ..
      then have "stream_loop visit (take (Suc k) (row # rows)) s \<in> {(s', None), (s', Some x)}" using v e1 by simp
      then show ?thesis ..
    next
      case (Some y)
      then have "stream_loop visit (take (Suc 0) (row # rows)) s \<in> {(s', None), (s', Some x)}" using v Cons.prems None by simp
      then show ?thesis ..
    qed
  next
    case (Some y)
    with Cons.prems have "stream_loop visit (take 0 (row # rows)) s \<in> {(s', None), (s', Some x)}" by simp
    then show ?thesis ..
  qed
qed

lemma StreamSamples_cases:
  assumes "StreamSamples f table sid lo hi (Some visit) s = (s', e)"
  shows "s' = s \<and> e \<noteq> None \<or> visit_rows (\<lambda>k. f (Suc k)) visit (session_rows table sid lo hi) s = (s', e)"
proof (cases "optionalRange lo hi")
  case None
  with assms show ?thesis by (cases "f 0") (auto simp: StreamSamples_def session_rows_def)
next
  case (Some a)
  with assms have "s' = s" "e = Some a" by (simp_all add: StreamSamples_def)
  then show ?thesis by simp
qed

interpretation samples: row_stream "\<lambda>visit. StreamSamples f table sid lo hi (Some visit)" "session_rows table sid lo hi"
  for f table sid lo hi
proof
  fix visit s s' x
  show "stream_loop visit (session_rows table sid lo hi) s = (s', None)"
    if "StreamSamples f table sid lo hi (Some visit) s = (s', None)"
    using StreamSamples_cases [OF that] visit_rows_all by auto
  show "\<exists>k. stream_loop visit (take k (session_rows table sid lo hi)) s \<in> {(s', None), (s', Some x)}"
    if "StreamSamples f table sid lo hi (Some visit) s = (s', Some x)"
    using StreamSamples_cases [OF that]
  proof (elim disjE)
    assume "s' = s \<and> Some x \<noteq> None"
    then show ?thesis by (intro exI [of _ 0]) simp
  qed (rule visit_rows_some)
qed

interpretation pool: row_stream "StreamPoolIPs f d rid" "pool_rows d rid" for f d rid
proof
  fix visit s s' x
  obtain s1 e1 where l: "stream_loop visit (pool_rows d rid) s = (s1, e1)" by fastforce
  show "stream_loop visit (pool_rows d rid) s = (s', None)" if "StreamPoolIPs f d rid visit s = (s', None)"
    using that l by (cases "f 0"; cases e1) (simp_all add: StreamPoolIPs_def)
  show "\<exists>k. stream_loop visit (take k (pool_rows d rid)) s \<in> {(s', None), (s', Some x)}"
    if "StreamPoolIPs f d rid visit s = (s', Some x)"
  proof (cases "f 0")
    case None
    with that l have "stream_loop visit (take (length (pool_rows d rid)) (pool_rows d rid)) s \<in> {(s', None), (s', Some x)}"
      by (cases e1) (simp_all add: StreamPoolIPs_def)
    then show ?thesis ..
  next
    case (Some y)
    with that have "stream_loop visit (take 0 (pool_rows d rid)) s \<in> {(s', None), (s', Some x)}" by (simp add: StreamPoolIPs_def)
    then show ?thesis ..
  qed
qed


subsection \<open>File names and formula characters\<close>

definition filename_char :: "char \<Rightarrow> bool" where
  "filename_char c \<longleftrightarrow> filename_rune (byte c)"

lemma sanitize_runes_chars: "list_all filename_char (sanitize_runes b cs)"
proof (induction b cs rule: sanitize_runes.induct)
  case (2 b c cs)
  have "filename_rune c \<Longrightarrow> c < 256" by (auto simp: filename_rune_def)
  then have "filename_rune c \<Longrightarrow> filename_char (char_of c)" by (simp add: filename_char_def)
  with 2 show ?case by (auto simp: filename_char_def filename_rune_def)
qed (simp add: filename_char_def filename_rune_def)

lemma sanitizedFilename_chars: "list_all filename_char (sanitizedFilename name)"
  using sanitize_runes_chars by (simp add: sanitizedFilename_def Let_def) (simp add: filename_char_def filename_rune_def)

definition safe_cell :: "string \<Rightarrow> bool" where
  "safe_cell s \<longleftrightarrow> (case s of [] \<Rightarrow> True | c # _ \<Rightarrow> c \<notin> set formula_chars)"

lemma safe_csvFormulaSafe [simp]: "safe_cell (csvFormulaSafe s)"
  by (cases s) (simp_all add: csvFormulaSafe_def safe_cell_def formula_chars_def)

text \<open>Bytes a cell of the program's own making begins with: digits, lower-case letters, the colon.\<close>

lemma safe_cell_start: "s = c # t \<Longrightarrow> 48 \<le> byte c \<Longrightarrow> byte c \<noteq> 61 \<Longrightarrow> byte c \<noteq> 64 \<Longrightarrow> safe_cell (s @ u)"
  by (auto simp: safe_cell_def formula_chars_def)

lemma nat_str_Cons: obtains c t where "nat_str n = c # t" "48 \<le> byte c" "byte c \<le> 57"
proof -
  have "nat_str n \<noteq> []" by (simp add: nat_str.simps [of n])
  then obtain c t where "nat_str n = c # t" by (cases "nat_str n") auto
  with nat_str_digits [of c n] that show thesis by simp
qed

lemma safe_cell_Cons: "s = c # t \<Longrightarrow> 48 \<le> byte c \<Longrightarrow> byte c \<noteq> 61 \<Longrightarrow> byte c \<noteq> 64 \<Longrightarrow> safe_cell (s @ u)"
  by (auto simp: safe_cell_def formula_chars_def)

lemma safe_cell_nat_str: "safe_cell (nat_str n @ u)"
proof -
  obtain c t where "nat_str n = c # t" "48 \<le> byte c" "byte c \<le> 57" by (rule nat_str_Cons)
  then show ?thesis by (intro safe_cell_Cons [of _ c t]) simp_all
qed

lemma hex_digit_safe: "d < 16 \<Longrightarrow> 48 \<le> byte (GoNet.hex_digit d) \<and> byte (GoNet.hex_digit d) \<noteq> 61 \<and> byte (GoNet.hex_digit d) \<noteq> 64"
proof -
  have "list_all (\<lambda>d. 48 \<le> byte (GoNet.hex_digit d) \<and> byte (GoNet.hex_digit d) \<noteq> 61 \<and> byte (GoNet.hex_digit d) \<noteq> 64) [0..<16]"
    by (simp add: GoNet.hex_digit_def upt_rec nth_Cons')
  then show "d < 16 \<Longrightarrow> ?thesis" by (simp add: list_all_iff)
qed

lemma hex_str_Cons: "\<exists>c t. hex_str n = c # t \<and> 48 \<le> byte c \<and> byte c \<noteq> 61 \<and> byte c \<noteq> 64"
proof (induction n rule: hex_str.induct)
  case (1 n)
  show ?case
  proof (cases "n < 16")
    case True
    then show ?thesis using hex_digit_safe [of n] by (simp add: hex_str.simps [of n])
  next
    case False
    with 1 show ?thesis by (auto simp: hex_str.simps [of n])
  qed
qed

lemma safe_cell_hex_str: "safe_cell (hex_str n @ u)"
proof -
  obtain c t where "hex_str n = c # t" "48 \<le> byte c" "byte c \<noteq> 61" "byte c \<noteq> 64" using hex_str_Cons by blast
  then show ?thesis by (rule safe_cell_Cons)
qed

lemma join_str_Cons: "\<exists>u. join_str sep (x # xs) = x @ u"
  by (cases xs) auto

lemma safe_cell_addr_str: "safe_cell (addr_str a)"
proof (cases a)
  case NoAddr
  then show ?thesis by (simp add: addr_str_def safe_cell_def formula_chars_def)
next
  case (V4 w)
  have "[0..<4] = 0 # [1..<4::nat]" by (simp add: upt_rec)
  then obtain u where "v4_str w = nat_str (v4_octet 0 w) @ u"
    using join_str_Cons by (fastforce simp: v4_str_def)
  with V4 show ?thesis by (simp add: addr_str_def safe_cell_nat_str)
next
  case (V6 w z)
  obtain s e where z: "zero_run (map (\<lambda>i. v6_group i w) [0..<8]) = (s, e)" by fastforce
  have gs: "map hex_str (map (\<lambda>i. v6_group i w) [0..<8]) = hex_str (v6_group 0 w) # map hex_str (map (\<lambda>i. v6_group i w) [1..<8])"
    by (simp add: upt_rec)
  have "safe_cell (v6_str w @ u)" for u
  proof (cases "s = 0")
    case True
    then show ?thesis by (simp add: v6_str_def Let_def z safe_cell_def formula_chars_def)
  next
    case False
    then obtain m where m: "s = Suc m" by (cases s) auto
    obtain u1 where u1: "join_str '':'' (map hex_str (map (\<lambda>i. v6_group i w) [0..<8])) = hex_str (v6_group 0 w) @ u1"
      unfolding gs using join_str_Cons by blast
    have "map hex_str (take s (map (\<lambda>i. v6_group i w) [0..<8])) = hex_str (v6_group 0 w) # take m (map hex_str (map (\<lambda>i. v6_group i w) [1..<8]))"
      unfolding m take_map [symmetric] gs by simp
    then obtain u2 where u2: "join_str '':'' (map hex_str (take s (map (\<lambda>i. v6_group i w) [0..<8]))) = hex_str (v6_group 0 w) @ u2"
      using join_str_Cons by metis
    show ?thesis by (simp add: v6_str_def Let_def z u1 u2 safe_cell_hex_str del: map_map)
  qed
  with V6 show ?thesis by (simp add: addr_str_def safe_cell_def formula_chars_def)
qed

lemma safe_NormalizeCategory: "safe_cell (NormalizeCategory c)"
  by (simp add: NormalizeCategory_def safe_cell_def formula_chars_def)

lemma safe_itoa: "0 \<le> n \<Longrightarrow> safe_cell (itoa n)"
  using safe_cell_nat_str [of "nat n" "[]"] by (simp add: itoa_def)

lemma pool_row_safe:
  assumes "row \<in> set (pool_rows d rid)" and "0 \<le> row_HitCount row" and "\<forall>n \<in> set_option (row_RiskScore row). 0 \<le> n"
    and "cs \<in> set (writeRunIPRow row)"
  shows "list_all safe_cell cs" and "length cs = 10"
proof -
  have t: "safe_cell ''true''" "safe_cell ''false''" "safe_cell []" "safe_cell ''unknown''"
    by (simp_all add: safe_cell_def formula_chars_def)
  obtain ip ips where "row = pool_row d ip ips" using assms(1) by (auto simp: pool_rows_def)
  then have "safe_cell (row_IP row)" "safe_cell (row_Category row)"
    by (simp_all add: pool_row_def Let_def safe_cell_addr_str safe_NormalizeCategory t split: option.split)
  with assms(2-4) show "list_all safe_cell cs" "length cs = 10"
    by (cases "row_RiskScore row"; simp add: writeRunIPRow_def safe_itoa format_bool_def t)+
qed


subsection \<open>The exports\<close>

text \<open>The disposition header names a file of harmless characters: nothing in a name ends the quoted string or the line.\<close>

definition safe_disposition :: "string \<Rightarrow> bool" where
  "safe_disposition d \<longleftrightarrow> (\<exists>filename. d = disposition filename \<and> filename \<noteq> [] \<and> list_all filename_char filename)"

lemma uuid_str_chars: "list_all filename_char (uuid_str u)"
proof -
  have hex: "list_all (\<lambda>d. filename_char (GoNet.hex_digit d)) [0..<16]"
    by (simp add: GoNet.hex_digit_def upt_rec nth_Cons' filename_char_def filename_rune_def)
  have "list_all filename_char (hex_str n)" for n
  proof (induction n rule: hex_str.induct)
    case (1 n)
    with hex show ?case by (cases "n < 16") (simp_all add: hex_str.simps [of n] list_all_iff)
  qed
  moreover have "list_all filename_char (pad 32 s)" if "list_all filename_char s" for s
    using that by (auto simp: pad_def list_all_iff filename_char_def filename_rune_def)
  ultimately have "list_all filename_char (pad 32 (hex_str u))" by blast
  then show ?thesis
    by (auto simp: uuid_str_def Let_def list_all_iff filename_char_def filename_rune_def dest: in_set_takeD in_set_dropD)
qed

lemma safe_disposition_name:
  "list_all filename_char ending \<Longrightarrow> ending \<noteq> [] \<Longrightarrow> safe_disposition (disposition (sanitizedFilename name @ ''-'' @ uuid_str u @ ending))"
  unfolding safe_disposition_def
  by (rule exI [of _ "sanitizedFilename name @ ''-'' @ uuid_str u @ ending"])
     (simp add: sanitizedFilename_chars uuid_str_chars, simp add: filename_char_def filename_rune_def)

lemma file_endings: "list_all filename_char ''.csv''" "list_all filename_char ''-pool.csv''"
  by (simp_all add: filename_char_def filename_rune_def)

lemma csv_response_delivered:
  assumes "csv_response filename (started, body, e) = Inr (d, body', e')"
  shows "started = None" "d = disposition filename" "body' = body" "e' = e"
  using assms by (simp_all add: csv_response_def split: option.splits)

lemma read_export_text:
  "header \<noteq> [] \<Longrightarrow> list_all (\<lambda>r. r \<noteq> []) (concat (map cells rows)) \<Longrightarrow>
     read_csv (export_text header cells rows) = Some (header # concat (map cells rows))"
  by (simp add: export_text_def read_csv_written)

definition session_csv :: "event list \<Rightarrow> uuid \<Rightarrow> time option \<Rightarrow> time option \<Rightarrow> string list list" where
  "session_csv table sid lo hi = csvHeader # concat (map writeCSVEvent (session_rows table sid lo hi))"

definition run_csv :: "db \<Rightarrow> uuid \<Rightarrow> string list list" where
  "run_csv d rid = runCSVHeader # concat (map writeRunIPRow (pool_rows d rid))"

lemma session_csv_text: "export_text csvHeader writeCSVEvent (session_rows table sid lo hi) = csv_text (session_csv table sid lo hi)"
  by (simp add: export_text_def session_csv_def)

lemma run_csv_text: "export_text runCSVHeader writeRunIPRow (pool_rows d rid) = csv_text (run_csv d rid)"
  by (simp add: export_text_def run_csv_def)

lemma session_csv_cells: "list_all (\<lambda>r. length r = 17) (session_csv table sid lo hi)"
  by (auto simp: session_csv_def csvHeader_def writeCSVEvent_def probe_cells_def list_all_iff Let_def)

lemma session_csv_length: "length (session_csv table sid lo hi) = Suc (sum_list (map (\<lambda>e. unat (e_ProbesAttempted e)) (session_rows table sid lo hi)))"
  by (simp add: session_csv_def length_concat writeCSVEvent_def comp_def)

lemma read_session_csv: "read_csv (csv_text (session_csv table sid lo hi)) = Some (session_csv table sid lo hi)"
proof -
  have "list_all (\<lambda>r. r \<noteq> []) (session_csv table sid lo hi)"
    using session_csv_cells [of table sid lo hi] by (auto simp: list_all_iff)
  then show ?thesis by (rule read_csv_written)
qed

text \<open>
  C16: a session export sends a prefix of one row of 17 cells per probe of every sample in the range, in
  chronological order after the header, and the whole of it when the stream ends without an error, whatever
  read or write fails; what it sends in full reads back cell by cell; and the file name in the header
  consists of letters, digits, dots, underscores and hyphens.
\<close>

theorem session_export_delivered:
  assumes "ExportSessionCSV S f rf table pipe sid lo hi s = Inr (d, body, e)"
  shows "prefix body (csv_text (session_csv table sid lo hi)) \<and> (e = None \<longrightarrow> read_csv body = Some (session_csv table sid lo hi))
    \<and> list_all (\<lambda>r. length r = 17) (session_csv table sid lo hi)
    \<and> length (session_csv table sid lo hi) = Suc (sum_list (map (\<lambda>e. unat (e_ProbesAttempted e)) (session_rows table sid lo hi)))
    \<and> safe_disposition d"
proof -
  obtain started b x where c: "csv_stream csvHeader writeCSVEvent pipe (\<lambda>visit. StreamSamples rf table sid lo hi (Some visit)) = (started, b, x)"
    using prod_cases3 by blast
  obtain v where "SessionByID f (sv_store s) sid = Inr v"
    using assms by (cases "SessionByID f (sv_store s) sid") (auto simp: ExportSessionCSV_def split: if_splits)
  with assms c have r: "csv_response (sanitizedFilename (s_Name v) @ ''-'' @ uuid_str (s_ID v) @ ''.csv'') (started, b, x) = Inr (d, body, e)"
    by (simp add: ExportSessionCSV_def split: if_splits)
  note r = csv_response_delivered [OF r]
  from samples.delivered [OF c] r session_csv_cells session_csv_length read_session_csv safe_disposition_name file_endings
  show ?thesis by (simp add: session_csv_text)
qed

text \<open>
  C14: a run export that starts has asked the database, and a client that sees it completed has the header and
  one row of ten cells for every address of the pool, which read back as they were written and of which no
  cell begins with a character a spreadsheet takes for a formula; a failure on the way never looks complete.
\<close>

theorem run_export_delivered:
  assumes "ExportRunCSV S f rf pipe rid s = Inr (d, body, e)"
    and "VisitExportRunCSVResponse fault (body, e) = (got, outcome)"
    and "\<forall>row \<in> set (pool_rows (sv_store s) rid). 0 \<le> row_HitCount row \<and> (\<forall>n \<in> set_option (row_RiskScore row). 0 \<le> n)"
  shows "prefix got (csv_text (run_csv (sv_store s) rid)) \<and> (outcome = Completed \<longrightarrow> read_csv got = Some (run_csv (sv_store s) rid))
    \<and> list_all (\<lambda>r. length r = 10 \<and> list_all safe_cell r) (run_csv (sv_store s) rid)
    \<and> length (run_csv (sv_store s) rid) = Suc (length (pool_rows (sv_store s) rid)) \<and> safe_disposition d"
proof -
  obtain started b x where c: "csv_stream runCSVHeader writeRunIPRow pipe (StreamPoolIPs rf (sv_store s) rid) = (started, b, x)"
    using prod_cases3 by blast
  obtain v where "RunByID f (sv_store s) rid = Inr v"
    using assms(1) by (cases "RunByID f (sv_store s) rid") (auto simp: ExportRunCSV_def split: if_splits)
  with assms(1) c have r: "csv_response (sanitizedFilename (run_Name (rs_Run v)) @ ''-'' @ uuid_str (run_ID (rs_Run v)) @ ''-pool.csv'')
      (started, b, x) = Inr (d, body, e)"
    by (simp add: ExportRunCSV_def split: if_splits)
  note r = csv_response_delivered [OF r]
  have safe: "list_all (\<lambda>r. length r = 10 \<and> list_all safe_cell r) (run_csv (sv_store s) rid)"
  proof -
    have "length runCSVHeader = 10 \<and> list_all safe_cell runCSVHeader"
      by (simp add: runCSVHeader_def safe_cell_def formula_chars_def)
    moreover have "list_all (\<lambda>r. length r = 10 \<and> list_all safe_cell r) (writeRunIPRow row)"
      if "row \<in> set (pool_rows (sv_store s) rid)" for row
      using pool_row_safe [OF that] assms(3) that by (simp add: list_all_iff [of _ "writeRunIPRow row"])
    ultimately show ?thesis by (simp add: run_csv_def list_all_iff)
  qed
  then have "read_csv (csv_text (run_csv (sv_store s) rid)) = Some (run_csv (sv_store s) rid)"
    by (intro read_csv_written) (auto simp: list_all_iff)
  moreover have "length (run_csv (sv_store s) rid) = Suc (length (pool_rows (sv_store s) rid))"
    by (simp add: run_csv_def length_concat writeRunIPRow_def comp_def sum_list_triv)
  moreover have "prefix got body \<and> (outcome = Completed \<longrightarrow> got = body \<and> e = None)"
    using assms(2) by (auto simp: VisitExportRunCSVResponse_def copy_body_def take_is_prefix split: option.splits if_splits)
  ultimately show ?thesis
    using pool.delivered [OF c] r safe safe_disposition_name file_endings prefix_order.trans by (auto simp: run_csv_text)
qed

lemma civil_examples:
  "civil 0 = (1, 1, 1)" "civil 719162 = (1970, 1, 1)" "civil 730178 = (2000, 2, 29)" "civil 738944 = (2024, 2, 29)" "civil 766343 = (2099, 3, 6)"
  by code_simp+

definition demo_sample :: event where
  "demo_sample =
     \<lparr>e_SessionID = 7, e_SampledAt = unix_epoch, e_SampleSeq = 1, e_ProbesAttempted = 1, e_ProbesOK = 1, e_PrimaryIP = V4 9,
      e_DistinctIPs = 1, e_IPChanged = 0, e_NewIPs = 1, e_RTTMinMS = 5, e_RTTMedMS = 5, e_RTTMaxMS = 5, e_EgressCountry = [],
      e_PrimaryCategory = ''mobile'', e_PrimaryRisk = 0, e_ProbeIPs = [V4 9], e_ProbeRTTsMS = [5], e_ProbeOK = [1], e_Error = []\<rparr>"

lemma SessionByID_demo: "\<exists>v. SessionByID no_faults (sv_store demo_supervisor) 7 = Inr v"
  by (simp add: SessionByID_def no_faults_def demo_supervisor_def demo_db_def empty_db_def find_session_def)

theorem session_export_delivered_witness:
  "\<exists>d body. ExportSessionCSV demo_server no_faults (\<lambda>_. None) [demo_sample] (\<lambda>_. None) 7 None None demo_supervisor = Inr (d, body, None)
     \<and> read_csv body = Some (session_csv [demo_sample] 7 None None)"
proof -
  obtain v where v: "SessionByID no_faults (sv_store demo_supervisor) 7 = Inr v" using SessionByID_demo ..
  have "\<exists>d body. ExportSessionCSV demo_server no_faults (\<lambda>_. None) [demo_sample] (\<lambda>_. None) 7 None None demo_supervisor = Inr (d, body, None)"
    using v by (simp add: ExportSessionCSV_def invalidOptionalRange_def demo_server_def NewServer_def csv_response_def csv_stream_def
        StreamSamples_def optionalRange_def sampleWhere_def chronological_def visit_csv_def emit_def announce_def write_header_def
        csv_start_def Let_def)
  then obtain d body where "ExportSessionCSV demo_server no_faults (\<lambda>_. None) [demo_sample] (\<lambda>_. None) 7 None None demo_supervisor
      = Inr (d, body, None)" by blast
  with session_export_delivered [OF this] show ?thesis by blast
qed

definition demo_export :: supervisor where
  "demo_export = demo_supervisor\<lparr>sv_store := demo_run_db\<lparr>t_runs := [\<lparr>run_ID = 3, run_Name = ''r'', TemplateCiphertext = [],
     TemplateNonce = [], TemplateDisplay = [], run_Axes = [], run_CreatedAt = 0\<rparr>]\<rparr>\<rparr>"

lemma pool_rows_demo:
  "pool_rows (sv_store demo_export) 3 = [pool_row (sv_store demo_export) (V4 9) [\<lparr>i_first_seen = 1000, i_last_seen = 2000, i_hit_count = 4\<rparr>]]"
  by (simp add: pool_rows_def run_ips_def demo_export_def demo_run_db_def)

theorem run_export_delivered_witness:
  "\<exists>d body. ExportRunCSV demo_server no_faults no_faults (\<lambda>_. None) 3 demo_export = Inr (d, body, None)
     \<and> read_csv body = Some (run_csv (sv_store demo_export) 3)"
proof -
  have "\<exists>v. RunByID no_faults (sv_store demo_export) 3 = Inr v"
    by (simp add: RunByID_def no_faults_def demo_export_def find_run_def)
  then have "\<exists>d body. ExportRunCSV demo_server no_faults no_faults (\<lambda>_. None) 3 demo_export = Inr (d, body, None)"
    by (elim exE) (simp add: ExportRunCSV_def demo_server_def NewServer_def csv_response_def csv_stream_def
        StreamPoolIPs_def no_faults_def pool_rows_demo visit_csv_def emit_def announce_def write_header_def
        csv_start_def Let_def)
  then obtain d body where r: "ExportRunCSV demo_server no_faults no_faults (\<lambda>_. None) 3 demo_export = Inr (d, body, None)" by blast
  have safe: "\<forall>row \<in> set (pool_rows (sv_store demo_export) 3). 0 \<le> row_HitCount row \<and> (\<forall>n \<in> set_option (row_RiskScore row). 0 \<le> n)"
    unfolding pool_rows_demo by (simp add: pool_row_def Let_def reputation_for_def demo_export_def demo_run_db_def)
  have "VisitExportRunCSVResponse None (body, None) = (body, Completed)" by (simp add: VisitExportRunCSVResponse_def copy_body_def)
  from run_export_delivered [OF r this safe] r show ?thesis by blast
qed

end
