(* ===== verification/Reports.thy ===== *)
theory Reports
  imports ApiRuns Exports
begin

text \<open>
  The report handlers of \<open>internal/api\<close>: \<open>report.go\<close> (one session) and \<open>run_report.go\<close> (a run). A session
  report walks its addresses with code of its own, which is shown to compute what the pool report of
  \<open>internal/variation\<close> computes. A response type with the fields of a domain type is the domain type's record.
\<close>

subsection \<open>Responses\<close>

definition shortReportBucket :: duration where "shortReportBucket = 300 * second"
definition longReportBucket :: duration where "longReportBucket = 3600 * second"
definition shortReportRange :: duration where "shortReportRange = 172800 * second"
definition maxReportObservations :: int where "maxReportObservations = 50000"
definition maxReportIPRows :: nat where "maxReportIPRows = 2000"

definition report_bucket :: "time \<Rightarrow> time \<Rightarrow> duration" where
  "report_bucket lo hi = (if time_sub hi lo > shortReportRange then longReportBucket else shortReportBucket)"

record series_view =
  vp_At :: time
  vp_SuccessRate :: real
  vp_LatencyP50Ms :: real
  vp_LatencyP95Ms :: real
  vp_DistinctPerSample :: real
  vp_IpChanges :: int
  vp_Mobile :: int
  vp_Residential :: int
  vp_Datacenter :: int
  vp_Unknown :: int

definition mapSeries :: "series_point list \<Rightarrow> series_view list" where
  "mapSeries points =
     map (\<lambda>p. \<lparr>vp_At = pt_At p, vp_SuccessRate = pt_SuccessRate p, vp_LatencyP50Ms = pt_LatencyP50MS p,
       vp_LatencyP95Ms = pt_LatencyP95MS p, vp_DistinctPerSample = pt_DistinctPerSample p,
       vp_IpChanges = wrap64 (int (pt_IPChanges p)), vp_Mobile = wrap64 (int (pt_Mobile p)),
       vp_Residential = wrap64 (int (pt_Residential p)), vp_Datacenter = wrap64 (int (pt_Datacenter p)),
       vp_Unknown = wrap64 (int (pt_Unknown p))\<rparr>) points"

record hold_view =
  vh_Ip :: string
  vh_StartedAt :: time
  vh_EndedAt :: time
  vh_Samples :: int
  vh_DurationSeconds :: int

record stickiness_view =
  vk_Holds :: "hold_view list"
  vk_Rotations :: "rotation list"
  vk_AverageHoldSeconds :: real
  vk_MedianHoldSeconds :: real

definition mapStickiness :: "stickiness \<Rightarrow> stickiness_view" where
  "mapStickiness value =
     \<lparr>vk_Holds = map (\<lambda>h. \<lparr>vh_Ip = ho_IP h, vh_StartedAt = ho_StartedAt h, vh_EndedAt = ho_EndedAt h,
        vh_Samples = wrap64 (int (ho_Samples h)), vh_DurationSeconds = ho_DurationSeconds h\<rparr>) (sk_Holds value),
      vk_Rotations = sk_Rotations value,
      vk_AverageHoldSeconds = sk_AverageHoldSeconds value, vk_MedianHoldSeconds = sk_MedianHoldSeconds value\<rparr>"

definition mapGrowth :: "growth_point list \<Rightarrow> (time \<times> int) list" where
  "mapGrowth points = map (\<lambda>p. (gp_At p, wrap64 (uint (gp_DistinctIPs p)))) points"


subsection \<open>One address of a session\<close>

record session_report =
  se_Series :: "series_view list"
  se_Stickiness :: stickiness_view
  se_PoolGrowth :: "(time \<times> int) list"
  se_RiskHistogram :: "risk_bucket list"
  se_Ips :: "ip_row list"
  se_Composition :: composition
  se_TotalIps :: int
  se_FlaggedIps :: int
  se_FlaggedPercent :: rat
  se_DnsblHitIps :: int

definition riskLabel :: "nat \<Rightarrow> string" where
  "riskLabel index = (if index = 9 then ''90-100'' else itoa (int index * 10) @ ''-'' @ itoa (int index * 10 + 9))"

definition api_newRiskHistogram :: "risk_bucket list" where
  "api_newRiskHistogram =
     (let result = map (\<lambda>i. \<lparr>rb_Label = riskLabel i, rb_Min = int i * 10, rb_Max = int i * 10 + 9, rb_Count = 0\<rparr>) [0..<10]
      in result[9 := (result ! 9)\<lparr>rb_Max := 100\<rparr>])"

definition normalizedCategory :: "string \<Rightarrow> string" where
  "normalizedCategory value = (if value \<in> {''mobile'', ''residential'', ''datacenter''} then value else ''unknown'')"

definition record_row :: "ip_record \<Rightarrow> ip_row" where
  "record_row rec =
     (let row = \<lparr>row_IP = addr_str (ir_IP rec), row_Category = ''unknown'', row_Country = [], row_ISP = [], row_ASN = [],
                 row_RiskScore = None, row_GreyNoiseClass = [], row_DNSBLListed = False, row_DNSBLHits = [],
                 row_HitCount = ir_HitCount rec, row_FirstSeen = ir_FirstSeen rec, row_LastSeen = ir_LastSeen rec\<rparr> in
      case ir_Reputation rec of
        None \<Rightarrow> row
      | Some r \<Rightarrow> row\<lparr>row_Category := normalizedCategory (Category r), row_Country := Country r, row_ISP := ISP r,
                     row_ASN := ASN r, row_RiskScore := RiskScore r, row_GreyNoiseClass := GreyNoiseClass r,
                     row_DNSBLListed := bool_value (DNSBLListed r), row_DNSBLHits := DNSBLHits r\<rparr>)"

definition record_flagged :: "(string \<Rightarrow> string \<Rightarrow> bool) \<Rightarrow> ip_record \<Rightarrow> bool" where
  "record_flagged uni rec =
     (case ir_Reputation rec of
        None \<Rightarrow> False
      | Some r \<Rightarrow> bool_value (ProxyCheckProxy r) \<or> (case RiskScore r of None \<Rightarrow> False | Some n \<Rightarrow> n \<ge> 70)
          \<or> equal_fold uni (GreyNoiseClass r) ''malicious'' \<or> bool_value (SFSAppears r) \<or> row_DNSBLListed (record_row rec))"

text \<open>The risk score counts in its bucket when there is one in range.\<close>

definition count_risk :: "ip_record \<Rightarrow> risk_bucket list \<Rightarrow> risk_bucket list" where
  "count_risk rec h =
     (case ir_Reputation rec of
        None \<Rightarrow> h
      | Some r \<Rightarrow>
     (case RiskScore r of
        None \<Rightarrow> h
      | Some n \<Rightarrow>
          if 0 \<le> n \<and> n \<le> 100
          then (let bucket = go_div n 10; i = nat (if bucket = 10 then 9 else bucket) in h[i := (h ! i)\<lparr>rb_Count := rb_Count (h ! i) + 1\<rparr>])
          else h))"

definition count_category :: "string \<Rightarrow> composition \<Rightarrow> composition" where
  "count_category category c =
     (if category = ''mobile'' then c\<lparr>Mobile := Mobile c + 1\<rparr>
      else if category = ''residential'' then c\<lparr>Residential := Residential c + 1\<rparr>
      else if category = ''datacenter'' then c\<lparr>Datacenter := Datacenter c + 1\<rparr>
      else c\<lparr>Unknown := Unknown c + 1\<rparr>)"

definition addIPRecord :: "(string \<Rightarrow> string \<Rightarrow> bool) \<Rightarrow> session_report \<Rightarrow> ip_record \<Rightarrow> session_report" where
  "addIPRecord uni report rec =
     (let row = record_row rec in
      report\<lparr>se_RiskHistogram := count_risk rec (se_RiskHistogram report),
             se_Composition := count_category (row_Category row) (se_Composition report),
             se_FlaggedIps := (if record_flagged uni rec then se_FlaggedIps report + 1 else se_FlaggedIps report),
             se_DnsblHitIps := (if row_DNSBLListed row then se_DnsblHitIps report + 1 else se_DnsblHitIps report),
             se_Ips := se_Ips report @ [row]\<rparr>)"


subsection \<open>The report of a session\<close>

text \<open>The parts: everything below the four queries.\<close>

definition session_report_of ::
  "(string \<Rightarrow> string \<Rightarrow> bool) \<Rightarrow> series_point list \<Rightarrow> stickiness \<Rightarrow> growth_point list \<Rightarrow> ip_record list \<Rightarrow> session_report" where
  "session_report_of uni series sticky growth ips =
     (let report = foldl (addIPRecord uni)
            \<lparr>se_Series = mapSeries series, se_Stickiness = mapStickiness sticky, se_PoolGrowth = mapGrowth growth,
             se_RiskHistogram = api_newRiskHistogram, se_Ips = [], se_Composition = zero_composition,
             se_TotalIps = 0, se_FlaggedIps = 0, se_FlaggedPercent = 0, se_DnsblHitIps = 0\<rparr> ips
      in report\<lparr>se_TotalIps := int (length ips),
                se_FlaggedPercent := (if ips = [] then se_FlaggedPercent report
                  else of_int (se_FlaggedIps report) * 100 / of_int (int (length ips)))\<rparr>)"

text \<open>What the four queries of a report meet.\<close>

record report_env =
  rp_session :: fault_plan
  rp_series :: faults
  rp_stickiness :: faults
  rp_growth :: faults
  rp_ips :: fault_plan
  rp_now :: time

definition SessionReport ::
  "(real \<Rightarrow> nat list \<Rightarrow> nat) \<Rightarrow> (string \<Rightarrow> string \<Rightarrow> bool) \<Rightarrow> server \<Rightarrow> report_env \<Rightarrow> event list \<Rightarrow> uuid \<Rightarrow> time option \<Rightarrow> time option
     \<Rightarrow> supervisor \<Rightarrow> session_report response" where
  "SessionReport quantile uni S env table sid fromParam toParam s =
     (if \<not> sr_store S \<or> \<not> sr_reader S then Inl dependencyUnavailable
      else (case SessionByID (rp_session env) (sv_store s) sid of
        Inl e \<Rightarrow> Inl (session_error e)
      | Inr v \<Rightarrow>
     (let lo = (case fromParam of Some t \<Rightarrow> t | None \<Rightarrow> (case StartedAt v of Some t \<Rightarrow> t | None \<Rightarrow> s_CreatedAt v));
          hi = (case toParam of Some t \<Rightarrow> t | None \<Rightarrow> rp_now env) in
      if lo > hi then Inl invalidRequest
      else (case Series quantile (rp_series env) table (s_ID v) lo hi (report_bucket lo hi) of
        Inl _ \<Rightarrow> Inl dependencyUnavailable
      | Inr series \<Rightarrow>
     (case Stickiness (rp_stickiness env) table (s_ID v) lo hi of
        Inl _ \<Rightarrow> Inl dependencyUnavailable
      | Inr sticky \<Rightarrow>
     (case PoolGrowth (rp_growth env) table (s_ID v) lo hi of
        Inl _ \<Rightarrow> Inl dependencyUnavailable
      | Inr growth \<Rightarrow>
     (case SessionIPs (rp_ips env) (sv_store s) (s_ID v) of
        Inl _ \<Rightarrow> Inl dependencyUnavailable
      | Inr ips \<Rightarrow> Inr (session_report_of uni series sticky growth ips))))))))"


subsection \<open>The report of a run\<close>

text \<open>
  \<open>sort.Slice\<close> is not stable: \<open>arrange\<close> is whatever it does, with its guarantee as the law \<open>by_hits\<close>.
\<close>

type_synonym arrange = "ip_row list \<Rightarrow> ip_row list"

definition by_hits :: "arrange \<Rightarrow> bool" where
  "by_hits arrange \<longleftrightarrow> (\<forall>rows. mset (arrange rows) = mset rows \<and> sorted_wrt (\<lambda>a b. row_HitCount a \<ge> row_HitCount b) (arrange rows))"

definition capIPRows :: "arrange \<Rightarrow> nat \<Rightarrow> pool_report \<Rightarrow> pool_report" where
  "capIPRows arrange limit pool =
     (if length (pr_IPs pool) \<le> limit then pool else pool\<lparr>pr_IPs := take limit (arrange (pr_IPs pool))\<rparr>)"

record cell_view =
  vc_CellKey :: string
  vc_Params :: params
  vc_TargetCountry :: "string option"
  vc_VariantCount :: int
  vc_DistinctIps :: int
  vc_HonorRate :: "rat option"
  vc_Composition :: composition

definition mapCells :: "(string \<Rightarrow> params option) \<Rightarrow> cell_report list \<Rightarrow> cell_view list" where
  "mapCells decode cells =
     map (\<lambda>c. \<lparr>vc_CellKey = cr_CellKey c, vc_Params = (case decode (cr_Params c) of None \<Rightarrow> [] | Some ps \<Rightarrow> ps),
       vc_TargetCountry = optionalString (cr_TargetCountry c), vc_VariantCount = cr_VariantCount c,
       vc_DistinctIps = cr_DistinctIPs c, vc_HonorRate = cr_HonorRate c, vc_Composition = cr_Composition c\<rparr>) cells"

definition mapRiskBuckets :: "risk_bucket list \<Rightarrow> risk_bucket list" where
  "mapRiskBuckets buckets =
     map (\<lambda>b. \<lparr>rb_Label = rb_Label b, rb_Min = rb_Min b, rb_Max = rb_Max b, rb_Count = rb_Count b\<rparr>) buckets"

definition mapPoolIPs :: "ip_row list \<Rightarrow> ip_row list" where
  "mapPoolIPs rows =
     map (\<lambda>r. \<lparr>row_IP = row_IP r, row_Category = row_Category r, row_Country = row_Country r, row_ISP = row_ISP r,
       row_ASN = row_ASN r, row_RiskScore = row_RiskScore r, row_GreyNoiseClass = row_GreyNoiseClass r,
       row_DNSBLListed = row_DNSBLListed r, row_DNSBLHits = row_DNSBLHits r, row_HitCount = row_HitCount r,
       row_FirstSeen = row_FirstSeen r, row_LastSeen = row_LastSeen r\<rparr>) rows"

record run_report_view =
  ur_DistinctIps :: int
  ur_EstimatedPoolSize :: int
  ur_PoolSizeLowerBound :: bool
  ur_Truncated :: bool
  ur_HonorRate :: "rat option"
  ur_Composition :: composition
  ur_FlaggedIps :: int
  ur_FlaggedPercent :: rat
  ur_DnsblHitIps :: int
  ur_RiskHistogram :: "risk_bucket list"
  ur_Series :: "series_view list"
  ur_Cells :: "cell_view list"
  ur_Ips :: "ip_row list"

definition mapRunReport :: "(string \<Rightarrow> params option) \<Rightarrow> pool_report \<Rightarrow> series_view list \<Rightarrow> bool \<Rightarrow> run_report_view" where
  "mapRunReport decode pool series truncated =
     \<lparr>ur_DistinctIps = pr_DistinctIPs pool, ur_EstimatedPoolSize = pr_EstimatedPoolSize pool,
      ur_PoolSizeLowerBound = pr_PoolSizeLowerBound pool, ur_Truncated = truncated, ur_HonorRate = pr_HonorRate pool,
      ur_Composition = pr_Composition pool, ur_FlaggedIps = pr_FlaggedIPs pool, ur_FlaggedPercent = pr_FlaggedPercent pool,
      ur_DnsblHitIps = pr_DNSBLHitIPs pool, ur_RiskHistogram = mapRiskBuckets (pr_RiskHistogram pool), ur_Series = series,
      ur_Cells = mapCells decode (pr_Cells pool), ur_Ips = mapPoolIPs (pr_IPs pool)\<rparr>"

text \<open>The Unicode and JSON parameters of a run report, and what its queries meet.\<close>

record report_params =
  pa_uni :: "string \<Rightarrow> string \<Rightarrow> bool"
  pa_lower :: "string \<Rightarrow> string"
  pa_decode :: "string \<Rightarrow> params option"
  pa_jsonb :: "string \<Rightarrow> string"

definition pa_unmarshal :: "report_params \<Rightarrow> string \<Rightarrow> params" where
  "pa_unmarshal P text = (case pa_decode P text of None \<Rightarrow> [] | Some ps \<Rightarrow> ps)"

record run_report_env =
  rn_run :: fault_plan
  rn_sessions :: fault_plan
  rn_observations :: fault_plan
  rn_series :: faults
  rn_now :: time

definition run_pool :: "report_params \<Rightarrow> arrange \<Rightarrow> variant_session list \<Rightarrow> ip_observation list \<Rightarrow> pool_report \<times> bool" where
  "run_pool P arrange variants observations =
     (let pool = BuildPoolReport (pa_uni P) (pa_lower P) (pa_unmarshal P) variants observations;
          truncated = (int (length observations) \<ge> maxReportObservations) in
      (capIPRows arrange maxReportIPRows (if truncated then pool\<lparr>pr_PoolSizeLowerBound := True\<rparr> else pool), truncated))"

definition api_RunReport ::
  "(real \<Rightarrow> nat list \<Rightarrow> nat) \<Rightarrow> report_params \<Rightarrow> arrange \<Rightarrow> server \<Rightarrow> run_report_env \<Rightarrow> event list \<Rightarrow> uuid \<Rightarrow> supervisor
     \<Rightarrow> run_report_view response" where
  "api_RunReport quantile P arrange S env table rid s =
     (if \<not> sr_runStore S \<or> \<not> sr_reader S then Inl dependencyUnavailable
      else (case RunByID (rn_run env) (sv_store s) rid of
        Inl e \<Rightarrow> Inl (if errors_is e ErrRunNotFound then notFound else dependencyUnavailable)
      | Inr summary \<Rightarrow>
     (case RunSessions (pa_jsonb P) (rn_sessions env) (sv_store s) rid of
        Inl _ \<Rightarrow> Inl dependencyUnavailable
      | Inr variants \<Rightarrow>
     (case RunIPObservations (rn_observations env) (sv_store s) rid maxReportObservations of
        Inl _ \<Rightarrow> Inl dependencyUnavailable
      | Inr observations \<Rightarrow>
     (let (pool, truncated) = run_pool P arrange variants observations;
          lo = run_CreatedAt (rs_Run summary); hi = rn_now env in
      case SeriesForSessions quantile (rn_series env) table (map vs_SessionID variants) lo hi (report_bucket lo hi) of
        Inl _ \<Rightarrow> Inl dependencyUnavailable
      | Inr series \<Rightarrow> Inr (mapRunReport (pa_decode P) pool (mapSeries series) truncated))))))"


subsection \<open>A session report is a pool report\<close>

text \<open>An address of a session as an observation of that session, and the part of a report the loop builds.\<close>

definition record_observation :: "uuid \<Rightarrow> ip_record \<Rightarrow> ip_observation" where
  "record_observation sid rec =
     \<lparr>o_SessionID = sid, o_IP = ir_IP rec, o_HitCount = ir_HitCount rec, o_FirstSeen = ir_FirstSeen rec,
      o_LastSeen = ir_LastSeen rec, o_Reputation = ir_Reputation rec\<rparr>"

definition as_pool :: "session_report \<Rightarrow> pool_report" where
  "as_pool rep =
     empty_report\<lparr>pr_Composition := se_Composition rep, pr_FlaggedIPs := se_FlaggedIps rep, pr_DNSBLHitIPs := se_DnsblHitIps rep,
       pr_RiskHistogram := se_RiskHistogram rep, pr_IPs := se_Ips rep\<rparr>"

lemma riskLabel_labelFor: "i < 10 \<Longrightarrow> riskLabel i = labelFor (int i * 10) (if i = 9 then 100 else int i * 10 + 9)"
proof -
  have "riskLabel 9 = labelFor 90 100" by code_simp
  then show "i < 10 \<Longrightarrow> ?thesis" by (cases "i = 9") (simp_all add: riskLabel_def labelFor_def)
qed

lemma api_newRiskHistogram_eq: "api_newRiskHistogram = newRiskHistogram"
proof (rule nth_equalityI)
  fix i
  assume "i < length api_newRiskHistogram"
  then have i: "i < 10" by (simp add: api_newRiskHistogram_def)
  then show "api_newRiskHistogram ! i = newRiskHistogram ! i"
    by (cases "i = 9") (simp_all add: api_newRiskHistogram_def newRiskHistogram_nth riskLabel_labelFor nth_list_update Let_def)
qed (simp add: api_newRiskHistogram_def newRiskHistogram_def)

lemma normalizedCategory_eq: "normalizedCategory c = NormalizeCategory c"
  by (simp add: normalizedCategory_def NormalizeCategory_def)

lemma bool_value_case: "bool_value v = (case v of None \<Rightarrow> False | Some b \<Rightarrow> b)"
  by (cases v) (simp_all add: bool_value_def)

lemma record_row_eq: "record_row rec = newIPRow (record_observation sid rec)"
  by (cases "ir_Reputation rec")
     (simp_all add: record_row_def newIPRow_def record_observation_def normalizedCategory_eq bool_value_case Let_def)

lemma record_flagged_eq: "record_flagged uni rec = reputationFlagged uni (ir_Reputation rec)"
  by (cases "ir_Reputation rec") (simp_all add: record_flagged_def reputationFlagged_def record_row_def Let_def)

lemma count_risk_eq: "count_risk rec h = (case row_RiskScore (record_row rec) of None \<Rightarrow> h | Some n \<Rightarrow> addRisk h n)"
  by (cases "ir_Reputation rec")
     (auto simp: count_risk_def record_row_def addRisk_def Let_def not_less split: option.split)

lemma count_category_eq: "count_category category c = applyComposition c category"
  by (simp add: count_category_def applyComposition_def)

lemma addIPRecord_step:
  "as_pool (addIPRecord uni rep rec) = report_step (as_pool rep) (accum_of uni [record_observation sid rec])"
proof -
  have acc: "ia_row (accum_of uni [record_observation sid rec]) = record_row rec"
    "ia_flagged (accum_of uni [record_observation sid rec]) = record_flagged uni rec"
    by (simp_all add: accum_of_def merged_row_single record_row_eq [of _ sid] record_flagged_eq)
       (simp add: record_observation_def)
  show ?thesis
    by (simp add: report_step_def acc as_pool_def addIPRecord_def count_risk_eq count_category_eq empty_report_def Let_def
        split: option.split)
qed

lemma addIPRecord_loop:
  "as_pool (foldl (addIPRecord uni) rep ips) = foldl report_step (as_pool rep) (map (\<lambda>r. accum_of uni [record_observation sid r]) ips)"
  by (induction ips arbitrary: rep) (simp_all add: addIPRecord_step [of uni _ _ sid])

lemma session_loop:
  fixes sid ips
  defines "obs \<equiv> map (record_observation sid) ips"
  shows "as_pool (session_report_of uni series sticky growth ips) =
     empty_report\<lparr>pr_Composition := composition_of (map row_Category (map newIPRow obs)),
       pr_FlaggedIPs := int (length (filter (\<lambda>x. reputationFlagged uni (o_Reputation x)) obs)),
       pr_DNSBLHitIPs := int (length (filter row_DNSBLListed (map newIPRow obs))),
       pr_RiskHistogram := histogram_of (risk_scores (map newIPRow obs)),
       pr_IPs := map newIPRow obs\<rparr>"
proof -
  define rep0 where "rep0 = \<lparr>se_Series = mapSeries series, se_Stickiness = mapStickiness sticky, se_PoolGrowth = mapGrowth growth,
             se_RiskHistogram = api_newRiskHistogram, se_Ips = [], se_Composition = zero_composition,
             se_TotalIps = 0, se_FlaggedIps = 0, se_FlaggedPercent = 0, se_DnsblHitIps = 0\<rparr>"
  have z: "as_pool rep0 = empty_report" by (simp add: as_pool_def rep0_def empty_report_def api_newRiskHistogram_eq)
  have rows: "map ia_row (map (\<lambda>r. accum_of uni [record_observation sid r]) ips) = map newIPRow obs"
    by (simp add: accum_of_def merged_row_single obs_def)
  have flags: "length (filter ia_flagged (map (\<lambda>r. accum_of uni [record_observation sid r]) ips))
      = length (filter (\<lambda>x. reputationFlagged uni (o_Reputation x)) obs)"
    by (simp add: accum_of_def obs_def filter_map comp_def)
  have listed: "length (filter (row_DNSBLListed \<circ> ia_row) (map (\<lambda>r. accum_of uni [record_observation sid r]) ips))
      = length (filter row_DNSBLListed (map newIPRow obs))"
    by (simp add: accum_of_def merged_row_single obs_def filter_map comp_def)
  have "as_pool (session_report_of uni series sticky growth ips) = as_pool (foldl (addIPRecord uni) rep0 ips)"
    by (simp add: session_report_of_def rep0_def as_pool_def Let_def)
  also have "\<dots> = foldl report_step empty_report (map (\<lambda>r. accum_of uni [record_observation sid r]) ips)"
    by (simp only: addIPRecord_loop [of uni _ _ sid] z)
  finally show ?thesis unfolding report_loop rows flags listed map_map [symmetric] rows .
qed

text \<open>Observations of pairwise different addresses are not merged.\<close>

lemma obs_at_single: "distinct (map o_IP obs) \<Longrightarrow> x \<in> set obs \<Longrightarrow> obs_at obs (o_IP x) = [x]"
proof (induction obs)
  case (Cons y obs)
  show ?case
  proof (cases "x = y")
    case True
    with Cons.prems(1) have "filter (\<lambda>z. o_IP z = o_IP x) obs = []" by (auto simp: filter_empty_conv) (metis image_eqI)
    with True show ?thesis by (simp add: obs_at_def)
  next
    case False
    with Cons.prems have "x \<in> set obs" "o_IP y \<noteq> o_IP x" by auto
    with Cons show ?thesis by (simp add: obs_at_def)
  qed
qed simp

lemma observed_rows:
  assumes "distinct (map o_IP obs)"
  shows "mset (map f (map (obs_at obs) (observed_ips obs))) = mset (map (\<lambda>x. f [x]) obs)"
proof -
  have "mset (observed_ips obs) = mset (map o_IP obs)"
    using sort_distinct_set [OF assms] by (metis observed_ips_def list.set_map mset_sort)
  then have "mset (map (f \<circ> obs_at obs) (observed_ips obs)) = mset (map (f \<circ> obs_at obs) (map o_IP obs))"
    by (simp only: mset_map)
  also have "map (f \<circ> obs_at obs) (map o_IP obs) = map (\<lambda>x. f [x]) obs"
    using obs_at_single [OF assms] by simp
  finally show ?thesis by (simp only: map_map)
qed

lemma length_filter_mset: "mset xs = mset ys \<Longrightarrow> length (filter P xs) = length (filter P ys)"
  by (metis mset_filter size_mset)

lemma histogram_of_mset: "mset xs = mset ys \<Longrightarrow> histogram_of xs = histogram_of ys"
proof -
  assume "mset xs = mset ys"
  then have "length (filter P xs) = length (filter P ys)" for P by (rule length_filter_mset)
  then show ?thesis by (simp add: histogram_of_def)
qed

lemma risk_scores_mset: "mset xs = mset ys \<Longrightarrow> mset (risk_scores xs) = mset (risk_scores ys)"
proof -
  have "mset (risk_scores xs) = image_mset the (filter_mset (\<lambda>x. x \<noteq> None) (image_mset row_RiskScore (mset xs)))" for xs
    by (induction xs) (auto simp: risk_scores_def map_filter_simps split: option.split)
  then show "mset xs = mset ys \<Longrightarrow> ?thesis" by simp
qed

lemma session_report_pool:
  fixes uni series sticky growth ips lower unmarshal vs sid
  assumes "distinct (map ir_IP ips)"
  defines "rep \<equiv> session_report_of uni series sticky growth ips"
    and "pool \<equiv> BuildPoolReport uni lower unmarshal vs (map (record_observation sid) ips)"
  shows "se_Composition rep = pr_Composition pool" "se_RiskHistogram rep = pr_RiskHistogram pool"
    "se_TotalIps rep = pr_DistinctIPs pool" "se_FlaggedIps rep = pr_FlaggedIPs pool"
    "se_FlaggedPercent rep = pr_FlaggedPercent pool" "se_DnsblHitIps rep = pr_DNSBLHitIPs pool"
    "mset (se_Ips rep) = mset (pr_IPs pool)"
proof -
  define obs where "obs = map (record_observation sid) ips"
  have d: "distinct (map o_IP obs)" using assms(1) by (simp add: obs_def record_observation_def comp_def)
  note rows = observed_rows [OF d]
  have merged: "mset (map (\<lambda>ip. merged_row (obs_at obs ip)) (observed_ips obs)) = mset (map newIPRow obs)"
    using rows [of merged_row] by (simp add: comp_def merged_row_single)
  have flags: "mset (map (\<lambda>ip. ia_flagged (accum_of uni (obs_at obs ip))) (observed_ips obs))
      = mset (map (\<lambda>x. reputationFlagged uni (o_Reputation x)) obs)"
    using rows [of "\<lambda>xs. ia_flagged (accum_of uni xs)"] by (simp add: comp_def accum_of_def)
  have len: "length (observed_ips obs) = length ips"
    using arg_cong [OF rows [of id], of size] by (simp add: obs_def)
  have n: "length (filter (\<lambda>ip. ia_flagged (accum_of uni (obs_at obs ip))) (observed_ips obs))
      = length (filter (\<lambda>x. reputationFlagged uni (o_Reputation x)) obs)"
    using length_filter_mset [OF flags, of id] by (simp add: filter_map comp_def)
  have m: "length (filter (\<lambda>ip. row_DNSBLListed (merged_row (obs_at obs ip))) (observed_ips obs))
      = length (filter row_DNSBLListed (map newIPRow obs))"
    using length_filter_mset [OF merged, of row_DNSBLListed] by (simp add: filter_map comp_def)
  have loop: "as_pool rep = empty_report\<lparr>pr_Composition := composition_of (map row_Category (map newIPRow obs)),
       pr_FlaggedIPs := int (length (filter (\<lambda>x. reputationFlagged uni (o_Reputation x)) obs)),
       pr_DNSBLHitIPs := int (length (filter row_DNSBLListed (map newIPRow obs))),
       pr_RiskHistogram := histogram_of (risk_scores (map newIPRow obs)), pr_IPs := map newIPRow obs\<rparr>"
    unfolding rep_def obs_def by (rule session_loop)
  have se: "se_Composition rep = pr_Composition (as_pool rep)" "se_RiskHistogram rep = pr_RiskHistogram (as_pool rep)"
    "se_FlaggedIps rep = pr_FlaggedIPs (as_pool rep)" "se_DnsblHitIps rep = pr_DNSBLHitIPs (as_pool rep)" "se_Ips rep = pr_IPs (as_pool rep)"
    by (simp_all add: as_pool_def)
  have cats: "mset (map (\<lambda>ip. row_Category (merged_row (obs_at obs ip))) (observed_ips obs)) = mset (map row_Category (map newIPRow obs))"
    using rows [of "row_Category \<circ> merged_row"] by (simp add: comp_def merged_row_single)
  have pool: "pool = BuildPoolReport uni lower unmarshal vs obs" by (simp add: pool_def obs_def)
  show "se_Composition rep = pr_Composition pool"
    unfolding se loop pool BuildPoolReport_spec using composition_of_mset [OF cats] by simp
  show "se_RiskHistogram rep = pr_RiskHistogram pool"
    unfolding se loop pool BuildPoolReport_spec using histogram_of_mset [OF risk_scores_mset [OF merged]] by simp
  show total: "se_TotalIps rep = pr_DistinctIPs pool"
    unfolding pool BuildPoolReport_spec by (simp add: rep_def session_report_of_def len Let_def)
  show flagged: "se_FlaggedIps rep = pr_FlaggedIPs pool"
    unfolding se loop pool BuildPoolReport_spec by (simp add: n)
  have "observed_ips obs = [] \<longleftrightarrow> ips = []" using len by (cases ips) auto
  then have "pr_FlaggedPercent pool = (if ips = [] then 0 else of_int (pr_FlaggedIPs pool) * 100 / of_int (int (length ips)))"
    unfolding pool BuildPoolReport_spec by (simp add: len)
  moreover have "se_FlaggedPercent rep = (if ips = [] then 0 else of_int (se_FlaggedIps rep) * 100 / of_int (int (length ips)))"
    by (simp add: rep_def session_report_of_def Let_def)
  ultimately show "se_FlaggedPercent rep = pr_FlaggedPercent pool" by (simp add: flagged)
  show "se_DnsblHitIps rep = pr_DNSBLHitIPs pool" unfolding se loop pool BuildPoolReport_spec by (simp add: m)
  show "mset (se_Ips rep) = mset (pr_IPs pool)" unfolding se loop pool BuildPoolReport_spec by (simp add: merged [unfolded mset_map])
qed


subsection \<open>The reports\<close>

lemma SessionByID_id: "SessionByID f d sid = Inr v \<Longrightarrow> s_ID v = sid"
  by (auto simp: SessionByID_def mapSession_def find_session_def find_Some_iff split: option.splits)

lemma SessionIPs_distinct:
  assumes "SessionIPs f d sid = Inr ips" and "gomap (t_session_ips d)"
  shows "distinct (map ir_IP ips)"
proof -
  define xs where "xs = sort_key (\<lambda>(_, c). - i_last_seen c) (filter (\<lambda>((s, _), _). s = sid) (t_session_ips d))"
  have ips: "map ir_IP ips = map snd (map fst xs)"
    using assms(1) by (cases "f 0") (auto simp: SessionIPs_def xs_def comp_def case_prod_beta)
  have "distinct (map fst (filter (\<lambda>((s, _), _). s = sid) (t_session_ips d)))"
    using assms(2) by (simp add: gomap_def distinct_map_filter)
  moreover have "mset (map fst xs) = mset (map fst (filter (\<lambda>((s, _), _). s = sid) (t_session_ips d)))" by (simp add: xs_def)
  ultimately have d: "distinct (map fst xs)" using mset_eq_imp_distinct_iff by blast
  have "\<forall>k \<in> set (map fst xs). fst k = sid" by (simp add: xs_def case_prod_beta)
  then have "inj_on snd (set (map fst xs))" by (intro inj_onI prod_eqI) (simp_all only:)
  with d show ?thesis unfolding ips by (subst distinct_map) blast
qed

text \<open>
  C18: the report of a session agrees with the pool report, a second implementation, of the same addresses: same
  composition, histogram, counts and percentage, and the same address rows up to their order; and every
  address is in exactly one category.
\<close>

theorem session_report_agrees:
  assumes "SessionReport quantile uni S env table sid fromParam toParam s = Inr rep" and "db_ok (sv_store s)"
  shows "\<exists>ips. SessionIPs (rp_ips env) (sv_store s) sid = Inr ips \<and>
     (let pool = BuildPoolReport uni lower unmarshal vs (map (record_observation sid) ips) in
        se_Composition rep = pr_Composition pool \<and> se_RiskHistogram rep = pr_RiskHistogram pool
      \<and> se_TotalIps rep = pr_DistinctIPs pool \<and> se_FlaggedIps rep = pr_FlaggedIPs pool
      \<and> se_FlaggedPercent rep = pr_FlaggedPercent pool \<and> se_DnsblHitIps rep = pr_DNSBLHitIPs pool
      \<and> mset (se_Ips rep) = mset (pr_IPs pool) \<and> composition_total (se_Composition rep) = se_TotalIps rep)"
proof -
  obtain v where v: "SessionByID (rp_session env) (sv_store s) sid = Inr v"
    using assms(1) by (cases "SessionByID (rp_session env) (sv_store s) sid") (auto simp: SessionReport_def split: if_splits)
  note sid = SessionByID_id [OF v]
  obtain ips where ips: "SessionIPs (rp_ips env) (sv_store s) sid = Inr ips"
    using assms(1) v sid by (auto simp: SessionReport_def Let_def split: if_splits sum.splits)
  obtain series sticky growth where rep: "rep = session_report_of uni series sticky growth ips"
    using assms(1) v sid ips by (auto simp: SessionReport_def Let_def split: if_splits sum.splits)
  have "distinct (map ir_IP ips)" using SessionIPs_distinct [OF ips] assms(2) by (simp add: db_ok_def)
  note eqs = session_report_pool [OF this, where sid = sid and uni = uni and series = series and sticky = sticky
      and growth = growth and lower = lower and unmarshal = unmarshal and vs = vs, folded rep]
  have "composition_total (se_Composition rep) = se_TotalIps rep"
    unfolding eqs BuildPoolReport_spec by simp
  with ips eqs show ?thesis by (auto simp: Let_def)
qed

text \<open>Capping keeps rows none of which has fewer hits than a row it drops.\<close>

lemma capIPRows_kept:
  assumes "by_hits arrange"
  shows "\<exists>dropped. mset (pr_IPs (capIPRows arrange limit pool)) + mset dropped = mset (pr_IPs pool)
     \<and> length (pr_IPs (capIPRows arrange limit pool)) = min limit (length (pr_IPs pool))
     \<and> list_all (\<lambda>r. list_all (\<lambda>r'. row_HitCount r' \<le> row_HitCount r) dropped) (pr_IPs (capIPRows arrange limit pool))"
proof (cases "length (pr_IPs pool) \<le> limit")
  case True
  then show ?thesis by (intro exI [of _ "[]"]) (simp add: capIPRows_def list_all_iff)
next
  case False
  define rows where "rows = arrange (pr_IPs pool)"
  have m: "mset rows = mset (pr_IPs pool)" and "sorted_wrt (\<lambda>a b. row_HitCount a \<ge> row_HitCount b) (take limit rows @ drop limit rows)"
    using assms by (simp_all add: by_hits_def rows_def)
  then have "list_all (\<lambda>r. list_all (\<lambda>r'. row_HitCount r' \<le> row_HitCount r) (drop limit rows)) (take limit rows)"
    by (simp add: sorted_wrt_append list_all_iff del: append_take_drop_id)
  moreover have "mset (take limit rows) + mset (drop limit rows) = mset (pr_IPs pool)"
    by (simp only: m [symmetric] mset_append [symmetric] append_take_drop_id)
  moreover have "length rows = length (pr_IPs pool)" using m by (rule mset_eq_length)
  ultimately show ?thesis using False by (intro exI [of _ "drop limit rows"]) (simp add: capIPRows_def rows_def)
qed

lemma mapPoolIPs_id: "mapPoolIPs rows = rows" and mapRiskBuckets_id: "mapRiskBuckets buckets = buckets"
  by (simp_all add: mapPoolIPs_def mapRiskBuckets_def map_idI)



subsection \<open>Examples\<close>

definition demo_report_env :: report_env where
  "demo_report_env = \<lparr>rp_session = no_faults, rp_series = (\<lambda>_. None), rp_stickiness = (\<lambda>_. None), rp_growth = (\<lambda>_. None),
     rp_ips = no_faults, rp_now = 2000000\<rparr>"

theorem session_report_agrees_witness:
  "\<exists>rep. SessionReport (\<lambda>_ _. 0) (\<lambda>_ _. False) demo_server demo_report_env [] 7 None None demo_supervisor = Inr rep
     \<and> composition_total (se_Composition rep) = se_TotalIps rep"
proof -
  obtain v where v: "SessionByID no_faults (sv_store demo_supervisor) 7 = Inr v" using SessionByID_demo ..
  have sid: "s_ID v = 7" by (rule SessionByID_id [OF v])
  have ips: "SessionIPs no_faults (sv_store demo_supervisor) 7 = Inr []"
    by (simp add: SessionIPs_def no_faults_def demo_supervisor_def demo_db_def empty_db_def)
  have started: "StartedAt v = Some 1000000"
    using v by (auto simp: SessionByID_def no_faults_def demo_supervisor_def demo_db_def empty_db_def find_session_def mapSession_def
        demo_row_def insertSessionParams_def demo_session_def timestamp_def)
  have "\<exists>rep. SessionReport (\<lambda>_ _. 0) (\<lambda>_ _. False) demo_server demo_report_env [] 7 None None demo_supervisor = Inr rep"
    using v ips started sid
    by (simp add: SessionReport_def demo_report_env_def demo_server_def NewServer_def Series_def Stickiness_def PoolGrowth_def
        report_bucket_def longReportBucket_def shortReportBucket_def series_query_def chronological_def second_def Let_def)
  then obtain rep where "SessionReport (\<lambda>_ _. 0) (\<lambda>_ _. False) demo_server demo_report_env [] 7 None None demo_supervisor = Inr rep" ..
  with session_report_agrees [OF this] demo_db_ok show ?thesis by (auto simp: Let_def)
qed

definition demo_params :: report_params where
  "demo_params = \<lparr>pa_uni = (\<lambda>_ _. False), pa_lower = id, pa_decode = (\<lambda>_. Some []), pa_jsonb = id\<rparr>"

definition demo_run_report_env :: run_report_env where
  "demo_run_report_env = \<lparr>rn_run = no_faults, rn_sessions = no_faults, rn_observations = no_faults, rn_series = (\<lambda>_. None), rn_now = 10\<rparr>"

lemma by_hits_sort: "by_hits (sort_key (\<lambda>r. - row_HitCount r))"
proof -
  have "sorted_wrt (\<lambda>a b. row_HitCount b \<le> row_HitCount a) (sort_key (\<lambda>r. - row_HitCount r) rows)" for rows :: "ip_row list"
    using sorted_sort_key [of "\<lambda>r. - row_HitCount r" rows] by (simp add: sorted_map)
  then show ?thesis unfolding by_hits_def by (intro allI conjI) simp_all
qed


end
