(* ===== verification/Network.thy ===== *)
theory Network
  imports Aggregate Secrets
begin

text \<open>
  The network side of a probe: \<open>internal/sampler/probe.go\<close> (one request through a proxy and the trace it
  answers) and \<open>internal/proxydial/connect.go\<close> (the CONNECT handshake). What the connection, the HTTP client
  and the contexts do is an argument; base64 is the standard encoding with padding.
\<close>

subsection \<open>Base64\<close>

definition b64_alphabet :: string where
  "b64_alphabet = ''ABCDEFGHIJKLMNOPQRSTUVWXYZabcdefghijklmnopqrstuvwxyz0123456789+/''"

definition b64_char :: "nat \<Rightarrow> char" where
  "b64_char n = b64_alphabet ! n"

definition b64_value :: "char \<Rightarrow> nat option" where
  "b64_value c = (if c \<in> set b64_alphabet then Some (length (takeWhile (\<lambda>d. d \<noteq> c) b64_alphabet)) else None)"

fun b64_encode :: "string \<Rightarrow> string" where
  "b64_encode [] = []"
| "b64_encode [a] = [b64_char (byte a div 4), b64_char (byte a mod 4 * 16), CHR ''='', CHR ''='']"
| "b64_encode [a, b] =
     [b64_char (byte a div 4), b64_char (byte a mod 4 * 16 + byte b div 16), b64_char (byte b mod 16 * 4), CHR ''='']"
| "b64_encode (a # b # c # s) =
     b64_char (byte a div 4) # b64_char (byte a mod 4 * 16 + byte b div 16) # b64_char (byte b mod 16 * 4 + byte c div 64)
       # b64_char (byte c mod 64) # b64_encode s"

text \<open>Groups of four; padding only ends the text.\<close>

fun b64_groups :: "string \<Rightarrow> string option" where
  "b64_groups [] = Some []"
| "b64_groups (a # b # c # d # s) =
     (case (b64_value a, b64_value b) of
        (Some x, Some y) \<Rightarrow>
          if c = CHR ''='' then (if d = CHR ''='' \<and> s = [] then Some [char_of (x * 4 + y div 16)] else None)
          else (case b64_value c of
             None \<Rightarrow> None
           | Some z \<Rightarrow>
               if d = CHR ''='' then (if s = [] then Some [char_of (x * 4 + y div 16), char_of (y mod 16 * 16 + z div 4)] else None)
               else (case b64_value d of
                  None \<Rightarrow> None
                | Some w \<Rightarrow> map_option (\<lambda>r. char_of (x * 4 + y div 16) # char_of (y mod 16 * 16 + z div 4) # char_of (z mod 4 * 64 + w) # r)
                    (b64_groups s)))
      | _ \<Rightarrow> None)"
| "b64_groups s = None"

text \<open>\<open>DecodeString\<close> skips line ends.\<close>

definition b64_decode :: "string \<Rightarrow> string option" where
  "b64_decode s = b64_groups (filter (\<lambda>c. c \<noteq> CHR 0x0A \<and> c \<noteq> CHR 0x0D) s)"

lemma b64_alphabet_ok:
  "list_all (\<lambda>n. b64_value (b64_char n) = Some n \<and> b64_char n \<noteq> CHR ''='' \<and> b64_char n \<noteq> CHR 0x0A \<and> b64_char n \<noteq> CHR 0x0D) [0..<64]"
  by code_simp

lemma b64_char_ok:
  assumes "n < 64"
  shows "b64_value (b64_char n) = Some n" "b64_char n \<noteq> CHR ''=''" "b64_char n \<noteq> CHR 0x0A" "b64_char n \<noteq> CHR 0x0D"
  using assms b64_alphabet_ok by (simp_all add: list_all_iff)

lemma byte_256: "byte a < 256"
  using nat_of_char_less_256 [of a] by simp

lemma byte_bounds:
  "byte a div 4 < 64" "byte a mod 4 * 16 + byte b div 16 < 64" "byte b mod 16 * 4 + byte c div 64 < 64"
  "byte c mod 64 < 64" "byte a mod 4 * 16 < 64" "byte b mod 16 * 4 < 64"
proof -
  have d: "byte a div 4 < 64" "byte b div 16 < 16" "byte c div 64 < 4"
    using byte_256 [of a] byte_256 [of b] byte_256 [of c] by (simp_all add: less_mult_imp_div_less)
  moreover have "byte a mod 4 < 4" "byte b mod 16 < 16" by simp_all
  ultimately show "byte a mod 4 * 16 + byte b div 16 < 64" "byte b mod 16 * 4 + byte c div 64 < 64"
    "byte a mod 4 * 16 < 64" "byte b mod 16 * 4 < 64" by linarith+
qed (use byte_256 [of a] in \<open>simp_all add: less_mult_imp_div_less\<close>)

lemma high_bits: "byte b div 16 div 16 = 0" "byte b div 16 mod 16 = byte b div 16" "byte c div 64 div 4 = 0" "byte c div 64 mod 4 = byte c div 64"
  using byte_256 [of b] byte_256 [of c] by (simp_all add: less_mult_imp_div_less)

lemma b64_groups_encode: "b64_groups (b64_encode s) = Some s"
  by (induction s rule: b64_encode.induct) (simp_all add: b64_char_ok byte_bounds high_bits)

lemma b64_decode_encode: "b64_decode (b64_encode s) = Some s"
proof -
  have "list_all (\<lambda>c. c \<noteq> CHR 0x0A \<and> c \<noteq> CHR 0x0D) (b64_encode s)"
    by (induction s rule: b64_encode.induct) (simp_all add: b64_char_ok byte_bounds)
  then have "filter (\<lambda>c. c \<noteq> CHR 0x0A \<and> c \<noteq> CHR 0x0D) (b64_encode s) = b64_encode s"
    by (simp add: list_all_iff filter_True)
  then show ?thesis by (simp add: b64_decode_def b64_groups_encode)
qed


subsection \<open>The trace\<close>

definition maxTraceBody :: nat where "maxTraceBody = 65536"

text \<open>The lines \<open>bufio.Scanner\<close> yields: without their end, and no empty one after the last.\<close>

definition drop_cr :: "string \<Rightarrow> string" where
  "drop_cr l = (if l \<noteq> [] \<and> last l = CHR 0x0D then butlast l else l)"

function scan_lines :: "string \<Rightarrow> string list" where
  "scan_lines s =
     (if s = [] then []
      else drop_cr (takeWhile (\<lambda>c. c \<noteq> CHR 0x0A) s) # scan_lines (tl (dropWhile (\<lambda>c. c \<noteq> CHR 0x0A) s)))"
  by pat_completeness auto
termination
proof (relation "measure length")
  fix s :: string
  assume "s \<noteq> []"
  have "length (tl (dropWhile (\<lambda>c. c \<noteq> CHR 0x0A) s)) \<le> length s - 1"
    using length_dropWhile_le [of "\<lambda>c. c \<noteq> CHR 0x0A" s] by simp
  with \<open>s \<noteq> []\<close> show "(tl (dropWhile (\<lambda>c. c \<noteq> CHR 0x0A) s), s) \<in> measure length" by (cases s) auto
qed simp

declare scan_lines.simps [simp del]

text \<open>
  Texts of error messages: quoting, the error of \<open>netip.ParseAddr\<close> and a duration. The reader yields bytes and
  then ends with an error or not; a line that fills the scanner's buffer is too long.
\<close>

record trace_texts =
  tx_quote :: "string \<Rightarrow> string"
  tx_addr_error :: "string \<Rightarrow> go_error"
  tx_duration :: "duration \<Rightarrow> string"

definition limit_body :: "string \<times> go_error option \<Rightarrow> string \<times> go_error option" where
  "limit_body body = (if length (fst body) \<ge> maxTraceBody then (take maxTraceBody (fst body), None) else body)"

definition scanner_error :: "string \<times> go_error option \<Rightarrow> go_error option" where
  "scanner_error body =
     (if length (fst body) = maxTraceBody \<and> CHR 0x0A \<notin> set (fst body) then Some (ErrOther ''bufio.Scanner: token too long'') else snd body)"

definition scanned :: "string \<times> go_error option \<Rightarrow> string list" where
  "scanned body = (if length (fst body) = maxTraceBody \<and> CHR 0x0A \<notin> set (fst body) then [] else scan_lines (fst body))"

fun trace_values :: "trace_texts \<Rightarrow> (string, string) gomap \<Rightarrow> string list \<Rightarrow> (string, string) gomap result" where
  "trace_values tx values [] = Inr values"
| "trace_values tx values (l # ls) =
     (if CHR ''='' \<in> set l
      then (let key = takeWhile (\<lambda>c. c \<noteq> CHR ''='') l; value = tl (dropWhile (\<lambda>c. c \<noteq> CHR ''='') l) in
            if map_of values key \<noteq> None then Inl (ErrOther (''duplicate probe trace key '' @ tx_quote tx key))
            else trace_values tx (AList.update key (trim_space value) values) ls)
      else trace_values tx values ls)"

definition value_of :: "(string, string) gomap \<Rightarrow> string \<Rightarrow> string" where
  "value_of values key = (case map_of values key of None \<Rightarrow> [] | Some v \<Rightarrow> v)"

definition isUpperAlphaCode :: "string \<Rightarrow> nat \<Rightarrow> bool" where
  "isUpperAlphaCode value n \<longleftrightarrow> length value = n \<and> list_all (\<lambda>r. 65 \<le> r \<and> r \<le> 90) (runes_of value)"

definition failed_probe :: "duration \<Rightarrow> go_error \<Rightarrow> probe_result" where
  "failed_probe rtt e = \<lparr>pb_IP = NoAddr, pb_Country = [], pb_Colo = [], pb_RTT = rtt, pb_Err = Some e\<rparr>"

definition parseTrace :: "trace_texts \<Rightarrow> string \<times> go_error option \<Rightarrow> duration \<Rightarrow> probe_result" where
  "parseTrace tx body rtt =
     (if rtt < 0 then failed_probe rtt (ErrOther (''probe returned negative RTT '' @ tx_duration tx rtt))
      else (case trace_values tx [] (scanned body) of
        Inl e \<Rightarrow> failed_probe rtt e
      | Inr values \<Rightarrow>
     (case scanner_error body of
        Some e \<Rightarrow> failed_probe rtt (Wrapped ''read probe trace'' e)
      | None \<Rightarrow>
     (case ParseAddr (value_of values ''ip'') of
        None \<Rightarrow> failed_probe rtt (Wrapped (''invalid probe IP '' @ tx_quote tx (value_of values ''ip'')) (tx_addr_error tx (value_of values ''ip'')))
      | Some ip \<Rightarrow>
          if \<not> isUpperAlphaCode (value_of values ''loc'') 2
          then failed_probe rtt (ErrOther (''invalid probe country '' @ tx_quote tx (value_of values ''loc'')))
          else if \<not> isUpperAlphaCode (value_of values ''colo'') 3
          then failed_probe rtt (ErrOther (''invalid probe colo '' @ tx_quote tx (value_of values ''colo'')))
          else \<lparr>pb_IP = unmap ip, pb_Country = value_of values ''loc'', pb_Colo = value_of values ''colo'', pb_RTT = rtt, pb_Err = None\<rparr>))))"

text \<open>
  One request: the error of building it, the clock before and after, the error of the client or the status
  and the body of the response. Redirects are not followed, so a 3xx answer is an error status.
\<close>

record probe_env =
  pe_request :: "go_error option"
  pe_start :: time
  pe_end :: time
  pe_response :: "(int \<times> string \<times> go_error option) result"

definition Probe :: "trace_texts \<Rightarrow> probe_env \<Rightarrow> probe_result" where
  "Probe tx env =
     (case pe_request env of
        Some e \<Rightarrow> failed_probe 0 (Wrapped ''build probe request'' e)
      | None \<Rightarrow>
     (let rtt = time_sub (pe_end env) (pe_start env) in
      case pe_response env of
        Inl e \<Rightarrow> failed_probe rtt e
      | Inr (code, body) \<Rightarrow>
          if code < 200 \<or> code \<ge> 300 then failed_probe rtt (ErrOther (''probe returned HTTP status '' @ itoa code))
          else parseTrace tx (limit_body body) rtt))"


subsection \<open>CONNECT\<close>

text \<open>The zero time is 0; \<open>deadline\<close> is the one of the context, if it has one.\<close>

definition connectDeadline :: "time option \<Rightarrow> time \<Rightarrow> duration \<Rightarrow> time" where
  "connectDeadline deadline startedAt timeout =
     (case deadline of
        None \<Rightarrow> if timeout > 0 then startedAt + timeout else 0
      | Some d \<Rightarrow> if timeout > 0 \<and> startedAt + timeout < d then startedAt + timeout else d)"

text \<open>
  What the handshake meets, step by step: the error of each operation, the status of the response, and what
  \<open>ctx.Err\<close> says at the time; \<open>ch_stopped\<close> says that the cancellation hook was removed before it ran.
\<close>

datatype handshake_step = SetDeadline | ProxyTLS | WriteRequest | ReadResponse | CheckContext | ClearDeadline

record handshake =
  ch_dial :: "go_error option"
  ch_fault :: "handshake_step \<Rightarrow> go_error option"
  ch_context :: "handshake_step \<Rightarrow> go_error option"
  ch_status :: int
  ch_stopped :: bool

record connect_request =
  cq_target :: string
  cq_authorization :: "string option"

text \<open>What is left behind: whether the connection to the proxy is open, whether its deadline is set, what was sent, and the error.\<close>

record connection =
  cn_open :: bool
  cn_deadline :: time
  cn_sent :: "connect_request option"
  cn_error :: "go_error option"

definition connectOperationError :: "go_error option \<Rightarrow> string \<Rightarrow> go_error \<Rightarrow> go_error" where
  "connectOperationError ctxErr operation e = Wrapped operation (case ctxErr of Some c \<Rightarrow> c | None \<Rightarrow> e)"

definition connect_request_of :: "url \<Rightarrow> string \<Rightarrow> connect_request" where
  "connect_request_of u address =
     \<lparr>cq_target = address,
      cq_authorization = (case u_user u of
         None \<Rightarrow> None
       | Some (name, password) \<Rightarrow> Some (''Basic '' @ b64_encode (name @ '':'' @ (case password of None \<Rightarrow> [] | Some p \<Rightarrow> p))))\<rparr>"

definition closed_with :: "time \<Rightarrow> connect_request option \<Rightarrow> go_error \<Rightarrow> connection" where
  "closed_with deadline sent e = \<lparr>cn_open = False, cn_deadline = deadline, cn_sent = sent, cn_error = Some e\<rparr>"

definition exchange :: "handshake \<Rightarrow> connect_request \<Rightarrow> time \<Rightarrow> connection" where
  "exchange env req deadline =
     (case ch_fault env WriteRequest of
        Some e \<Rightarrow> closed_with deadline None (connectOperationError (ch_context env WriteRequest) ''write proxy CONNECT request'' e)
      | None \<Rightarrow>
     (case ch_fault env ReadResponse of
        Some e \<Rightarrow> closed_with deadline (Some req) (connectOperationError (ch_context env ReadResponse) ''read proxy CONNECT response'' e)
      | None \<Rightarrow>
     if ch_status env < 200 \<or> ch_status env \<ge> 300
     then closed_with deadline (Some req) (ErrOther (''proxy CONNECT returned HTTP status '' @ itoa (ch_status env)))
     else (case ch_context env CheckContext of
        Some c \<Rightarrow> closed_with deadline (Some req) (Wrapped ''establish proxy CONNECT'' c)
      | None \<Rightarrow>
     if \<not> ch_stopped env
     then closed_with deadline (Some req) (Wrapped ''establish proxy CONNECT''
            (case ch_context env ClearDeadline of Some c \<Rightarrow> c | None \<Rightarrow> CtxCanceled))
     else (case ch_fault env ClearDeadline of
        Some e \<Rightarrow> closed_with deadline (Some req) (Wrapped ''clear proxy CONNECT deadline'' e)
      | None \<Rightarrow> \<lparr>cn_open = True, cn_deadline = 0, cn_sent = Some req, cn_error = None\<rparr>))))"

definition DialContext ::
  "(string \<Rightarrow> string \<Rightarrow> bool) \<Rightarrow> url \<Rightarrow> time option \<Rightarrow> time \<Rightarrow> duration \<Rightarrow> handshake \<Rightarrow> string \<Rightarrow> connection" where
  "DialContext uni u ctxDeadline now timeout env address =
     (let deadline = connectDeadline ctxDeadline now timeout in
      case ch_dial env of
        Some e \<Rightarrow> closed_with 0 None (Wrapped ''dial proxy'' e)
      | None \<Rightarrow>
     (case (if deadline = 0 then None else ch_fault env SetDeadline) of
        Some e \<Rightarrow> closed_with 0 None (Wrapped ''set proxy CONNECT deadline'' e)
      | None \<Rightarrow>
     (case (if equal_fold uni (u_scheme u) ''https'' then ch_fault env ProxyTLS else None) of
        Some e \<Rightarrow> closed_with deadline None (connectOperationError (ch_context env ProxyTLS) ''establish proxy TLS'' e)
      | None \<Rightarrow> exchange env (connect_request_of u address) deadline)))"


subsection \<open>What a probe and a handshake guarantee\<close>

lemma ParseAddr_valid: "ParseAddr s = Some a \<Longrightarrow> is_valid a"
  by (auto simp: ParseAddr_def parse_v6_def is_valid_def Let_def split: option.splits if_splits)

lemma parseTrace_cases:
  "pb_RTT (parseTrace tx body rtt) = rtt \<and>
   (pb_Err (parseTrace tx body rtt) = None \<longrightarrow>
      0 \<le> rtt \<and> is_valid (pb_IP (parseTrace tx body rtt)) \<and> \<not> is_4in6 (pb_IP (parseTrace tx body rtt))
      \<and> isUpperAlphaCode (pb_Country (parseTrace tx body rtt)) 2 \<and> isUpperAlphaCode (pb_Colo (parseTrace tx body rtt)) 3)"
proof (cases "rtt < 0")
  case False
  show ?thesis
  proof (cases "trace_values tx [] (scanned body)")
    case (Inr vs)
    then show ?thesis using False
      by (cases "ParseAddr (value_of vs ''ip'')")
        (auto simp: parseTrace_def failed_probe_def dest: ParseAddr_valid split: option.splits)
  qed (simp add: parseTrace_def failed_probe_def)
qed (simp add: parseTrace_def failed_probe_def)

lemma Probe_cases:
  "pb_Err (Probe tx env) = None \<longrightarrow>
     0 \<le> pb_RTT (Probe tx env) \<and> pb_RTT (Probe tx env) = time_sub (pe_end env) (pe_start env)
     \<and> is_valid (pb_IP (Probe tx env)) \<and> \<not> is_4in6 (pb_IP (Probe tx env))
     \<and> isUpperAlphaCode (pb_Country (Probe tx env)) 2 \<and> isUpperAlphaCode (pb_Colo (Probe tx env)) 3"
proof (cases "pe_request env")
  case None
  show ?thesis
  proof (cases "pe_response env")
    case (Inr r)
    then show ?thesis
      using None parseTrace_cases [of tx "limit_body (snd r)" "time_sub (pe_end env) (pe_start env)"]
      by (cases r) (simp add: Probe_def Let_def failed_probe_def)
  qed (simp add: Probe_def None failed_probe_def)
qed (simp add: Probe_def failed_probe_def)

text \<open>
  The text of a trace, as the endpoint writes it, is read back: distinct keys without an equals sign, values
  without surrounding blanks, no line end in either.
\<close>

definition trace_line :: "string \<times> string \<Rightarrow> string" where
  "trace_line kv = fst kv @ ''='' @ snd kv"

definition trace_text :: "(string \<times> string) list \<Rightarrow> string" where
  "trace_text kvs = concat (map (\<lambda>kv. trace_line kv @ [CHR 0x0A]) kvs)"

definition plain_pair :: "string \<times> string \<Rightarrow> bool" where
  "plain_pair kv \<longleftrightarrow>
     CHR ''='' \<notin> set (fst kv) \<and> CHR 0x0A \<notin> set (fst kv) \<and> CHR 0x0A \<notin> set (snd kv) \<and> CHR 0x0D \<notin> set (snd kv) \<and> trim_space (snd kv) = snd kv"

lemma takeWhile_stop: "c \<notin> set xs \<Longrightarrow> takeWhile (\<lambda>x. x \<noteq> c) (xs @ c # ys) = xs \<and> dropWhile (\<lambda>x. x \<noteq> c) (xs @ c # ys) = c # ys"
  by (induction xs) auto

lemma scan_trace_text: "list_all plain_pair kvs \<Longrightarrow> scan_lines (trace_text kvs) = map trace_line kvs"
proof (induction kvs)
  case Nil
  then show ?case by (simp add: trace_text_def scan_lines.simps)
next
  case (Cons kv kvs)
  have nl: "CHR 0x0A \<notin> set (trace_line kv)" using Cons.prems by (simp add: trace_line_def plain_pair_def)
  have cr: "drop_cr (trace_line kv) = trace_line kv"
    using Cons.prems by (auto simp: trace_line_def plain_pair_def drop_cr_def dest: last_in_set)
  have "trace_text (kv # kvs) = trace_line kv @ CHR 0x0A # trace_text kvs" by (simp add: trace_text_def)
  then have "scan_lines (trace_text (kv # kvs)) = drop_cr (trace_line kv) # scan_lines (trace_text kvs)"
    using takeWhile_stop [OF nl, of "trace_text kvs"] by (subst scan_lines.simps) simp
  then show ?case using Cons cr by simp
qed

lemma trace_values_lines:
  assumes "list_all plain_pair kvs" and "distinct (map fst vs @ map fst kvs)"
  shows "trace_values tx vs (map trace_line kvs) = Inr (vs @ kvs)"
  using assms
proof (induction kvs arbitrary: vs)
  case (Cons kv kvs)
  have eq: "CHR ''='' \<notin> set (fst kv)" and tr: "trim_space (snd kv) = snd kv"
    using Cons.prems by (simp_all add: plain_pair_def)
  have new: "fst kv \<notin> fst ` set vs" using Cons.prems by auto
  then have none: "map_of vs (fst kv) = None" by (simp add: map_of_eq_None_iff)
  have upd: "AList.update (fst kv) v vs = vs @ [(fst kv, v)]" for v
    using new by (induction vs) auto
  have "trace_values tx vs (trace_line kv # map trace_line kvs) = trace_values tx (vs @ [kv]) (map trace_line kvs)"
    using takeWhile_stop [OF eq, of "snd kv"] by (simp add: trace_line_def none upd tr)
  also have "\<dots> = Inr (vs @ kv # kvs)" using Cons.IH [of "vs @ [kv]"] Cons.prems by simp
  finally show ?case by simp
qed simp

lemma parseTrace_trace_text:
  assumes "list_all plain_pair kvs" "distinct (map fst kvs)" "length (trace_text kvs) < maxTraceBody" "0 \<le> rtt"
    "ParseAddr (value_of kvs ''ip'') = Some ip" "isUpperAlphaCode (value_of kvs ''loc'') 2" "isUpperAlphaCode (value_of kvs ''colo'') 3"
  shows "parseTrace tx (limit_body (trace_text kvs, None)) rtt
    = \<lparr>pb_IP = unmap ip, pb_Country = value_of kvs ''loc'', pb_Colo = value_of kvs ''colo'', pb_RTT = rtt, pb_Err = None\<rparr>"
  using assms trace_values_lines [of kvs "[]" tx]
  by (simp add: parseTrace_def limit_body_def scanned_def scanner_error_def scan_trace_text)

lemma ascii_runes: "byte c < 128 \<Longrightarrow> runes_of (c # s) = byte c # runes_of s"
  by (subst runes_of.simps) (simp add: decode_rune_def Let_def)

lemma runes_of_Nil: "runes_of [] = []"
  by (simp add: runes_of.simps)

lemma decode_high:
  assumes "decode_valid (c # s) = Some (r, w)" "128 \<le> byte c"
  shows "128 \<le> r"
proof -
  consider "byte c < 224" | "224 \<le> byte c" "byte c < 240" | "240 \<le> byte c" by linarith
  then show ?thesis
  proof cases
    case 1
    then show ?thesis using assms by (auto simp: Let_def split: if_splits list.splits)
  next
    case 2
    then show ?thesis using assms by (auto simp: Let_def in_range_def split: if_splits list.splits)
  next
    case 3
    then show ?thesis using assms by (auto simp: Let_def in_range_def split: if_splits list.splits)
  qed
qed

lemma upper_runes:
  "list_all (\<lambda>r. 65 \<le> r \<and> r \<le> 90) (runes_of s) \<Longrightarrow> list_all (\<lambda>c. 65 \<le> byte c \<and> byte c \<le> 90) s"
proof (induction s)
  case (Cons c s)
  show ?case
  proof (cases "byte c < 128")
    case True
    then show ?thesis using Cons by (simp add: ascii_runes)
  next
    case False
    have "90 < fst (decode_rune (c # s))"
    proof (cases "decode_valid (c # s)")
      case (Some rw)
      then show ?thesis using decode_high [of c s "fst rw" "snd rw"] False by (simp add: decode_rune_def)
    qed (simp add: decode_rune_def rune_error_def)
    then show ?thesis using Cons.prems by (subst (asm) runes_of.simps) (auto split: prod.splits)
  qed
qed simp

lemma isUpperAlphaCode_bytes:
  "isUpperAlphaCode v n \<Longrightarrow> length v = n \<and> list_all (\<lambda>c. 65 \<le> byte c \<and> byte c \<le> 90) v"
  by (simp add: isUpperAlphaCode_def upper_runes)

lemma Probe_success:
  assumes "pb_Err (Probe tx env) = None"
  shows "pb_RTT (Probe tx env) = time_sub (pe_end env) (pe_start env)" "res_ok (Probe tx env)"
    "\<not> is_4in6 (pb_IP (Probe tx env))"
    "isUpperAlphaCode (pb_Country (Probe tx env)) 2" "isUpperAlphaCode (pb_Colo (Probe tx env)) 3"
  using Probe_cases [of tx env] assms by (auto simp: res_ok_def)

text \<open>C8: A probe without an error is a well-formed observation: its round-trip time is the time between the two
  clock readings and not negative, its address is valid and never an IPv4 address in IPv6 form, its country and
  colocation codes are two and three capital letters. So the aggregation never rejects it.\<close>

theorem Probe_observation:
  "case pb_Err (Probe tx env) of
     Some _ \<Rightarrow> True
   | None \<Rightarrow>
       pb_RTT (Probe tx env) = time_sub (pe_end env) (pe_start env) \<and> res_ok (Probe tx env)
       \<and> \<not> is_4in6 (pb_IP (Probe tx env))
       \<and> length (pb_Country (Probe tx env)) = 2 \<and> list_all (\<lambda>c. 65 \<le> byte c \<and> byte c \<le> 90) (pb_Country (Probe tx env))
       \<and> length (pb_Colo (Probe tx env)) = 3 \<and> list_all (\<lambda>c. 65 \<le> byte c \<and> byte c \<le> 90) (pb_Colo (Probe tx env))"
proof (cases "pb_Err (Probe tx env)")
  case None
  note ok = Probe_success [OF None]
  show ?thesis using None ok(1-3) isUpperAlphaCode_bytes [OF ok(4)] isUpperAlphaCode_bytes [OF ok(5)] by simp
qed simp

definition sample_pairs :: "(string \<times> string) list" where
  "sample_pairs = [(''fl'', ''1''), (''ip'', ''192.0.2.7''), (''colo'', ''FRA''), (''loc'', ''DE'')]"

definition sample_texts :: trace_texts where
  "sample_texts = \<lparr>tx_quote = (\<lambda>s. s), tx_addr_error = ErrOther, tx_duration = (\<lambda>d. [])\<rparr>"

definition sample_probe_env :: probe_env where
  "sample_probe_env = \<lparr>pe_request = None, pe_start = 5, pe_end = 12, pe_response = Inr (200, trace_text sample_pairs, None)\<rparr>"

lemma sample_codes: "isUpperAlphaCode ''DE'' 2" "isUpperAlphaCode ''FRA'' 3"
  by (simp_all add: isUpperAlphaCode_def ascii_runes runes_of_Nil)

lemma sample_pairs_ok:
  "list_all plain_pair sample_pairs" "distinct (map fst sample_pairs)" "length (trace_text sample_pairs) < maxTraceBody"
  "value_of sample_pairs ''ip'' = ''192.0.2.7''" "value_of sample_pairs ''loc'' = ''DE''" "value_of sample_pairs ''colo'' = ''FRA''"
  by (simp_all add: sample_pairs_def plain_pair_def trim_space_visible visible_def trace_text_def trace_line_def maxTraceBody_def value_of_def)

lemma sample_probe:
  "Probe sample_texts sample_probe_env
     = \<lparr>pb_IP = V4 0xC0000207, pb_Country = ''DE'', pb_Colo = ''FRA'', pb_RTT = 7, pb_Err = None\<rparr>"
proof -
  have sub: "time_sub 12 5 = 7" by (simp add: time_sub_def)
  show ?thesis
    using parseTrace_trace_text [of sample_pairs 7 "V4 0xC0000207" sample_texts]
    by (simp add: Probe_def sample_probe_env_def sample_pairs_ok sample_codes sub ParseAddr_examples unmap_def)
qed

theorem Probe_observation_witness:
  "pb_Err (Probe sample_texts sample_probe_env) = None \<and> res_ok (Probe sample_texts sample_probe_env)
   \<and> length (pb_Country (Probe sample_texts sample_probe_env)) = 2"
  using Probe_observation [of sample_texts sample_probe_env] by (simp add: sample_probe)

text \<open>What a handshake that ends in a connection has done, and what one that does not leaves.\<close>

definition handshake_ok :: "handshake \<Rightarrow> bool" where
  "handshake_ok env \<longleftrightarrow>
     200 \<le> ch_status env \<and> ch_status env < 300 \<and> ch_stopped env \<and> ch_context env CheckContext = None
     \<and> list_all (\<lambda>s. ch_fault env s = None) [WriteRequest, ReadResponse, ClearDeadline]"

definition connected :: "connect_request \<Rightarrow> connection" where
  "connected req = \<lparr>cn_open = True, cn_deadline = 0, cn_sent = Some req, cn_error = None\<rparr>"

lemma exchange_ok: "handshake_ok env \<Longrightarrow> exchange env req deadline = connected req"
  by (simp add: handshake_ok_def exchange_def connected_def)

lemma exchange_fails:
  "\<not> handshake_ok env \<Longrightarrow> \<exists>sent e. exchange env req deadline = closed_with deadline sent e
     \<and> sent = (if ch_fault env WriteRequest = None then Some req else None)"
  by (cases "ch_fault env WriteRequest"; cases "ch_fault env ReadResponse"; cases "ch_context env CheckContext"; cases "ch_fault env ClearDeadline")
    (auto simp: handshake_ok_def exchange_def)

definition dial_ok :: "(string \<Rightarrow> string \<Rightarrow> bool) \<Rightarrow> url \<Rightarrow> time \<Rightarrow> handshake \<Rightarrow> bool" where
  "dial_ok uni u deadline env \<longleftrightarrow>
     ch_dial env = None \<and> (deadline = 0 \<or> ch_fault env SetDeadline = None)
     \<and> (equal_fold uni (u_scheme u) ''https'' \<longrightarrow> ch_fault env ProxyTLS = None) \<and> handshake_ok env"

lemma DialContext_ok:
  "dial_ok uni u (connectDeadline cd now timeout) env \<Longrightarrow>
     DialContext uni u cd now timeout env address = connected (connect_request_of u address)"
  by (auto simp: dial_ok_def DialContext_def Let_def exchange_ok)

lemma DialContext_fails:
  assumes "\<not> dial_ok uni u (connectDeadline cd now timeout) env"
  shows "\<exists>deadline sent e. DialContext uni u cd now timeout env address = closed_with deadline sent e"
proof -
  let ?e = "exchange env (connect_request_of u address) (connectDeadline cd now timeout)"
  have "(\<exists>deadline sent e. DialContext uni u cd now timeout env address = closed_with deadline sent e)
    \<or> DialContext uni u cd now timeout env address = ?e \<and> \<not> handshake_ok env"
    using assms by (cases "ch_dial env"; cases "ch_fault env SetDeadline"; cases "ch_fault env ProxyTLS")
      (auto simp: dial_ok_def DialContext_def Let_def)
  then show ?thesis using exchange_fails [of env "connect_request_of u address"] by metis
qed

text \<open>The credentials travel as \<open>user:password\<close>; reading them back splits at the first colon.\<close>

definition basic_credentials :: "connect_request \<Rightarrow> string option" where
  "basic_credentials req =
     (case cq_authorization req of
        None \<Rightarrow> None
      | Some h \<Rightarrow> if take 6 h = ''Basic '' then b64_decode (drop 6 h) else None)"

lemma basic_credentials_request:
  "basic_credentials (connect_request_of u address) =
     map_option (\<lambda>(name, password). name @ '':'' @ (case password of None \<Rightarrow> [] | Some p \<Rightarrow> p)) (u_user u)"
  by (cases "u_user u") (simp_all add: basic_credentials_def connect_request_of_def b64_decode_encode split_beta)

text \<open>C10: The CONNECT handshake gives an open connection exactly when every step of it went through: the dial, the
  deadline (when there is one), TLS to an https proxy, the request, a 2xx response, the context still live
  and its hook removed, and the deadline cleared. The connection then has no deadline and has carried one
  request, for the target, whose credentials decode to the user and password of the proxy URL. Otherwise
  there is an error, and the connection to the proxy is not left open.\<close>

theorem DialContext_outcome:
  "let c = DialContext uni u cd now timeout env address; deadline = connectDeadline cd now timeout in
     cn_open c = (cn_error c = None)
     \<and> (cn_error c = None) =
       (ch_dial env = None \<and> (deadline = 0 \<or> ch_fault env SetDeadline = None)
        \<and> (\<not> equal_fold uni (u_scheme u) ''https'' \<or> ch_fault env ProxyTLS = None)
        \<and> ch_fault env WriteRequest = None \<and> ch_fault env ReadResponse = None
        \<and> ch_status env \<in> {200..<300} \<and> ch_context env CheckContext = None \<and> ch_stopped env
        \<and> ch_fault env ClearDeadline = None)
     \<and> (cn_open c \<longrightarrow> cn_deadline c = 0 \<and> cn_sent c = Some (connect_request_of u address)
          \<and> cq_target (connect_request_of u address) = address
          \<and> basic_credentials (connect_request_of u address) =
              map_option (\<lambda>(name, password). name @ '':'' @ (case password of None \<Rightarrow> [] | Some p \<Rightarrow> p)) (u_user u))"
proof (cases "dial_ok uni u (connectDeadline cd now timeout) env")
  case True
  then show ?thesis
    using DialContext_ok [OF True, of address] basic_credentials_request [of u address]
    by (simp add: Let_def connected_def dial_ok_def handshake_ok_def connect_request_of_def)
next
  case False
  then show ?thesis
    using DialContext_fails [OF False, of address]
    by (auto simp: Let_def closed_with_def dial_ok_def handshake_ok_def)
qed

definition sample_proxy :: url where
  "sample_proxy = \<lparr>u_scheme = ''https'', u_host = ''p:1'', u_hostname = ''p'', u_port = ''1'', u_user = Some (''me'', Some ''pw'')\<rparr>"

definition calm_handshake :: handshake where
  "calm_handshake = \<lparr>ch_dial = None, ch_fault = (\<lambda>_. None), ch_context = (\<lambda>_. None), ch_status = 200, ch_stopped = True\<rparr>"

theorem DialContext_outcome_witness:
  "cn_open (DialContext (\<lambda>_ _. False) sample_proxy None 10 5 calm_handshake ''t:443'')
   \<and> basic_credentials (connect_request_of sample_proxy ''t:443'') = Some ''me:pw''"
  using DialContext_outcome [of "\<lambda>_ _. False" sample_proxy None 10 5 calm_handshake "''t:443''"]
  by (simp add: Let_def calm_handshake_def sample_proxy_def)

end
