(* ===== verification/Application.thy ===== *)
theory Application
  imports Network Enrich ApiRuns
begin

text \<open>
  The process: \<open>internal/config/config.go\<close> (\<open>Load\<close>) and \<open>cmd/app/main.go\<close> (\<open>run\<close>: start-up, serving and shutdown).
  The dependencies of \<open>run\<close> are its \<open>dependencies\<close> record: what each call returns, and which optional functions
  the returned resources have. \<open>run\<close> yields the calls it made, in order, and its error.
\<close>

subsection \<open>Configuration\<close>

record config =
  cf_DatabaseURL :: string
  cf_ClickHouseDSN :: string
  cf_EncryptionKey :: string
  cf_HTTPAddr :: string
  cf_EnrichConcurrency :: int
  cf_ReputationTTL :: duration
  cf_ProbeTargetDefault :: string
  cf_DBAutoMigrate :: bool
  cf_MaxVariantsPerRun :: int

definition valueOr :: "string \<Rightarrow> string \<Rightarrow> string" where
  "valueOr value fallback = (if value = [] then fallback else value)"

definition positiveInt :: "string \<Rightarrow> string \<Rightarrow> int result" where
  "positiveInt raw name =
     (case atoi raw of
        Some v \<Rightarrow> if v \<le> 0 then Inl (ErrOther (name @ '' must be a positive integer'')) else Inr v
      | None \<Rightarrow> Inl (ErrOther (name @ '' must be a positive integer'')))"

text \<open>\<open>time.ParseDuration\<close> and the error of \<open>strconv.ParseBool\<close> are arguments.\<close>

record text_parsers =
  pr_duration :: "string \<Rightarrow> duration option"
  pr_bool_error :: "string \<Rightarrow> go_error"

definition positiveDuration :: "text_parsers \<Rightarrow> string \<Rightarrow> string \<Rightarrow> duration result" where
  "positiveDuration pr raw name =
     (case pr_duration pr raw of
        Some v \<Rightarrow> if v \<le> 0 then Inl (ErrOther (name @ '' must be a positive duration'')) else Inr v
      | None \<Rightarrow> Inl (ErrOther (name @ '' must be a positive duration'')))"

definition ParseBool :: "text_parsers \<Rightarrow> string \<Rightarrow> bool result" where
  "ParseBool pr s =
     (if s \<in> set [''1'', ''t'', ''T'', ''TRUE'', ''true'', ''True''] then Inr True
      else if s \<in> set [''0'', ''f'', ''F'', ''FALSE'', ''false'', ''False''] then Inr False
      else Inl (pr_bool_error pr s))"

text \<open>An optional variable: absent or empty keeps the default.\<close>

definition optional_value :: "(string \<Rightarrow> 'a result) \<Rightarrow> string \<Rightarrow> 'a \<Rightarrow> 'a result" where
  "optional_value parse raw fallback = (if raw = [] then Inr fallback else parse raw)"

definition Load :: "text_parsers \<Rightarrow> (string \<Rightarrow> string) \<Rightarrow> config result" where
  "Load pr getenv =
     (if getenv ''DATABASE_URL'' = [] \<or> getenv ''CLICKHOUSE_DSN'' = []
      then Inl (ErrOther ''DATABASE_URL and CLICKHOUSE_DSN are required'')
      else (case b64_decode (getenv ''ENCRYPTION_KEY'') of
        None \<Rightarrow> Inl (ErrOther ''ENCRYPTION_KEY must be base64-encoded 32 bytes'')
      | Some key \<Rightarrow>
     if length key \<noteq> 32 then Inl (ErrOther ''ENCRYPTION_KEY must be base64-encoded 32 bytes'')
     else (case optional_value (\<lambda>raw. positiveInt raw ''ENRICH_CONCURRENCY'') (getenv ''ENRICH_CONCURRENCY'') 2 of
        Inl e \<Rightarrow> Inl e
      | Inr enrich \<Rightarrow>
     (case optional_value (\<lambda>raw. positiveDuration pr raw ''REPUTATION_TTL'') (getenv ''REPUTATION_TTL'') (24 * 3600 * second) of
        Inl e \<Rightarrow> Inl e
      | Inr ttl \<Rightarrow>
     (case optional_value (ParseBool pr) (getenv ''DB_AUTO_MIGRATE'') True of
        Inl e \<Rightarrow> Inl e
      | Inr migrate \<Rightarrow>
     (case optional_value (\<lambda>raw. positiveInt raw ''MAX_VARIANTS_PER_RUN'') (getenv ''MAX_VARIANTS_PER_RUN'') 128 of
        Inl e \<Rightarrow> Inl e
      | Inr variants \<Rightarrow>
          Inr \<lparr>cf_DatabaseURL = getenv ''DATABASE_URL'', cf_ClickHouseDSN = getenv ''CLICKHOUSE_DSN'', cf_EncryptionKey = key,
               cf_HTTPAddr = valueOr (getenv ''HTTP_ADDR'') '':8080'', cf_EnrichConcurrency = enrich, cf_ReputationTTL = ttl,
               cf_ProbeTargetDefault = valueOr (getenv ''PROBE_TARGET_DEFAULT'') ''https://speed.cloudflare.com/cdn-cgi/trace'',
               cf_DBAutoMigrate = migrate, cf_MaxVariantsPerRun = variants\<rparr>))))))"

lemma positive_values:
  "positiveInt raw name = Inr v \<Longrightarrow> 0 < v \<and> v < 2 ^ 63"
  "positiveDuration pr raw name = Inr w \<Longrightarrow> 0 < w"
  by (auto simp: positiveInt_def positiveDuration_def atoi_def Let_def split: option.splits if_splits)

lemma optional_value_holds:
  assumes "optional_value parse raw fallback = Inr v" "P fallback" "\<And>w. parse raw = Inr w \<Longrightarrow> P w"
  shows "P v"
  using assms by (auto simp: optional_value_def split: if_splits)

text \<open>What a loaded configuration guarantees to the components built from it.\<close>

definition config_ok :: "config \<Rightarrow> bool" where
  "config_ok c \<longleftrightarrow>
     cf_DatabaseURL c \<noteq> [] \<and> cf_ClickHouseDSN c \<noteq> [] \<and> length (cf_EncryptionKey c) = 32 \<and> cf_HTTPAddr c \<noteq> []
     \<and> 0 < cf_EnrichConcurrency c \<and> 0 < cf_ReputationTTL c \<and> cf_ProbeTargetDefault c \<noteq> [] \<and> 0 < cf_MaxVariantsPerRun c"

lemma Load_parts:
  assumes "Load pr getenv = Inr c"
  shows "getenv ''DATABASE_URL'' \<noteq> []" "getenv ''CLICKHOUSE_DSN'' \<noteq> []"
    "b64_decode (getenv ''ENCRYPTION_KEY'') = Some (cf_EncryptionKey c)" "length (cf_EncryptionKey c) = 32"
    "optional_value (\<lambda>raw. positiveInt raw ''ENRICH_CONCURRENCY'') (getenv ''ENRICH_CONCURRENCY'') 2 = Inr (cf_EnrichConcurrency c)"
    "optional_value (\<lambda>raw. positiveDuration pr raw ''REPUTATION_TTL'') (getenv ''REPUTATION_TTL'') (24 * 3600 * second) = Inr (cf_ReputationTTL c)"
    "optional_value (ParseBool pr) (getenv ''DB_AUTO_MIGRATE'') True = Inr (cf_DBAutoMigrate c)"
    "optional_value (\<lambda>raw. positiveInt raw ''MAX_VARIANTS_PER_RUN'') (getenv ''MAX_VARIANTS_PER_RUN'') 128 = Inr (cf_MaxVariantsPerRun c)"
    "cf_DatabaseURL c = getenv ''DATABASE_URL''" "cf_ClickHouseDSN c = getenv ''CLICKHOUSE_DSN''"
    "cf_HTTPAddr c = valueOr (getenv ''HTTP_ADDR'') '':8080''"
    "cf_ProbeTargetDefault c = valueOr (getenv ''PROBE_TARGET_DEFAULT'') ''https://speed.cloudflare.com/cdn-cgi/trace''"
  using assms by (auto simp: Load_def split: if_splits option.splits sum.splits)

lemma Load_ok:
  assumes "Load pr getenv = Inr c"
  shows "config_ok c"
proof -
  note parts = Load_parts [OF assms]
  have "0 < cf_EnrichConcurrency c" by (rule optional_value_holds [OF parts(5)]) (auto dest: positive_values)
  moreover have "0 < cf_ReputationTTL c"
    by (rule optional_value_holds [OF parts(6)]) (auto simp: second_def dest: positive_values)
  moreover have "0 < cf_MaxVariantsPerRun c" by (rule optional_value_holds [OF parts(8)]) (auto dest: positive_values)
  ultimately show ?thesis using parts by (simp add: config_ok_def valueOr_def)
qed


subsection \<open>Start-up\<close>

text \<open>
  The calls \<open>run\<close> makes on its dependencies. A fault plan says what error each returns; \<open>dp_provides\<close> says
  which optional parts of the returned resources are there (nil functions and nil interfaces are not): the
  telemetry shutdown, the Postgres ping and close, the writer's and the reader's close, the supervisor
  (\<open>WaitWorkers\<close>) and the HTTP handler (\<open>Serve\<close>).
\<close>

datatype action =
    InitTelemetry | ParseDSN string | MigratePostgres string | MigrateClickHouse string | OpenPostgres string
  | PingPostgres | BuildCore | OpenWriter | OpenReader | BuildApplication | ResumeSessions
  | Serve string | ShutdownHTTP
  | CancelWorkers | WaitWorkers | CloseWriter | CloseReader | ClosePostgres | ShutdownTelemetry

datatype part = TelemetryShutdown | PostgresPing | PostgresClose | WriterClose | ReaderClose | AppSupervisor | AppHandler

datatype serving = ServeReturned "go_error option" | Signalled "go_error option option"

record dependencies =
  dp_fault :: "action \<Rightarrow> go_error option"
  dp_provides :: "part \<Rightarrow> bool"
  dp_serving :: serving

text \<open>What \<open>run\<close> holds when it returns: the calls so far and the resources its deferred cleanup looks at.\<close>

record run_state =
  rs_trace :: "action list"
  rs_postgres :: bool
  rs_writer :: bool
  rs_reader :: bool
  rs_supervisor :: bool

definition startupFailure :: "string \<Rightarrow> go_error option \<Rightarrow> go_error option" where
  "startupFailure stage e = map_option (StageFailed stage) e"

definition wrapHTTPError :: "string \<Rightarrow> go_error option \<Rightarrow> go_error option" where
  "wrapHTTPError operation e = map_option (Wrapped operation) e"

text \<open>One call; the variable assigned from it holds what it returned, also when it returned an error.\<close>

definition perform :: "dependencies \<Rightarrow> action \<Rightarrow> run_state \<Rightarrow> run_state" where
  "perform d a st =
     (let st' = st\<lparr>rs_trace := rs_trace st @ [a]\<rparr> in
      case a of
        OpenPostgres _ \<Rightarrow> st'\<lparr>rs_postgres := dp_provides d PostgresClose\<rparr>
      | OpenWriter \<Rightarrow> st'\<lparr>rs_writer := dp_provides d WriterClose\<rparr>
      | OpenReader \<Rightarrow> st'\<lparr>rs_reader := dp_provides d ReaderClose\<rparr>
      | BuildApplication \<Rightarrow> st'\<lparr>rs_supervisor := dp_fault d a = None \<and> dp_provides d AppSupervisor\<rparr>
      | _ \<Rightarrow> st')"

definition call :: "dependencies \<Rightarrow> action \<Rightarrow> string \<Rightarrow> (run_state \<Rightarrow> run_state \<times> go_error option) \<Rightarrow> run_state \<Rightarrow> run_state \<times> go_error option" where
  "call d a stage k st =
     (case dp_fault d a of
        Some e \<Rightarrow> (perform d a st, startupFailure stage (Some e))
      | None \<Rightarrow> k (perform d a st))"

text \<open>The two ways serving ends; both shut the server down.\<close>

definition ErrServerClosed :: go_error where "ErrServerClosed = ErrOther ''http: Server closed''"

definition unless_closed :: "go_error option \<Rightarrow> go_error option" where
  "unless_closed e = (if err_is e ErrServerClosed then None else e)"

definition serve :: "config \<Rightarrow> dependencies \<Rightarrow> run_state \<Rightarrow> run_state \<times> go_error option" where
  "serve cfg d st =
     (let st1 = perform d ShutdownHTTP (perform d (Serve (cf_HTTPAddr cfg)) st); shutdownErr = dp_fault d ShutdownHTTP in
      (st1,
       case dp_serving d of
         ServeReturned e \<Rightarrow> errors_join [wrapHTTPError ''serve HTTP'' (unless_closed e), wrapHTTPError ''shutdown HTTP'' shutdownErr]
       | Signalled w \<Rightarrow> errors_join [wrapHTTPError ''shutdown HTTP'' shutdownErr,
           wrapHTTPError ''wait for HTTP server'' (case w of Some e \<Rightarrow> unless_closed e | None \<Rightarrow> Some CtxDeadlineExceeded)]))"

definition open_and_serve :: "config \<Rightarrow> dependencies \<Rightarrow> run_state \<Rightarrow> run_state \<times> go_error option" where
  "open_and_serve cfg d =
     call d (OpenPostgres (cf_DatabaseURL cfg)) ''open Postgres'' (\<lambda>st.
     if \<not> dp_provides d PostgresPing then (st, Some (ErrOther ''ping Postgres failed''))
     else call d PingPostgres ''ping Postgres''
       (call d BuildCore ''build application core''
       (call d OpenWriter ''open and ping ClickHouse writer''
       (call d OpenReader ''open and ping ClickHouse reader''
       (call d BuildApplication ''build HTTP application'' (\<lambda>st.
     if \<not> dp_provides d AppSupervisor \<or> \<not> dp_provides d AppHandler then (st, Some (ErrOther ''build HTTP application failed''))
     else call d ResumeSessions ''resume running sessions'' (serve cfg d) st))))) st)"

definition start :: "config \<Rightarrow> dependencies \<Rightarrow> run_state \<Rightarrow> run_state \<times> go_error option" where
  "start cfg d =
     call d (ParseDSN (cf_ClickHouseDSN cfg)) ''parse CLICKHOUSE_DSN''
       (if cf_DBAutoMigrate cfg
        then call d (MigratePostgres (cf_DatabaseURL cfg)) ''run Postgres migrations''
               (call d (MigrateClickHouse (cf_ClickHouseDSN cfg)) ''run ClickHouse migrations'' (open_and_serve cfg d))
        else open_and_serve cfg d)"


subsection \<open>Cleanup and \<open>run\<close>\<close>

text \<open>The deferred cleanup: workers first, then what they write to. Each close runs; its error is collected.\<close>

definition close_if :: "dependencies \<Rightarrow> bool \<Rightarrow> action \<Rightarrow> string \<Rightarrow> run_state \<times> go_error option list \<Rightarrow> run_state \<times> go_error option list" where
  "close_if d present a stage s =
     (if present then (perform d a (fst s), snd s @ [startupFailure stage (dp_fault d a)]) else s)"

definition cleanup :: "dependencies \<Rightarrow> run_state \<Rightarrow> run_state \<times> go_error option list" where
  "cleanup d st =
     (let st1 = perform d CancelWorkers st;
          st2 = (if rs_supervisor st then perform d WaitWorkers st1 else st1);
          s3 = close_if d (rs_writer st) CloseWriter ''close ClickHouse writer'' (st2, []);
          s4 = close_if d (rs_reader st) CloseReader ''close ClickHouse reader'' s3;
          s5 = (if rs_postgres st then (perform d ClosePostgres (fst s4), snd s4) else s4)
      in close_if d (dp_provides d TelemetryShutdown) ShutdownTelemetry ''shutdown telemetry'' s5)"

definition idle_state :: run_state where
  "idle_state = \<lparr>rs_trace = [], rs_postgres = False, rs_writer = False, rs_reader = False, rs_supervisor = False\<rparr>"

definition run :: "text_parsers \<Rightarrow> (string \<Rightarrow> string) \<Rightarrow> dependencies \<Rightarrow> action list \<times> go_error option" where
  "run pr getenv d =
     (case Load pr getenv of
        Inl e \<Rightarrow> ([], Some (Wrapped ''load config'' e))
      | Inr cfg \<Rightarrow>
     (case dp_fault d InitTelemetry of
        Some e \<Rightarrow> ([InitTelemetry], startupFailure ''initialize telemetry'' (Some e))
      | None \<Rightarrow>
          (let (st, returnErr) = start cfg d (perform d InitTelemetry idle_state);
               (st', cleanupErrors) = cleanup d st
           in (rs_trace st', errors_join [returnErr, errors_join cleanupErrors]))))"


subsection \<open>The order of the calls\<close>

fun stage :: "action \<Rightarrow> nat" where
  "stage InitTelemetry = 0" | "stage (ParseDSN _) = 1" | "stage (MigratePostgres _) = 2" | "stage (MigrateClickHouse _) = 3"
| "stage (OpenPostgres _) = 4" | "stage PingPostgres = 5" | "stage BuildCore = 6" | "stage OpenWriter = 7" | "stage OpenReader = 8"
| "stage BuildApplication = 9" | "stage ResumeSessions = 10" | "stage (Serve _) = 11" | "stage ShutdownHTTP = 12"
| "stage CancelWorkers = 13" | "stage WaitWorkers = 14" | "stage CloseWriter = 15" | "stage CloseReader = 16"
| "stage ClosePostgres = 17" | "stage ShutdownTelemetry = 18"

definition in_order :: "action list \<Rightarrow> bool" where
  "in_order as \<longleftrightarrow> sorted_wrt (\<lambda>a b. stage a < stage b) as"

text \<open>
  The state along the start-up: calls in order up to stage \<open>n\<close>, the resources exactly those the calls made so
  far have returned.
\<close>

definition reached :: "nat \<Rightarrow> action list \<Rightarrow> bool" where
  "reached n as \<longleftrightarrow> list_ex (\<lambda>a. stage a = n) as"

definition started :: "dependencies \<Rightarrow> nat \<Rightarrow> run_state \<Rightarrow> bool" where
  "started d n st \<longleftrightarrow>
     in_order (rs_trace st) \<and> list_all (\<lambda>a. stage a \<le> n) (rs_trace st)
     \<and> rs_postgres st = (dp_provides d PostgresClose \<and> reached 4 (rs_trace st))
     \<and> rs_writer st = (dp_provides d WriterClose \<and> reached 7 (rs_trace st))
     \<and> rs_reader st = (dp_provides d ReaderClose \<and> reached 8 (rs_trace st))
     \<and> rs_supervisor st = (dp_provides d AppSupervisor \<and> dp_fault d BuildApplication = None \<and> reached 9 (rs_trace st))"

lemma reached_snoc [simp]: "reached n (as @ [a]) \<longleftrightarrow> reached n as \<or> stage a = n"
  by (auto simp: reached_def)

lemma in_order_snoc: "in_order as \<Longrightarrow> list_all (\<lambda>b. stage b \<le> n) as \<Longrightarrow> n < stage a \<Longrightarrow> in_order (as @ [a])"
  by (auto simp: in_order_def sorted_wrt_append list_all_iff intro: le_less_trans)

lemma trace_perform [simp]: "rs_trace (perform d a st) = rs_trace st @ [a]"
  by (cases a) (simp_all add: perform_def Let_def)

lemma started_perform:
  assumes "started d n st" "n < stage a" "stage a \<le> 12"
  shows "started d (stage a) (perform d a st)"
proof -
  have "list_all (\<lambda>b. stage b \<le> stage a) (rs_trace st)"
    using assms by (auto simp: started_def list_all_iff intro: order_trans)
  moreover have "in_order (rs_trace st @ [a])" using assms by (auto simp: started_def intro: in_order_snoc)
  moreover have "rs_postgres (perform d a st) = (if stage a = 4 then dp_provides d PostgresClose else rs_postgres st)"
    "rs_writer (perform d a st) = (if stage a = 7 then dp_provides d WriterClose else rs_writer st)"
    "rs_reader (perform d a st) = (if stage a = 8 then dp_provides d ReaderClose else rs_reader st)"
    "rs_supervisor (perform d a st) = (if stage a = 9 then dp_fault d BuildApplication = None \<and> dp_provides d AppSupervisor else rs_supervisor st)"
    by (cases a; simp add: perform_def Let_def)+
  ultimately show ?thesis using assms by (auto simp: started_def)
qed

lemma started_mono: "started d n st \<Longrightarrow> n \<le> m \<Longrightarrow> started d m st"
  by (auto simp: started_def list_all_iff)

lemma started_call:
  assumes "started d n st" "n < stage a" "stage a \<le> 12" "\<And>st'. started d (stage a) st' \<Longrightarrow> started d 12 (fst (k st'))"
  shows "started d 12 (fst (call d a name k st))"
  using started_perform [OF assms(1-3)] assms(3,4)
  by (auto simp: call_def elim: started_mono split: option.splits)

lemma started_serve: "started d 10 st \<Longrightarrow> started d 12 (fst (serve cfg d st))"
  using started_perform [of d 10 st "Serve (cf_HTTPAddr cfg)"]
    started_perform [of d 11 "perform d (Serve (cf_HTTPAddr cfg)) st" ShutdownHTTP]
  by (simp add: serve_def Let_def)

lemma started_open_and_serve:
  assumes "started d n st" "n \<le> 3"
  shows "started d 12 (fst (open_and_serve cfg d st))"
  unfolding open_and_serve_def
proof (rule started_call [OF assms(1)])
  fix s assume s: "started d (stage (OpenPostgres (cf_DatabaseURL cfg))) s"
  show "started d 12 (fst (if \<not> dp_provides d PostgresPing then (s, Some (ErrOther ''ping Postgres failed''))
     else call d PingPostgres ''ping Postgres''
       (call d BuildCore ''build application core''
       (call d OpenWriter ''open and ping ClickHouse writer''
       (call d OpenReader ''open and ping ClickHouse reader''
       (call d BuildApplication ''build HTTP application'' (\<lambda>st.
     if \<not> dp_provides d AppSupervisor \<or> \<not> dp_provides d AppHandler then (st, Some (ErrOther ''build HTTP application failed''))
     else call d ResumeSessions ''resume running sessions'' (serve cfg d) st))))) s))"
    using s
    apply (simp add: started_mono )
    apply (intro impI)
    apply (rule started_call, assumption, simp, simp)
    apply (rule started_call, assumption, simp, simp)
    apply (rule started_call, assumption, simp, simp)
    apply (rule started_call, assumption, simp, simp)
    apply (rule started_call, assumption, simp, simp)
    apply (simp add: started_mono)
    apply (intro impI)
    apply (rule started_call, assumption, simp, simp)
    apply (rule started_serve, simp)
    done
qed (use assms in simp_all)

lemma started_start: "started d 0 st \<Longrightarrow> started d 12 (fst (start cfg d st))"
  unfolding start_def
  by (rule started_call, assumption, simp, simp) (auto intro!: started_call started_open_and_serve)

lemma call_clean [simp]: "snd (call d a name k st) = None \<longleftrightarrow> dp_fault d a = None \<and> snd (k (perform d a st)) = None"
  by (simp add: call_def startupFailure_def split: option.splits)

definition serving_clean :: "dependencies \<Rightarrow> bool" where
  "serving_clean d \<longleftrightarrow>
     dp_fault d ShutdownHTTP = None
     \<and> (case dp_serving d of ServeReturned e \<Rightarrow> unless_closed e = None | Signalled w \<Rightarrow> w \<noteq> None \<and> unless_closed (the w) = None)"

text \<open>The calls of a start-up that goes through, in order.\<close>

definition planned :: "config \<Rightarrow> action list" where
  "planned cfg =
     ParseDSN (cf_ClickHouseDSN cfg)
     # (if cf_DBAutoMigrate cfg then [MigratePostgres (cf_DatabaseURL cfg), MigrateClickHouse (cf_ClickHouseDSN cfg)] else [])
     @ [OpenPostgres (cf_DatabaseURL cfg), PingPostgres, BuildCore, OpenWriter, OpenReader, BuildApplication, ResumeSessions]"

definition start_clean :: "config \<Rightarrow> dependencies \<Rightarrow> bool" where
  "start_clean cfg d \<longleftrightarrow>
     (\<forall>a \<in> set (planned cfg). dp_fault d a = None)
     \<and> dp_provides d PostgresPing \<and> dp_provides d AppSupervisor \<and> dp_provides d AppHandler"

lemma serve_clean: "snd (serve cfg d st) = None \<longleftrightarrow> serving_clean d"
  by (cases "dp_serving d")
    (auto simp: serve_def Let_def serving_clean_def errors_join_None_iff wrapHTTPError_def split: option.splits)

lemma start_error: "snd (start cfg d st) = None \<longleftrightarrow> start_clean cfg d \<and> serving_clean d"
  by (auto simp: start_def open_and_serve_def start_clean_def planned_def serve_clean)

lemma call_ok: "dp_fault d a = None \<Longrightarrow> call d a name k st = k (perform d a st)"
  by (simp add: call_def)

lemma start_trace:
  assumes "start_clean cfg d"
  shows "rs_trace (fst (start cfg d st)) = rs_trace st @ planned cfg @ [Serve (cf_HTTPAddr cfg), ShutdownHTTP]"
proof -
  have "\<And>a. a \<in> set (planned cfg) \<Longrightarrow> dp_fault d a = None"
    and "dp_provides d PostgresPing" "dp_provides d AppSupervisor" "dp_provides d AppHandler"
    using assms by (simp_all add: start_clean_def)
  then show ?thesis
    by (simp add: planned_def start_def open_and_serve_def serve_def call_ok trace_perform Let_def)
qed

text \<open>What the cleanup releases.\<close>

definition releases :: "dependencies \<Rightarrow> run_state \<Rightarrow> action list" where
  "releases d st =
     CancelWorkers # (if rs_supervisor st then [WaitWorkers] else []) @ (if rs_writer st then [CloseWriter] else [])
     @ (if rs_reader st then [CloseReader] else []) @ (if rs_postgres st then [ClosePostgres] else [])
     @ (if dp_provides d TelemetryShutdown then [ShutdownTelemetry] else [])"

lemma cleanup_trace: "rs_trace (fst (cleanup d st)) = rs_trace st @ releases d st"
  by (simp add: cleanup_def close_if_def releases_def trace_perform Let_def)

lemma cleanup_errors:
  "errors_join (snd (cleanup d st)) = None \<longleftrightarrow>
     (\<forall>a \<in> set (releases d st) - {CancelWorkers, WaitWorkers, ClosePostgres}. dp_fault d a = None)"
  by (auto simp: cleanup_def close_if_def releases_def errors_join_None_iff startupFailure_def Let_def split: if_splits)

lemma releases_in_order:
  assumes "started d 12 st"
  shows "in_order (rs_trace st @ releases d st)"
proof -
  have "in_order (releases d st)" by (simp add: releases_def in_order_def)
  moreover have "\<forall>b \<in> set (releases d st). 12 < stage b" by (auto simp: releases_def)
  ultimately show ?thesis using assms by (fastforce simp: started_def in_order_def sorted_wrt_append list_all_iff)
qed

lemma stage_eq:
  "stage a = 4 \<longleftrightarrow> (\<exists>u. a = OpenPostgres u)" "stage a = 7 \<longleftrightarrow> a = OpenWriter" "stage a = 8 \<longleftrightarrow> a = OpenReader" "stage a = 9 \<longleftrightarrow> a = BuildApplication"
  by (cases a; simp)+

lemma reached_eq:
  "reached 4 as \<longleftrightarrow> (\<exists>u. OpenPostgres u \<in> set as)" "reached 7 as \<longleftrightarrow> OpenWriter \<in> set as"
  "reached 8 as \<longleftrightarrow> OpenReader \<in> set as" "reached 9 as \<longleftrightarrow> BuildApplication \<in> set as"
  by (auto simp: reached_def list_ex_iff stage_eq)

definition opens_matched :: "dependencies \<Rightarrow> action list \<Rightarrow> bool" where
  "opens_matched d trace \<longleftrightarrow>
     CancelWorkers \<in> set trace
     \<and> (WaitWorkers \<in> set trace) = (BuildApplication \<in> set trace \<and> dp_fault d BuildApplication = None \<and> dp_provides d AppSupervisor)
     \<and> (CloseWriter \<in> set trace) = (OpenWriter \<in> set trace \<and> dp_provides d WriterClose)
     \<and> (CloseReader \<in> set trace) = (OpenReader \<in> set trace \<and> dp_provides d ReaderClose)
     \<and> (ClosePostgres \<in> set trace) = ((\<exists>u. OpenPostgres u \<in> set trace) \<and> dp_provides d PostgresClose)
     \<and> (ShutdownTelemetry \<in> set trace) = dp_provides d TelemetryShutdown"

lemma opens_matched_releases:
  assumes "started d 12 st"
  shows "opens_matched d (rs_trace st @ releases d st)"
proof -
  have "CloseWriter \<notin> set (rs_trace st)" "CloseReader \<notin> set (rs_trace st)" "ClosePostgres \<notin> set (rs_trace st)"
    "WaitWorkers \<notin> set (rs_trace st)" "ShutdownTelemetry \<notin> set (rs_trace st)"
    using assms by (auto simp: started_def list_all_iff)
  then show ?thesis using assms by (auto simp: opens_matched_def releases_def started_def reached_eq)
qed

lemma started_idle: "started d 0 (perform d InitTelemetry idle_state)"
  by (simp add: started_def perform_def idle_state_def in_order_def reached_def)

lemma run_started:
  assumes "Load pr getenv = Inr cfg" "dp_fault d InitTelemetry = None"
  obtains st where "started d 12 st" "st = fst (start cfg d (perform d InitTelemetry idle_state))"
    "fst (run pr getenv d) = rs_trace st @ releases d st"
    "snd (run pr getenv d) = None \<longleftrightarrow> start_clean cfg d \<and> serving_clean d
       \<and> (\<forall>a \<in> set (releases d st) - {CancelWorkers, WaitWorkers, ClosePostgres}. dp_fault d a = None)"
proof
  let ?st = "fst (start cfg d (perform d InitTelemetry idle_state))"
  show "started d 12 ?st" by (rule started_start) (rule started_idle)
  show "fst (run pr getenv d) = rs_trace ?st @ releases d ?st"
    using assms by (simp add: run_def cleanup_trace Let_def split_beta)
  show "snd (run pr getenv d) = None \<longleftrightarrow> start_clean cfg d \<and> serving_clean d
     \<and> (\<forall>a \<in> set (releases d ?st) - {CancelWorkers, WaitWorkers, ClosePostgres}. dp_fault d a = None)"
    using assms start_error [of cfg d "perform d InitTelemetry idle_state"] cleanup_errors [of d ?st]
    by (simp add: run_def Let_def split_beta errors_join_None_iff [of "[_, _]"])
qed simp

lemma run_order: "in_order (fst (run pr getenv d))"
proof (cases "Load pr getenv")
  case (Inr cfg)
  show ?thesis
  proof (cases "dp_fault d InitTelemetry")
    case None
    from run_started [OF Inr None] obtain st where "started d 12 st" "fst (run pr getenv d) = rs_trace st @ releases d st" by metis
    then show ?thesis using releases_in_order by simp
  qed (simp add: run_def Inr in_order_def)
qed (simp add: run_def in_order_def)

lemma run_matched:
  assumes "Load pr getenv = Inr cfg" "dp_fault d InitTelemetry = None"
  shows "opens_matched d (fst (run pr getenv d))"
  using opens_matched_releases by (auto intro: run_started [OF assms])

text \<open>When nothing fails, the whole sequence runs.\<close>

definition full_run :: "config \<Rightarrow> dependencies \<Rightarrow> action list" where
  "full_run cfg d =
     InitTelemetry # planned cfg @ [Serve (cf_HTTPAddr cfg), ShutdownHTTP, CancelWorkers, WaitWorkers]
     @ (if dp_provides d WriterClose then [CloseWriter] else []) @ (if dp_provides d ReaderClose then [CloseReader] else [])
     @ (if dp_provides d PostgresClose then [ClosePostgres] else []) @ (if dp_provides d TelemetryShutdown then [ShutdownTelemetry] else [])"

lemma run_full:
  assumes "Load pr getenv = Inr cfg" "dp_fault d InitTelemetry = None" "start_clean cfg d"
  shows "fst (run pr getenv d) = full_run cfg d"
proof -
  obtain st where st: "started d 12 st" "st = fst (start cfg d (perform d InitTelemetry idle_state))"
    "fst (run pr getenv d) = rs_trace st @ releases d st"
    using run_started [OF assms(1,2)] by metis
  have tr: "rs_trace st = InitTelemetry # planned cfg @ [Serve (cf_HTTPAddr cfg), ShutdownHTTP]"
    using start_trace [OF assms(3)] by (simp add: st(2) idle_state_def)
  have "dp_fault d BuildApplication = None" "dp_provides d AppSupervisor"
    using assms(3) by (simp_all add: start_clean_def planned_def)
  then have "releases d st = CancelWorkers # WaitWorkers # (if dp_provides d WriterClose then [CloseWriter] else [])
      @ (if dp_provides d ReaderClose then [CloseReader] else [])
      @ (if dp_provides d PostgresClose then [ClosePostgres] else []) @ (if dp_provides d TelemetryShutdown then [ShutdownTelemetry] else [])"
    using st(1) by (simp add: releases_def started_def tr reached_eq planned_def)
  then show ?thesis using st(3) tr by (simp add: full_run_def)
qed

lemma run_error:
  assumes "Load pr getenv = Inr cfg" "dp_fault d InitTelemetry = None"
  shows "snd (run pr getenv d) = None \<longleftrightarrow>
     start_clean cfg d \<and> serving_clean d
     \<and> (\<forall>a \<in> {CloseWriter, CloseReader, ShutdownTelemetry} \<inter> set (full_run cfg d). dp_fault d a = None)"
proof (cases "start_clean cfg d")
  case True
  obtain st where st: "started d 12 st" "fst (run pr getenv d) = rs_trace st @ releases d st"
    and err: "snd (run pr getenv d) = None \<longleftrightarrow> start_clean cfg d \<and> serving_clean d
       \<and> (\<forall>a \<in> set (releases d st) - {CancelWorkers, WaitWorkers, ClosePostgres}. dp_fault d a = None)"
    using run_started [OF assms] by metis
  have full: "full_run cfg d = rs_trace st @ releases d st" using run_full [OF assms True] st(2) by simp
  have "CloseWriter \<notin> set (rs_trace st)" "CloseReader \<notin> set (rs_trace st)" "ShutdownTelemetry \<notin> set (rs_trace st)"
    using st(1) by (auto simp: started_def list_all_iff)
  moreover have "set (releases d st) \<subseteq> {CancelWorkers, WaitWorkers, CloseWriter, CloseReader, ClosePostgres, ShutdownTelemetry}"
    by (auto simp: releases_def)
  ultimately have "set (releases d st) - {CancelWorkers, WaitWorkers, ClosePostgres}
     = {CloseWriter, CloseReader, ShutdownTelemetry} \<inter> set (full_run cfg d)"
    unfolding full by auto
  then show ?thesis using err by simp
next
  case False
  then show ?thesis using assms start_error [of cfg d "perform d InitTelemetry idle_state"]
    by (auto simp: run_def Let_def split_beta errors_join_None_iff)
qed

lemma call_trace:
  "Serve x \<in> set (rs_trace (fst (call d a name k st))) \<longleftrightarrow>
     dp_fault d a = None \<and> Serve x \<in> set (rs_trace (fst (k (perform d a st))))
     \<or> dp_fault d a \<noteq> None \<and> (Serve x \<in> set (rs_trace st) \<or> a = Serve x)"
  by (auto simp: call_def split: option.splits)

lemma trace_if: "x \<in> set (rs_trace (fst (if b then p else q))) \<longleftrightarrow> b \<and> x \<in> set (rs_trace (fst p)) \<or> \<not> b \<and> x \<in> set (rs_trace (fst q))"
  by simp

lemma open_and_serve_trace:
  assumes "Serve x \<notin> set (rs_trace st)" "Serve x \<in> set (rs_trace (fst (open_and_serve cfg d st)))"
  shows "dp_fault d (OpenPostgres (cf_DatabaseURL cfg)) = None \<and> dp_provides d PostgresPing \<and> dp_fault d PingPostgres = None
    \<and> dp_fault d BuildCore = None \<and> dp_fault d OpenWriter = None \<and> dp_fault d OpenReader = None \<and> dp_fault d BuildApplication = None
    \<and> dp_provides d AppSupervisor \<and> dp_provides d AppHandler \<and> dp_fault d ResumeSessions = None"
  using assms unfolding open_and_serve_def
  by (simp add: call_trace trace_if)

lemma start_serves:
  assumes "Serve x \<notin> set (rs_trace st)" "Serve x \<in> set (rs_trace (fst (start cfg d st)))"
  shows "start_clean cfg d"
proof (cases "cf_DBAutoMigrate cfg")
  case True
  then show ?thesis using assms
    by (auto simp: start_def call_trace start_clean_def planned_def dest!: open_and_serve_trace [rotated])
next
  case False
  then show ?thesis using assms
    by (auto simp: start_def call_trace start_clean_def planned_def dest!: open_and_serve_trace [rotated])
qed

lemma run_not_serving:
  assumes "Load pr getenv = Inr cfg" "dp_fault d InitTelemetry = None" "\<not> start_clean cfg d"
  shows "Serve x \<notin> set (fst (run pr getenv d))"
proof -
  obtain st where st: "st = fst (start cfg d (perform d InitTelemetry idle_state))"
    and tr: "fst (run pr getenv d) = rs_trace st @ releases d st"
    using run_started [OF assms(1,2)] by metis
  have "Serve x \<notin> set (rs_trace st)"
    using assms(3) start_serves [of x "perform d InitTelemetry idle_state" cfg d] by (auto simp: st idle_state_def)
  then show ?thesis by (auto simp: tr releases_def)
qed

text \<open>C3: The process starts and stops in one order, and gives back what it took. Without a configuration it calls
  nothing; if the telemetry cannot be set up, nothing else. Otherwise the calls it makes follow the fixed
  order, each at most once, whatever fails: the workers are cancelled and waited for before the writer they
  feed is closed, the writer before the reader, that before Postgres, the telemetry last. The workers are
  waited for iff the application was built, and each client is closed iff it was opened and can be closed.
  \<open>run\<close> returns no error iff every start-up step went through, serving ended in a regular shutdown and no
  close failed; then it has made every call.\<close>

theorem run_outcome:
  "case Load pr getenv of
     Inl e \<Rightarrow> run pr getenv d = ([], Some (Wrapped ''load config'' e))
   | Inr cfg \<Rightarrow>
       if dp_fault d InitTelemetry \<noteq> None then fst (run pr getenv d) = [InitTelemetry] \<and> snd (run pr getenv d) \<noteq> None
       else in_order (fst (run pr getenv d)) \<and> opens_matched d (fst (run pr getenv d))
         \<and> (snd (run pr getenv d) = None) =
             (start_clean cfg d \<and> serving_clean d
              \<and> list_all (\<lambda>a. dp_fault d a = None)
                  (filter (\<lambda>a. a \<in> {CloseWriter, CloseReader, ShutdownTelemetry}) (full_run cfg d)))
         \<and> (if start_clean cfg d then fst (run pr getenv d) = full_run cfg d else Serve (cf_HTTPAddr cfg) \<notin> set (fst (run pr getenv d)))"
proof (cases "Load pr getenv")
  case (Inr cfg)
  show ?thesis
  proof (cases "dp_fault d InitTelemetry")
    case None
    have "Serve (cf_HTTPAddr cfg) \<notin> set (fst (run pr getenv d))" if "\<not> start_clean cfg d"
      by (rule run_not_serving [OF Inr None that])
    then show ?thesis
      using run_order [of pr getenv d] run_matched [OF Inr None] run_full [OF Inr None] run_error [OF Inr None]
      by (auto simp: Inr None list_all_iff)
  qed (simp add: run_def Inr startupFailure_def)
qed (simp add: run_def)


definition calm_dependencies :: dependencies where
  "calm_dependencies = \<lparr>dp_fault = (\<lambda>_. None), dp_provides = (\<lambda>_. True), dp_serving = ServeReturned (Some ErrServerClosed)\<rparr>"

definition sample_environment :: "string \<Rightarrow> string" where
  "sample_environment v =
     (if v = ''DATABASE_URL'' then ''pg'' else if v = ''CLICKHOUSE_DSN'' then ''ch''
      else if v = ''ENCRYPTION_KEY'' then b64_encode (replicate 32 (CHR ''k''))
      else if v = ''DB_AUTO_MIGRATE'' then ''f'' else [])"

definition sample_parsers :: text_parsers where
  "sample_parsers = \<lparr>pr_duration = (\<lambda>_. None), pr_bool_error = ErrOther\<rparr>"

definition sample_config :: config where
  "sample_config =
     \<lparr>cf_DatabaseURL = ''pg'', cf_ClickHouseDSN = ''ch'', cf_EncryptionKey = replicate 32 (CHR ''k''), cf_HTTPAddr = '':8080'',
      cf_EnrichConcurrency = 2, cf_ReputationTTL = 24 * 3600 * second,
      cf_ProbeTargetDefault = ''https://speed.cloudflare.com/cdn-cgi/trace'', cf_DBAutoMigrate = False, cf_MaxVariantsPerRun = 128\<rparr>"

lemma sample_load: "Load sample_parsers sample_environment = Inr sample_config"
  by (simp add: Load_def sample_environment_def b64_decode_encode sample_config_def optional_value_def ParseBool_def valueOr_def)

theorem run_outcome_witness:
  "run sample_parsers sample_environment calm_dependencies =
     ([InitTelemetry, ParseDSN ''ch'', OpenPostgres ''pg'', PingPostgres, BuildCore, OpenWriter, OpenReader, BuildApplication,
       ResumeSessions, Serve '':8080'', ShutdownHTTP, CancelWorkers, WaitWorkers, CloseWriter, CloseReader, ClosePostgres,
       ShutdownTelemetry], None)"
proof -
  have clean: "start_clean sample_config calm_dependencies" "serving_clean calm_dependencies"
    by (simp_all add: start_clean_def serving_clean_def calm_dependencies_def unless_closed_def ErrServerClosed_def)
  have full: "full_run sample_config calm_dependencies =
     [InitTelemetry, ParseDSN ''ch'', OpenPostgres ''pg'', PingPostgres, BuildCore, OpenWriter, OpenReader, BuildApplication,
       ResumeSessions, Serve '':8080'', ShutdownHTTP, CancelWorkers, WaitWorkers, CloseWriter, CloseReader, ClosePostgres,
       ShutdownTelemetry]"
    by (simp add: full_run_def planned_def sample_config_def calm_dependencies_def)
  have calm: "dp_fault calm_dependencies a = None" for a by (simp add: calm_dependencies_def)
  show ?thesis
    using run_outcome [of sample_parsers sample_environment calm_dependencies]
    by (simp add: sample_load clean calm full prod_eq_iff list_all_iff)
qed


subsection \<open>Wiring\<close>

text \<open>
  The production \<open>buildCore\<close> and \<open>buildApplication\<close>: which settings reach which component. A pool, a store or a
  client is present or not.
\<close>

record core =
  co_store :: "db option"
  co_cipher :: "aead option"
  co_lookup :: "service option"

definition buildCore :: "(string \<Rightarrow> aead result) \<Rightarrow> provider list \<Rightarrow> config \<Rightarrow> db option \<Rightarrow> core result" where
  "buildCore gcm defaultProviders cfg pool =
     (case pool of
        None \<Rightarrow> Inl (ErrOther ''Postgres pool is unavailable'')
      | Some store \<Rightarrow>
     (case NewCipher gcm (cf_EncryptionKey cfg) of
        Inl e \<Rightarrow> Inl e
      | Inr cipher \<Rightarrow>
     (case NewService (Some store) defaultProviders (cf_ReputationTTL cfg) (Some (nat (cf_EnrichConcurrency cfg))) of
        Inl e \<Rightarrow> Inl e
      | Inr lookup \<Rightarrow> Inr \<lparr>co_store = Some store, co_cipher = Some cipher, co_lookup = Some lookup\<rparr>)))"

text \<open>\<open>router\<close> is the error of \<open>api.NewRouter\<close> over the embedded assets.\<close>

definition buildApplication :: "config \<Rightarrow> core \<Rightarrow> bool \<Rightarrow> bool \<Rightarrow> go_error option \<Rightarrow> server result" where
  "buildApplication cfg c sink reader router =
     (if co_store c = None \<or> co_cipher c = None \<or> co_lookup c = None \<or> \<not> sink \<or> \<not> reader
      then Inl (ErrOther ''application dependencies are incomplete'')
      else let server = NewServer True True (co_cipher c) (cf_ProbeTargetDefault cfg) (10 * second) True (cf_MaxVariantsPerRun cfg) [True]
           in (case router of Some e \<Rightarrow> Inl e | None \<Rightarrow> Inr server))"

lemma buildCore_loaded:
  assumes "Load pr getenv = Inr cfg" "gcm (cf_EncryptionKey cfg) = Inr cipher"
  shows "buildCore gcm ps cfg (Some store) =
    Inr \<lparr>co_store = Some store, co_cipher = Some cipher,
         co_lookup = Some \<lparr>es_providers = ps, es_ttl = cf_ReputationTTL cfg, es_slots = nat (cf_EnrichConcurrency cfg)\<rparr>\<rparr>"
    and "0 < nat (cf_EnrichConcurrency cfg)"
  using Load_ok [OF assms(1)] assms(2) by (simp_all add: buildCore_def NewCipher_def NewService_def config_ok_def)



subsection \<open>Readiness\<close>

text \<open>
  \<open>Readyz\<close>: the two pings answer in either order, \<open>arrivals\<close> is the answers read before the timeout (true marks
  Postgres); an absent client is not ready. The result is the status code and the two flags.
\<close>

definition ping_answers :: "bool option \<Rightarrow> bool option \<Rightarrow> (bool \<times> bool) list" where
  "ping_answers postgres reader = [(True, postgres = Some True), (False, reader = Some True)]"

fun readiness :: "(bool \<times> bool) list \<Rightarrow> bool \<times> bool \<Rightarrow> bool \<times> bool" where
  "readiness [] r = r"
| "readiness ((isPostgres, ready) # vs) r = readiness vs (if isPostgres then (ready, snd r) else (fst r, ready))"

definition Readyz :: "(bool \<times> bool) list \<Rightarrow> nat \<times> bool \<times> bool" where
  "Readyz arrivals =
     (let r = readiness (take 2 arrivals) (False, False) in
      (if length arrivals < 2 then 503 else if fst r \<and> snd r then 200 else 503, r))"

lemma Readyz_ready:
  assumes "mset arrivals \<subseteq># mset (ping_answers postgres reader)"
  shows "fst (Readyz arrivals) = 200 \<longleftrightarrow> length arrivals = 2 \<and> postgres = Some True \<and> reader = Some True"
proof -
  have "length arrivals \<le> 2" using size_mset_mono [OF assms] by (simp add: ping_answers_def)
  then consider "length arrivals < 2" | a b where "arrivals = [a, b]"
    by (cases arrivals rule: remdups_adj.cases) auto
  then show ?thesis
  proof cases
    case 2
    then have "mset arrivals = mset (ping_answers postgres reader)"
      using assms mset_subset_size [of "mset arrivals" "mset (ping_answers postgres reader)"]
      by (cases "mset arrivals = mset (ping_answers postgres reader)") (simp_all add: ping_answers_def subset_mset.less_le)
    then show ?thesis by (auto simp: 2 ping_answers_def Readyz_def add_eq_conv_diff split: if_splits)
  qed (auto simp: Readyz_def Let_def)
qed

end
