(* ===== verification/Spa.thy ===== *)
theory Spa
  imports Prelude GoStrings
begin

text \<open>
  The static side of the HTTP boundary, \<open>internal/api/spa.go\<close>: which file of the embedded \<open>dist\<close> tree a request
  gets. The tree is a function from paths to what is there; \<open>mime.TypeByExtension\<close> and the upper-case mapping of
  non-ASCII text are arguments, and \<open>EscapedPath\<close> is the path as \<open>net/url\<close> yields it.
\<close>

subsection \<open>Paths\<close>

definition hex_digit_value :: "char \<Rightarrow> nat option" where
  "hex_digit_value c =
     (let b = byte c in
      if 48 \<le> b \<and> b \<le> 57 then Some (b - 48)
      else if 97 \<le> b \<and> b \<le> 102 then Some (b - 87)
      else if 65 \<le> b \<and> b \<le> 70 then Some (b - 55)
      else None)"

text \<open>\<open>url.PathUnescape\<close>.\<close>

fun PathUnescape :: "string \<Rightarrow> string option" where
  "PathUnescape [] = Some []"
| "PathUnescape (c # s) =
     (if c = CHR ''%''
      then (case s of
              a # b # t \<Rightarrow> (case (hex_digit_value a, hex_digit_value b) of
                  (Some x, Some y) \<Rightarrow> map_option ((#) (char_of (x * 16 + y))) (PathUnescape t)
                | _ \<Rightarrow> None)
            | _ \<Rightarrow> None)
      else map_option ((#) c) (PathUnescape s))"

text \<open>\<open>strings.Split\<close> at a separator byte: always at least one piece.\<close>

fun split_at :: "char \<Rightarrow> string \<Rightarrow> string list" where
  "split_at c [] = [[]]"
| "split_at c (d # s) =
     (if d = c then [] # split_at c s
      else (case split_at c s of [] \<Rightarrow> [[d]] | p # ps \<Rightarrow> (d # p) # ps))"

text \<open>\<open>fs.ValidPath\<close>.\<close>

definition ValidPath :: "string \<Rightarrow> bool" where
  "ValidPath name \<longleftrightarrow>
     valid_utf8 name \<and> (name = ''.'' \<or> list_all (\<lambda>e. e \<noteq> [] \<and> e \<noteq> ''.'' \<and> e \<noteq> ''..'') (split_at (CHR ''/'') name))"

definition safeSPAPath :: "string \<Rightarrow> string option" where
  "safeSPAPath escaped =
     (case PathUnescape escaped of
        None \<Rightarrow> None
      | Some decoded \<Rightarrow>
          if take 1 decoded \<noteq> ''/'' \<or> CHR 0x5C \<in> set decoded \<or> CHR 0x00 \<in> set decoded then None
          else if ''..'' \<in> set (split_at (CHR ''/'') decoded) then None
          else let requested = drop 1 decoded in
            if requested = [] then Some []
            else if \<not> ValidPath requested then None
            else Some requested)"

text \<open>\<open>path.Ext\<close> and \<open>path.Base\<close> of a valid path, and the pattern of a hashed asset name: a dash, eight or more word
  characters or dashes, a dot and an extension at the end.\<close>

definition base_of :: "string \<Rightarrow> string" where
  "base_of p = last (split_at (CHR ''/'') p)"

definition ext_of :: "string \<Rightarrow> string" where
  "ext_of p =
     (let b = base_of p in
      if CHR ''.'' \<in> set b then CHR ''.'' # last (split_at (CHR ''.'') b) else [])"

definition alnum :: "char \<Rightarrow> bool" where
  "alnum c \<longleftrightarrow> 48 \<le> byte c \<and> byte c \<le> 57 \<or> 65 \<le> byte c \<and> byte c \<le> 90 \<or> 97 \<le> byte c \<and> byte c \<le> 122"

definition hashedAssetName :: "string \<Rightarrow> bool" where
  "hashedAssetName base \<longleftrightarrow>
     (let ext = takeWhile alnum (rev base);
          rest = drop (length ext) (rev base);
          run = takeWhile (\<lambda>c. alnum c \<or> c = CHR ''_'' \<or> c = CHR ''-'') (tl rest)
      in ext \<noteq> [] \<and> take 1 rest = ''.'' \<and> CHR ''-'' \<in> set (drop 8 run))"


subsection \<open>Serving\<close>

datatype node = File string | Unreadable | Directory

datatype spa_response =
    MethodNotAllowed | SpaNotFound
  | Served string string string string

definition contentType :: "(string \<Rightarrow> string) \<Rightarrow> (string \<Rightarrow> string) \<Rightarrow> string \<Rightarrow> string" where
  "contentType uni mime name =
     (let ext = to_lower uni (ext_of name) in
      if ext = ''.html'' then ''text/html; charset=utf-8''
      else if ext = ''.css'' then ''text/css; charset=utf-8''
      else if ext = ''.js'' \<or> ext = ''.mjs'' then ''text/javascript; charset=utf-8''
      else if mime (ext_of name) \<noteq> [] then mime (ext_of name) else ''application/octet-stream'')"

definition indexCacheControl :: string where "indexCacheControl = ''no-cache''"
definition immutableCacheControl :: string where "immutableCacheControl = ''public, max-age=31536000, immutable''"

record spa_handler =
  sh_dist :: "string \<Rightarrow> node option"
  sh_indexHTML :: string

text \<open>\<open>newSPAHandler\<close> over the tree below \<open>dist\<close>; the error of reading the index is its argument.\<close>

definition newSPAHandler :: "go_error \<Rightarrow> (string \<Rightarrow> node option) option \<Rightarrow> spa_handler result" where
  "newSPAHandler readError assets =
     (case assets of
        None \<Rightarrow> Inl (ErrOther ''SPA assets are required'')
      | Some tree \<Rightarrow>
          (case tree ''index.html'' of
             Some (File html) \<Rightarrow> Inr \<lparr>sh_dist = tree, sh_indexHTML = html\<rparr>
           | _ \<Rightarrow> Inl (Wrapped ''read SPA index'' readError)))"

text \<open>\<open>Served name content cacheControl type\<close> is what \<open>http.ServeContent\<close> is given.\<close>

definition spa_serve :: "(string \<Rightarrow> string) \<Rightarrow> (string \<Rightarrow> string) \<Rightarrow> string \<Rightarrow> string \<Rightarrow> string \<Rightarrow> spa_response" where
  "spa_serve uni mime name content cacheControl = Served name content cacheControl (contentType uni mime name)"

definition ServeSPA :: "(string \<Rightarrow> string) \<Rightarrow> (string \<Rightarrow> string) \<Rightarrow> spa_handler \<Rightarrow> string \<Rightarrow> string \<Rightarrow> spa_response" where
  "ServeSPA uni mime h verb escaped =
     (if verb \<noteq> ''GET'' \<and> verb \<noteq> ''HEAD'' then MethodNotAllowed
      else (case safeSPAPath escaped of
        None \<Rightarrow> SpaNotFound
      | Some requested \<Rightarrow>
     if requested = [] then spa_serve uni mime ''index.html'' (sh_indexHTML h) indexCacheControl
     else (case sh_dist h requested of
        Some (File content) \<Rightarrow>
          spa_serve uni mime requested content
            (if take 7 requested = ''assets/'' \<and> hashedAssetName (base_of requested) then immutableCacheControl else indexCacheControl)
      | Some Unreadable \<Rightarrow> SpaNotFound
      | _ \<Rightarrow>
          if requested = ''assets'' \<or> take 7 requested = ''assets/'' \<or> ext_of requested \<noteq> [] then SpaNotFound
          else spa_serve uni mime ''index.html'' (sh_indexHTML h) indexCacheControl)))"


subsection \<open>What can be served\<close>

definition inside_dist :: "string \<Rightarrow> bool" where
  "inside_dist name \<longleftrightarrow>
     name \<noteq> [] \<and> hd name \<noteq> CHR ''/'' \<and> CHR 0x5C \<notin> set name \<and> CHR 0x00 \<notin> set name \<and> ''..'' \<notin> set (split_at (CHR ''/'') name)"

lemma split_at_Cons: "\<exists>p ps. split_at c s = p # ps"
  by (induction s) (auto split: list.splits)

lemma split_at_sep: "split_at c (c # s) = [] # split_at c s"
  by simp

lemma safeSPAPath_inside:
  assumes "safeSPAPath escaped = Some requested" "requested \<noteq> []"
  shows "inside_dist requested"
proof -
  obtain decoded where d: "PathUnescape escaped = Some decoded" "take 1 decoded = ''/''" "CHR 0x5C \<notin> set decoded"
      "CHR 0x00 \<notin> set decoded" "''..'' \<notin> set (split_at (CHR ''/'') decoded)" "requested = drop 1 decoded" "ValidPath requested"
    using assms by (auto simp: safeSPAPath_def Let_def split: option.splits if_splits)
  then obtain rest where rest: "decoded = CHR ''/'' # rest" "requested = rest" by (cases decoded) auto
  have "hd requested \<noteq> CHR ''/''"
  proof
    assume "hd requested = CHR ''/''"
    then have "[] \<in> set (split_at (CHR ''/'') requested)" "requested \<noteq> ''.''" using assms(2) by (cases requested; simp)+
    with d(7) show False by (auto simp: ValidPath_def list_all_iff)
  qed
  then show ?thesis using d assms(2) rest by (simp add: inside_dist_def)
qed

text \<open>C21: A request gets at most a file of the embedded tree. What is served is the index, or a file of the tree under
  the requested path, which is relative and has no parent segment, backslash or NUL byte, however the path
  was escaped; only hashed files below \<open>assets/\<close> are marked immutable, and only GET and HEAD are
  served. A missing asset, or a missing file with an extension, is not answered with the index.\<close>

theorem ServeSPA_inside:
  "case ServeSPA uni mime h verb escaped of
     MethodNotAllowed \<Rightarrow> verb \<notin> {''GET'', ''HEAD''}
   | SpaNotFound \<Rightarrow> verb \<in> {''GET'', ''HEAD''}
       \<and> (case safeSPAPath escaped of
            None \<Rightarrow> True
          | Some p \<Rightarrow> inside_dist p \<and> sh_dist h p \<notin> range (\<lambda>c. Some (File c)))
   | Served name content cache type \<Rightarrow>
       verb \<in> {''GET'', ''HEAD''} \<and> type = contentType uni mime name
       \<and> (case safeSPAPath escaped of
            None \<Rightarrow> False
          | Some p \<Rightarrow>
              if name = p then inside_dist name \<and> sh_dist h name = Some (File content)
                 \<and> cache = (if take 7 name = ''assets/'' \<and> hashedAssetName (base_of name) then immutableCacheControl else indexCacheControl)
              else name = ''index.html'' \<and> content = sh_indexHTML h \<and> cache = indexCacheControl
                 \<and> (p = [] \<or> inside_dist p \<and> ext_of p = [] \<and> take 7 p \<noteq> ''assets/'' \<and> p \<noteq> ''assets''))"
proof (cases "verb \<in> {''GET'', ''HEAD''}")
  case True
  show ?thesis
  proof (cases "safeSPAPath escaped")
    case (Some p)
    show ?thesis
    proof (cases "p = []")
      case False
      note inside = safeSPAPath_inside [OF Some False]
      have ix: "ext_of ''index.html'' \<noteq> []" by code_simp
      show ?thesis
      proof (cases "sh_dist h p")
        case None
        then show ?thesis using True Some False inside ix by (auto simp: ServeSPA_def spa_serve_def)
      next
        case (Some n)
        then show ?thesis using True \<open>safeSPAPath escaped = Some p\<close> False inside ix
          by (cases n) (auto simp: ServeSPA_def spa_serve_def)
      qed
    qed (use True Some in \<open>simp add: ServeSPA_def spa_serve_def\<close>)
  qed (use True in \<open>auto simp: ServeSPA_def\<close>)
qed (simp add: ServeSPA_def)

lemma safeSPAPath_examples:
  "safeSPAPath ''/assets/../config'' = None" "safeSPAPath ''/%2e%2e/etc'' = None" "safeSPAPath ''/a%5C..'' = None"
  "safeSPAPath ''/%2Fetc'' = None" "safeSPAPath ''/runs/7'' = Some ''runs/7''"
  by code_simp+

lemma hashedAssetName_examples:
  "hashedAssetName ''index-B2c_d-9Z.js''" "\<not> hashedAssetName ''index.js''" "\<not> hashedAssetName ''a-short.js''"
  by code_simp+

end
