(* ===== verification/Rows.thy ===== *)
theory Rows
  imports Writer Exports
begin

text \<open>
  The row of a sample event between \<open>appendArgs\<close> (\<open>internal/ch/writer.go\<close>) and \<open>scanEvent\<close>
  (\<open>internal/ch/reader.go\<close>): the columns of the insert statement, of the table and of the select list, and what the
  column types of the table do to a value. The column types are ClickHouse's: \<open>DateTime64(3)\<close> keeps
  milliseconds, \<open>IPv6\<close> is 16 bytes with IPv4 mapped into them, \<open>FixedString(n)\<close> pads with NUL bytes.
\<close>

subsection \<open>Columns\<close>

datatype column_type = TyUUID | TyDateTime64ms | TyUInt32 | TyUInt8 | TyIPv6 | TyString | TyFixed nat | TyArray column_type

datatype cell =
    VUuid uuid | VTime time | VU32 "32 word" | VU8 "8 word" | VIP addr | VString string | VArray "cell list"

definition schema :: "(string \<times> column_type) list" where
  "schema =
     [(''session_id'', TyUUID), (''sampled_at'', TyDateTime64ms), (''sample_seq'', TyUInt32), (''probes_attempted'', TyUInt8),
      (''probes_ok'', TyUInt8), (''primary_ip'', TyIPv6), (''distinct_ips'', TyUInt8), (''ip_changed'', TyUInt8),
      (''new_ips'', TyUInt8), (''rtt_min_ms'', TyUInt32), (''rtt_med_ms'', TyUInt32), (''rtt_max_ms'', TyUInt32),
      (''egress_country'', TyFixed 2), (''primary_category'', TyString), (''primary_risk'', TyUInt8),
      (''probe_ips'', TyArray TyIPv6), (''probe_rtts_ms'', TyArray TyUInt32), (''probe_ok'', TyArray TyUInt8), (''error'', TyString)]"

definition insertQuery :: "string list" where
  "insertQuery =
     [''session_id'', ''sampled_at'', ''sample_seq'', ''probes_attempted'', ''probes_ok'',
      ''primary_ip'', ''distinct_ips'', ''ip_changed'', ''new_ips'',
      ''rtt_min_ms'', ''rtt_med_ms'', ''rtt_max_ms'',
      ''egress_country'', ''primary_category'', ''primary_risk'',
      ''probe_ips'', ''probe_rtts_ms'', ''probe_ok'', ''error'']"

definition eventColumns :: "string list" where
  "eventColumns =
     [''session_id'', ''sampled_at'', ''sample_seq'', ''probes_attempted'', ''probes_ok'',
      ''primary_ip'', ''distinct_ips'', ''ip_changed'', ''new_ips'',
      ''rtt_min_ms'', ''rtt_med_ms'', ''rtt_max_ms'',
      ''egress_country'', ''primary_category'', ''primary_risk'',
      ''probe_ips'', ''probe_rtts_ms'', ''probe_ok'', ''error'']"

definition mapped_v4 :: "nat \<Rightarrow> 128 word" where
  "mapped_v4 n = word_of_nat (0xffff * 2 ^ 32 + n)"

definition ip16 :: "addr \<Rightarrow> 128 word" where
  "ip16 a = (case a of NoAddr \<Rightarrow> 0 | V4 w \<Rightarrow> mapped_v4 (unat w) | V6 w _ \<Rightarrow> w)"

fun coerce :: "column_type \<Rightarrow> cell \<Rightarrow> cell option" where
  "coerce TyUUID (VUuid u) = Some (VUuid u)"
| "coerce TyDateTime64ms (VTime t) = Some (VTime (t - t mod millisecond))"
| "coerce TyUInt32 (VU32 w) = Some (VU32 w)"
| "coerce TyUInt8 (VU8 w) = Some (VU8 w)"
| "coerce TyIPv6 (VIP a) = (if a = NoAddr then None else Some (VIP (V6 (ip16 a) [])))"
| "coerce TyString (VString s) = Some (VString s)"
| "coerce (TyFixed n) (VString s) = (if n < length s then None else Some (VString (s @ replicate (n - length s) (CHR 0x00))))"
| "coerce (TyArray ty) (VArray vs) = map_option VArray (those (map (coerce ty) vs))"
| "coerce _ _ = None"


subsection \<open>Writing and reading\<close>

definition normalizedIP :: "addr \<Rightarrow> addr" where
  "normalizedIP ip = (if ip = NoAddr then V6 0 [] else ip)"

definition appendArgs :: "event \<Rightarrow> cell list" where
  "appendArgs event =
     (let primaryIP = normalizedIP (e_PrimaryIP event);
          probeIPs = map (\<lambda>i. if e_ProbeOK event ! i = 0 then V6 0 [] else normalizedIP (e_ProbeIPs event ! i)) [0..<length (e_ProbeIPs event)]
      in [VUuid (e_SessionID event), VTime (e_SampledAt event), VU32 (e_SampleSeq event), VU8 (e_ProbesAttempted event), VU8 (e_ProbesOK event),
          VIP primaryIP, VU8 (e_DistinctIPs event), VU8 (e_IPChanged event), VU8 (e_NewIPs event),
          VU32 (e_RTTMinMS event), VU32 (e_RTTMedMS event), VU32 (e_RTTMaxMS event),
          VString (e_EgressCountry event), VString (e_PrimaryCategory event), VU8 (e_PrimaryRisk event),
          VArray (map VIP probeIPs), VArray (map VU32 (e_ProbeRTTsMS event)), VArray (map VU8 (e_ProbeOK event)), VString (e_Error event)])"

definition insert_row :: "cell list \<Rightarrow> (string \<times> cell) list option" where
  "insert_row args =
     those (map (\<lambda>(name, v). case map_of schema name of None \<Rightarrow> None | Some ty \<Rightarrow> map_option (Pair name) (coerce ty v)) (zip insertQuery args))"

definition select_row :: "(string \<times> cell) list \<Rightarrow> cell list option" where
  "select_row row = those (map (map_of row) eventColumns)"

text \<open>Reading an array needs every element to have the element type.\<close>

definition array_of :: "(cell \<Rightarrow> 'a option) \<Rightarrow> cell list \<Rightarrow> 'a list option" where
  "array_of f vs = those (map f vs)"

definition as_ip :: "cell \<Rightarrow> addr option" where "as_ip v = (case v of VIP a \<Rightarrow> Some a | _ \<Rightarrow> None)"
definition as_u32 :: "cell \<Rightarrow> 32 word option" where "as_u32 v = (case v of VU32 w \<Rightarrow> Some w | _ \<Rightarrow> None)"
definition as_u8 :: "cell \<Rightarrow> 8 word option" where "as_u8 v = (case v of VU8 w \<Rightarrow> Some w | _ \<Rightarrow> None)"

definition scanEvent :: "cell list \<Rightarrow> event option" where
  "scanEvent cells =
     (case cells of
        [VUuid sid, VTime t, VU32 sq, VU8 attempted, VU8 okay, VIP primary, VU8 distinctIPs, VU8 changed, VU8 newIPs,
         VU32 rttMin, VU32 rttMed, VU32 rttMax, VString country, VString category, VU8 risk,
         VArray ips, VArray rtts, VArray oks, VString err] \<Rightarrow>
          (case (array_of as_ip ips, array_of as_u32 rtts, array_of as_u8 oks) of
             (Some ips', Some rtts', Some oks') \<Rightarrow>
               Some \<lparr>e_SessionID = sid, e_SampledAt = t, e_SampleSeq = sq, e_ProbesAttempted = attempted, e_ProbesOK = okay,
                     e_PrimaryIP = primary, e_DistinctIPs = distinctIPs, e_IPChanged = changed, e_NewIPs = newIPs,
                     e_RTTMinMS = rttMin, e_RTTMedMS = rttMed, e_RTTMaxMS = rttMax, e_EgressCountry = country,
                     e_PrimaryCategory = category, e_PrimaryRisk = risk, e_ProbeIPs = ips', e_ProbeRTTsMS = rtts',
                     e_ProbeOK = oks', e_Error = err\<rparr>
           | _ \<Rightarrow> None)
      | _ \<Rightarrow> None)"

text \<open>What a select yields of an event that was inserted.\<close>

definition read_back :: "event \<Rightarrow> event option" where
  "read_back event =
     (case insert_row (appendArgs event) of
        None \<Rightarrow> None
      | Some row \<Rightarrow> (case select_row row of None \<Rightarrow> None | Some cells \<Rightarrow> scanEvent cells))"


subsection \<open>The row is read back\<close>

lemma those_map_Some: "(\<And>x. x \<in> set xs \<Longrightarrow> f x = Some (g x)) \<Longrightarrow> those (map f xs) = Some (map g xs)"
  by (induction xs) auto

lemma unat_mapped: "n < 2 ^ 32 \<Longrightarrow> unat (mapped_v4 n) = 0xffff * 2 ^ 32 + n"
proof -
  assume "n < 2 ^ 32"
  then have "0xffff * 2 ^ 32 + n < (2 :: nat) ^ 128" by simp
  then show ?thesis unfolding mapped_v4_def unsigned_of_nat by (simp add: take_bit_nat_eq_self)
qed

lemma is_4in6_mapped: "n < 2 ^ 32 \<Longrightarrow> is_4in6 (V6 (mapped_v4 n) z)"
proof -
  assume n: "n < 2 ^ 32"
  have "unat (drop_bit 32 (mapped_v4 n)) = drop_bit 32 (unat (mapped_v4 n))" by (rule unat_drop_bit_eq)
  also have "\<dots> = 0xffff" using n by (simp add: unat_mapped drop_bit_eq_div)
  finally show ?thesis by (simp add: is_4in6_def word_unat_eq_iff)
qed

lemma ucast_mapped: "n < 2 ^ 32 \<Longrightarrow> (ucast (mapped_v4 n) :: 32 word) = word_of_nat n"
proof -
  assume n: "n < 2 ^ 32"
  have "unat (ucast (mapped_v4 n) :: 32 word) = take_bit 32 (unat (mapped_v4 n))" by (simp add: unsigned_ucast_eq)
  also have "\<dots> = n" using n unfolding unat_mapped [OF n] take_bit_eq_mod by (simp only: mod_mult_self3 mod_less)
  finally show ?thesis using n by (simp add: word_unat_eq_iff unsigned_of_nat take_bit_nat_eq_self)
qed

lemma unat_32: "unat (w :: 32 word) < 2 ^ 32"
  using unsigned_less [of w] by simp

lemma unmap_ip16 [simp]: "unmap (V6 (ip16 (V4 w)) []) = V4 w"
  using is_4in6_mapped [OF unat_32 [of w]] ucast_mapped [OF unat_32 [of w]] by (simp add: unmap_def ip16_def)

definition zoneless :: "addr \<Rightarrow> bool" where
  "zoneless a = (case a of V6 _ z \<Rightarrow> z = [] | _ \<Rightarrow> True)"

lemma stored_ip:
  assumes "zoneless a"
  shows "validIP (V6 (ip16 (normalizedIP a)) []) = validIP a"
    and "validIP a \<Longrightarrow> ip_string (V6 (ip16 (normalizedIP a)) []) = ip_string a"
proof -
  have unmap_zero: "unmap (V6 0 []) = V6 0 []" by (simp add: unmap_def is_4in6_def)
  have ip16_V6: "ip16 (V6 w z) = w" for w z by (simp add: ip16_def)
  show "validIP (V6 (ip16 (normalizedIP a)) []) = validIP a"
    using assms by (cases a) (simp_all add: zoneless_def normalizedIP_def validIP_def ip16_V6 unmap_zero)
  show "ip_string (V6 (ip16 (normalizedIP a)) []) = ip_string a" if "validIP a"
    using assms that by (cases a) (simp_all add: zoneless_def normalizedIP_def validIP_def ip_string_def ip16_V6)
qed

lemma array_of_map:
  shows "array_of as_u32 (map VU32 xs) = Some xs" and "array_of as_u8 (map VU8 ys) = Some ys"
    and "array_of as_ip (map VIP as) = Some as"
proof -
  show "array_of as_u32 (map VU32 xs) = Some xs" by (induction xs) (simp_all add: array_of_def as_u32_def)
  show "array_of as_u8 (map VU8 ys) = Some ys" by (induction ys) (simp_all add: array_of_def as_u8_def)
  show "array_of as_ip (map VIP as) = Some as" by (induction as) (simp_all add: array_of_def as_ip_def)
qed

lemma coerce_arrays:
  shows "those (map (coerce TyUInt32) (map VU32 xs)) = Some (map VU32 xs)"
    and "those (map (coerce TyUInt8) (map VU8 ys)) = Some (map VU8 ys)"
    and "\<forall>a \<in> set as. a \<noteq> NoAddr \<Longrightarrow> those (map (coerce TyIPv6) (map VIP as)) = Some (map (\<lambda>a. VIP (V6 (ip16 a) [])) as)"
proof -
  show "those (map (coerce TyUInt32) (map VU32 xs)) = Some (map VU32 xs)" by (induction xs) simp_all
  show "those (map (coerce TyUInt8) (map VU8 ys)) = Some (map VU8 ys)" by (induction ys) simp_all
  show "those (map (coerce TyIPv6) (map VIP as)) = Some (map (\<lambda>a. VIP (V6 (ip16 a) [])) as)" if "\<forall>a \<in> set as. a \<noteq> NoAddr"
    using that by (induction as) simp_all
qed

definition stored_country :: "string \<Rightarrow> string" where
  "stored_country s = s @ replicate (2 - length s) (CHR 0x00)"

definition stored_probe :: "event \<Rightarrow> nat \<Rightarrow> addr" where
  "stored_probe e i = V6 (ip16 (if e_ProbeOK e ! i = 0 then V6 0 [] else normalizedIP (e_ProbeIPs e ! i))) []"

text \<open>The event as it comes back.\<close>

definition stored_event :: "event \<Rightarrow> event" where
  "stored_event e =
     e\<lparr>e_SampledAt := e_SampledAt e - e_SampledAt e mod millisecond,
       e_PrimaryIP := V6 (ip16 (normalizedIP (e_PrimaryIP e))) [],
       e_EgressCountry := stored_country (e_EgressCountry e),
       e_ProbeIPs := map (stored_probe e) [0..<length (e_ProbeIPs e)]\<rparr>"

lemma normalizedIP_some: "normalizedIP a \<noteq> NoAddr"
  by (cases a) (simp_all add: normalizedIP_def)

lemma read_back_event:
  assumes "length (e_EgressCountry e) \<le> 2"
  shows "read_back e = Some (stored_event e)"
proof -
  define ips where "ips = map (\<lambda>i. if e_ProbeOK e ! i = 0 then V6 0 [] else normalizedIP (e_ProbeIPs e ! i)) [0..<length (e_ProbeIPs e)]"
  have some: "\<forall>a \<in> set ips. a \<noteq> NoAddr" by (auto simp: ips_def normalizedIP_some normalizedIP_some [symmetric])
  have ips_back: "map (stored_probe e) [0..<length (e_ProbeIPs e)] = map (\<lambda>a. V6 (ip16 a) []) ips"
    by (simp add: ips_def stored_probe_def)
  have args: "appendArgs e =
      [VUuid (e_SessionID e), VTime (e_SampledAt e), VU32 (e_SampleSeq e), VU8 (e_ProbesAttempted e), VU8 (e_ProbesOK e),
       VIP (normalizedIP (e_PrimaryIP e)), VU8 (e_DistinctIPs e), VU8 (e_IPChanged e), VU8 (e_NewIPs e),
       VU32 (e_RTTMinMS e), VU32 (e_RTTMedMS e), VU32 (e_RTTMaxMS e),
       VString (e_EgressCountry e), VString (e_PrimaryCategory e), VU8 (e_PrimaryRisk e),
       VArray (map VIP ips), VArray (map VU32 (e_ProbeRTTsMS e)), VArray (map VU8 (e_ProbeOK e)), VString (e_Error e)]"
    by (simp add: appendArgs_def Let_def ips_def)
  have arr: "map (\<lambda>a. VIP (V6 (ip16 a) [])) ips = map VIP (map (\<lambda>a. V6 (ip16 a) []) ips)" by simp
  have "insert_row (appendArgs e) = Some (zip insertQuery
      [VUuid (e_SessionID e), VTime (e_SampledAt e - e_SampledAt e mod millisecond), VU32 (e_SampleSeq e), VU8 (e_ProbesAttempted e), VU8 (e_ProbesOK e),
       VIP (V6 (ip16 (normalizedIP (e_PrimaryIP e))) []), VU8 (e_DistinctIPs e), VU8 (e_IPChanged e), VU8 (e_NewIPs e),
       VU32 (e_RTTMinMS e), VU32 (e_RTTMedMS e), VU32 (e_RTTMaxMS e),
       VString (stored_country (e_EgressCountry e)), VString (e_PrimaryCategory e), VU8 (e_PrimaryRisk e),
       VArray (map VIP (map (\<lambda>a. V6 (ip16 a) []) ips)), VArray (map VU32 (e_ProbeRTTsMS e)), VArray (map VU8 (e_ProbeOK e)), VString (e_Error e)])"
    using assms normalizedIP_some coerce_arrays(3) [OF some] coerce_arrays(1,2) unfolding args
    by (simp add: insert_row_def insertQuery_def schema_def stored_country_def arr del: map_map)
  then show ?thesis
    by (simp add: read_back_def select_row_def eventColumns_def insertQuery_def scanEvent_def array_of_map stored_event_def ips_back del: map_map)
qed

text \<open>An event that was stored comes back as what the API shows of it. The insert statement, the arguments of
  \<open>appendArgs\<close>, the table and the select list agree column by column, so every event with at most two
  country letters is read back; the API then shows the same sample: numbers, error text, flags and round-trip
  times unchanged, the same text for every address (IPv4 included, none where a probe failed or an address was
  missing), the time cut to milliseconds. A country of two letters is shown unchanged; a missing one is not:
  the fixed-width column returns two NUL bytes, which the API takes for a country.\<close>

lemma stored_sample:
  assumes "length (e_EgressCountry e) \<le> 2" "zoneless (e_PrimaryIP e)" "\<forall>a \<in> set (e_ProbeIPs e). zoneless a"
    "validEvent e"
  shows "map_option mapSampleEvent (read_back e) =
    Some ((mapSampleEvent e)\<lparr>sa_SampledAt := e_SampledAt e - e_SampledAt e mod millisecond,
      sa_EgressCountry := Some (e_EgressCountry e @ replicate (2 - length (e_EgressCountry e)) (CHR 0x00))\<rparr>)"
proof -
  let ?s = "stored_event e"
  have country: "optionalString (stored_country (e_EgressCountry e))
      = Some (e_EgressCountry e @ replicate (2 - length (e_EgressCountry e)) (CHR 0x00))"
    by (cases "e_EgressCountry e") (simp_all add: optionalString_def stored_country_def)
  have primary: "sa_PrimaryIp (mapSampleEvent ?s) = sa_PrimaryIp (mapSampleEvent e)"
    using stored_ip [OF assms(2)] by (simp add: mapSampleEvent_def stored_event_def)
  have probe: "probe_view ?s i = probe_view e i" if i: "i < length (e_ProbeIPs e)" for i
  proof (cases "i < length (e_ProbeOK e) \<and> e_ProbeOK e ! i \<noteq> 0")
    case True
    have "zoneless (e_ProbeIPs e ! i)" using assms(3) i by simp
    from stored_ip [OF this] show ?thesis using True i
      by (simp add: probe_view_def stored_event_def stored_probe_def)
  qed (auto simp: probe_view_def stored_event_def)
  have "map (probe_view ?s) [0..<length (e_ProbeIPs e)] = map (probe_view e) [0..<length (e_ProbeIPs e)]"
    using probe by simp
  then have probes: "sa_ProbeIps (mapSampleEvent ?s) = sa_ProbeIps (mapSampleEvent e)"
    by (simp add: mapSampleEvent_def stored_event_def)
  have "mapSampleEvent ?s = (mapSampleEvent e)\<lparr>sa_SampledAt := e_SampledAt e - e_SampledAt e mod millisecond,
      sa_EgressCountry := Some (e_EgressCountry e @ replicate (2 - length (e_EgressCountry e)) (CHR 0x00))\<rparr>"
    using primary probes country by (simp add: mapSampleEvent_def stored_event_def)
  then show ?thesis using read_back_event [OF assms(1)] by simp
qed

text \<open>A tick without a successful probe has no country, and is shown with two NUL bytes instead of none.\<close>

lemma failed_tick_country:
  assumes "e_EgressCountry e = []"
  shows "sa_EgressCountry (mapSampleEvent e) = None"
    and "map_option (\<lambda>x. sa_EgressCountry (mapSampleEvent x)) (read_back e) = Some (Some [CHR 0x00, CHR 0x00])"
  using read_back_event [of e] assms
  by (simp_all add: mapSampleEvent_def optionalString_def stored_event_def stored_country_def numeral_2_eq_2)


subsection \<open>The connections\<close>

text \<open>
  Opening a connection pings it and closes it again if the ping fails: \<open>open_pinged\<close> yields the connection and
  whether it was closed. The reader closes its connection once and remembers the error.
\<close>

definition open_pinged :: "string \<Rightarrow> 'c result \<Rightarrow> ('c \<Rightarrow> go_error option) \<Rightarrow> 'c result \<times> bool" where
  "open_pinged who conn ping =
     (case conn of
        Inl e \<Rightarrow> (Inl (Wrapped (''open clickhouse '' @ who) e), False)
      | Inr c \<Rightarrow> (case ping c of Some e \<Rightarrow> (Inl (Wrapped (''ping clickhouse '' @ who) e), True) | None \<Rightarrow> (Inr c, False)))"

record 'c reader_conn =
  rd_conn :: "'c option"
  rd_closed :: bool
  rd_closeErr :: "go_error option"
  rd_closes :: nat

definition NewReader :: "'c result \<Rightarrow> ('c \<Rightarrow> go_error option) \<Rightarrow> 'c reader_conn result" where
  "NewReader conn ping =
     (case fst (open_pinged ''reader'' conn ping) of
        Inl e \<Rightarrow> Inl e
      | Inr c \<Rightarrow> Inr \<lparr>rd_conn = Some c, rd_closed = False, rd_closeErr = None, rd_closes = 0\<rparr>)"

definition reader_Ping :: "('c \<Rightarrow> go_error option) \<Rightarrow> 'c reader_conn \<Rightarrow> go_error option" where
  "reader_Ping ping r = (case rd_conn r of None \<Rightarrow> Some (ErrOther ''clickhouse reader has no connection'') | Some c \<Rightarrow> ping c)"

text \<open>\<open>rd_closes\<close> counts the calls of the connection's own \<open>Close\<close>.\<close>

definition reader_Close :: "('c \<Rightarrow> go_error option) \<Rightarrow> 'c reader_conn \<Rightarrow> 'c reader_conn \<times> go_error option" where
  "reader_Close close r =
     (let r1 = (if rd_closed r then r
                else (case rd_conn r of
                        None \<Rightarrow> r\<lparr>rd_closed := True\<rparr>
                      | Some c \<Rightarrow> r\<lparr>rd_closed := True, rd_closeErr := close c, rd_closes := rd_closes r + 1\<rparr>))
      in (r1, rd_closeErr r1))"

lemma reader_Close_once:
  assumes "NewReader conn ping = Inr r" "reader_Close close r = (r1, e1)" "reader_Close close' r1 = (r2, e2)"
  shows "rd_closes r2 = 1" "e2 = e1" "r2 = r1"
  using assms by (auto simp: NewReader_def reader_Close_def Let_def split: sum.splits)

end
