(* ===== verification/Spec2Isabelle.thy ===== *)
theory Spec2Isabelle
  imports Expand PoolReport Aggregate Writer PgStore Worker Sampling Reader OpLocks Supervisor Enrich KeyLocks Reports Application Spa Rows
begin

text \<open>
  A verification library of proxy-sampler, the Go service under \<open>cmd/\<close> and \<open>internal/\<close>. The service
  probes proxies at a cadence, stores what it sees and reports on it; a variation run expands one proxy-URL
  template over parameter axes into many such sessions.

  \<^bold>\<open>The parts of the program and their theories\<close> (files under \<open>internal/\<close> unless said otherwise)

  \<^item> Vocabulary. \<open>Prelude\<close>: integers, times, errors, Go maps. \<open>GoStrings\<close>: byte strings, UTF-8, \<open>strings\<close>,
    \<open>strconv\<close>, JSON text. \<open>GoNet\<close>: \<open>net/netip\<close>. \<open>Model\<close>: the records of \<open>session/session.go\<close> and \<open>variation/run.go\<close>.
  \<^item> Variation runs. \<open>Template\<close> (\<open>variation/template.go\<close>), \<open>Expand\<close> (\<open>axis.go\<close>, \<open>expand.go\<close>: the product of the axes
    with the cap, range bounds as 64-bit words), \<open>PoolReport\<close> (\<open>report.go\<close>, \<open>chao1.go\<close>, \<open>name.go\<close>).
  \<^item> Sampling. \<open>Network\<close> (\<open>sampler/probe.go\<close>, \<open>proxydial/connect.go\<close>), \<open>Aggregate\<close> (\<open>sampler/aggregate.go\<close>),
    \<open>Worker\<close> (\<open>worker.go\<close>: one session's loop), \<open>OpLocks\<close> and \<open>Supervisor\<close> (\<open>supervisor.go\<close>: the locks of the lifecycle
    operations, and the operations), \<open>Lifecycle\<close> (what a client of the supervisor may rely on).
  \<^item> Durable state. \<open>Queries\<close> (the tables of \<open>migrations/\<close> and the statements of \<open>db/*.sql.go\<close>), \<open>PgStore\<close>
    (\<open>db/store.go\<close>, \<open>runs.go\<close>), \<open>Secrets\<close> (\<open>crypto/crypto.go\<close>, \<open>proxydial/dialer.go\<close>).
  \<^item> Events. \<open>Events\<close> and \<open>Writer\<close> (\<open>ch/event.go\<close>, \<open>writer.go\<close>: the bounded asynchronous writer), \<open>Reader\<close>
    (\<open>ch/reader.go\<close>), \<open>Rows\<close> (the columns between the two).
  \<^item> Reputation. \<open>Reputations\<close> (\<open>enrich/types.go\<close>, \<open>classify.go\<close>), \<open>Providers\<close> (the five providers), \<open>Enrich\<close> and
    \<open>KeyLocks\<close> (\<open>service.go\<close>: the cached lookup, and its per-address keys and semaphore).
  \<^item> HTTP boundary (\<open>api/\<close>). \<open>ApiSessions\<close> (\<open>server.go\<close>, \<open>edit.go\<close>, \<open>errors.go\<close>), \<open>ApiRuns\<close> (\<open>runs.go\<close>), \<open>Csv\<close> and \<open>Exports\<close>
    (\<open>csv.go\<close> and the run export), \<open>Reports\<close> (\<open>report.go\<close>, \<open>run_report.go\<close>), \<open>Spa\<close> (\<open>spa.go\<close>).
  \<^item> The process. \<open>Application\<close> (\<open>config/config.go\<close>, \<open>cmd/app/main.go\<close>, \<open>api/health.go\<close>).

  \<^bold>\<open>How they interact\<close>

  The API handlers call the store and the supervisor. The supervisor owns at most one worker for each running row,
  starts, stops, re-enables and deletes it under the locks of \<open>OpLocks\<close>, and resumes what was running at
  start-up. A worker probes, aggregates, asks the enrichment service about new addresses, saves the tick in
  the store and offers an event to the writer, which batches events into ClickHouse. The reader and the store
  supply the reports and the exports. \<open>run\<close> of \<open>cmd/app/main.go\<close> builds all of this and takes it down in the
  opposite order.

  Where one part relies on another there is a locale with an interpretation on the model:
  \<open>session_store\<close> (in \<open>Contracts\<close>, provided by \<open>PgStore\<close>), \<open>event_sink\<close> (\<open>Events\<close>, provided by \<open>Writer\<close>),
  \<open>sampling\<close> (their sum, the client \<open>Worker\<close>; composed in \<open>Sampling\<close>), \<open>bounded_steps\<close> (\<open>Schedules\<close>: the
  three concurrent parts end under every schedule), \<open>child_operation\<close> (\<open>ApiRuns\<close>: stopping and re-enabling a
  run) and \<open>row_stream\<close> (\<open>Exports\<close>: the two sources of rows).

  \<^bold>\<open>How state and code are written\<close>

  \<^item> A struct is a record, an enumeration a datatype, an error a value of \<open>go_error\<close>, a fallible call returns a
    sum. Each operation is one definition that takes the state and returns it updated, with the branches of the
    source in their order. The database is the record of its tables; ClickHouse is the list of stored events.
  \<^item> What the outside does is an argument: a \<open>fault_plan\<close> or an environment record says which statement, dial,
    read or close fails and with what error, what the clock shows, which ids and random bytes are drawn, and
    what others do to the database meanwhile. Every theorem holds for all of them.
  \<^item> Concurrency is a step relation over any number of goroutines where it carries the property: the writer and its
    producers, the operation locks, the probe pool of a worker, the keys of the enrichment service. Elsewhere
    an operation is one function, run as the locks make it run. A handler of the API is a sequence of such
    operations without others in between, apart from the changes its environment lists.
  \<^item> Loops are structural recursion or functions with a measure. The loops that depend on outside events
    (\<open>Worker\<close>: the ticks of a session, the retries of its end) recurse over the list of those events. The only
    fuel is that of the CSV reader in \<open>Csv\<close>, a specification: the length of the text, and every record uses up
    at least one byte.
  \<^item> Numbers kept at their width: event sequence numbers and event columns, IP addresses, axis bounds. Other Go
    integers are HOL integers with the wrap-around written out where the source can reach it.

  \<^bold>\<open>What the groups of properties show\<close>

  \<^item> Safety across failures: creating and deleting runs and sessions, stopping, deleting and resuming leave no row
    without an owner and no owner without a row, except in the listed cases; samples go before rows; the process
    shuts down in order whatever fails.
  \<^item> The store keeps its invariant under every operation, the status of a row moves along the intended edges, a
    tick is saved whole or not at all, event numbers are consecutive across re-enabling.
  \<^item> The writer is first in, first out, its barriers report exactly the errors since the last one, closing drains
    it; a stored event comes back as the sample the API shows.
  \<^item> The locks exclude, do not deadlock and end under every schedule; one refresh of an address runs at a time.
  \<^item> The reports: figures of the pool report against their definition, independence of the order of observations,
    agreement of the three places that compute them (report, export, session report), caps and paging.
  \<^item> Encodings: CSV that reads back to the rows and holds no formula, base64 credentials, encryption, JSON text,
    template rendering; paths of static files stay inside the tree.

  Theories also hold lemmas that prove a defect: \<open>ApiSessions.create_session_orphan\<close>,
  \<open>ApiSessions.reenable_session_orphan\<close> and \<open>Rows.failed_tick_country\<close>.

  \<^bold>\<open>Not modelled\<close>

  \<^item> Code outside the repository is a parameter: AES-GCM, \<open>net/url.Parse\<close>, the JSON decoder, the HTTP client and
    the resolver, Unicode case mapping outside ASCII, ClickHouse's quantiles, \<open>time.ParseDuration\<close>, MIME types.
    PostgreSQL and ClickHouse are modelled by what their statements document.
  \<^item> \<open>api/router.go\<close> (registration with chi and OpenTelemetry), \<open>api/openapi/openapi.gen.go\<close> (generated; the types
    the handlers use are modelled), \<open>telemetry/otel.go\<close> (SDK set-up), \<open>migrate\<close> and \<open>chmigrate\<close> (calls of goose),
    \<open>db/db.go\<close> and \<open>querier.go\<close> (generated plumbing), the embedded web front end.
  \<^item> Log lines, the throttle of the writer's drop log, metrics, and the deadlines of contexts other than as the
    point where a call fails.
  \<^item> Floating-point ratios are exact rationals.
\<close>

subsection \<open>From the probe to the API\<close>

lemma Probe_res_ok: "res_ok (Probe tx env) \<longleftrightarrow> pb_Err (Probe tx env) = None"
  using Probe_success(2) [of tx env] by (auto simp: res_ok_def)

lemma zoneless_addrIP: "zoneless (addrIP a)"
  by (cases "unmap a") (simp_all add: addrIP_def zoneless_def)

lemma tick_country:
  assumes "\<forall>r \<in> set results. pb_Err r = None \<longrightarrow> res_ok r \<and> length (pb_Country r) = 2"
  shows "length (EgressCountry (Aggregate results previous seen)) = (if good results = [] then 0 else 2)"
proof (cases "good results = []")
  case True
  then show ?thesis using Aggregate_primary [of results previous seen] by simp
next
  case False
  let ?p = "PrimaryIP (Aggregate results previous seen)"
  have "?p \<in> pb_IP ` set (good results)"
  proof (rule ccontr)
    assume none: "?p \<notin> pb_IP ` set (good results)"
    have "?p = (case primary_of (map pb_IP (good results)) of None \<Rightarrow> NoAddr | Some x \<Rightarrow> x)"
      by (simp add: Aggregate_base base_sample_def Let_def)
    moreover obtain x where x: "primary_of (map pb_IP (good results)) = Some x"
      using False primary_of_None [of "map pb_IP (good results)"] by (cases "primary_of (map pb_IP (good results))") auto
    moreover have "x \<in> set (map pb_IP (good results))"
      using x unfolding primary_of_def by (metis find_Some_iff nth_mem)
    ultimately show False using none by simp
  qed
  then obtain r where r: "find (\<lambda>r. pb_IP r = ?p) (good results) = Some r"
    by (cases "find (\<lambda>r. pb_IP r = ?p) (good results)") (auto simp: find_None_iff)
  then have "r \<in> set (good results)" by (metis find_Some_iff nth_mem)
  then have "length (pb_Country r) = 2" using assms by (auto simp: good_def res_ok_def dest: in_set_takeD)
  then show ?thesis using Aggregate_primary [of results previous seen] False r by simp
qed

text \<open>What the API shows of one probe: its address, unless it failed or answered the unspecified address.\<close>

definition shown_probe :: "probe_result \<Rightarrow> string option" where
  "shown_probe r = (if pb_Err r = None \<and> validIP (addrIP (pb_IP r)) then Some (ip_string (addrIP (pb_IP r))) else None)"

lemma probes_shown:
  assumes "\<forall>r \<in> set results. res_ok r = (pb_Err r = None)"
  shows "sa_ProbeIps (mapSampleEvent (sampleEvent sid t sq (Aggregate results previous seen) rep)) = map shown_probe (take 255 results)"
    and "sa_ProbeOk (mapSampleEvent (sampleEvent sid t sq (Aggregate results previous seen) rep)) = map (\<lambda>r. pb_Err r = None) (take 255 results)"
proof -
  let ?s = "Aggregate results previous seen" let ?rs = "take 255 results"
  let ?e = "sampleEvent sid t sq ?s rep"
  have ok: "res_ok r = (pb_Err r = None)" if "r \<in> set ?rs" for r using assms that by (auto dest: in_set_takeD)
  have ips: "e_ProbeIPs ?e = map (\<lambda>r. addrIP (if res_ok r then pb_IP r else NoAddr)) ?rs"
    by (simp add: sampleEvent_def Let_def base_fields base_sample_def comp_def)
  have oks: "e_ProbeOK ?e = map (\<lambda>r. boolByte (res_ok r)) ?rs"
    by (simp add: sampleEvent_def Let_def base_fields base_sample_def comp_def)
  have "probe_view ?e i = shown_probe (?rs ! i)" if i: "i < length ?rs" for i
    using i ok [OF nth_mem [OF i]] by (simp add: probe_view_def ips oks shown_probe_def boolByte_def)
  then show "sa_ProbeIps (mapSampleEvent ?e) = map shown_probe ?rs"
    by (intro nth_equalityI) (simp_all add: mapSampleEvent_def ips)
  have "(boolByte (res_ok r) \<noteq> 0) = (pb_Err r = None)" if "r \<in> set ?rs" for r
    using ok [OF that] by (simp add: boolByte_def)
  then show "sa_ProbeOk (mapSampleEvent ?e) = map (\<lambda>r. pb_Err r = None) ?rs"
    by (simp add: mapSampleEvent_def oks)
qed

lemma Probe_country:
  assumes "pb_Err (Probe tx env) = None"
  shows "res_ok (Probe tx env) \<and> length (pb_Country (Probe tx env)) = 2 \<and> CHR 0x00 \<notin> set (pb_Country (Probe tx env))"
proof -
  note country = isUpperAlphaCode_bytes [OF Probe_success(4) [OF assms]]
  have "CHR 0x00 \<notin> set (pb_Country (Probe tx env))"
  proof
    assume "CHR 0x00 \<in> set (pb_Country (Probe tx env))"
    then have "65 \<le> byte (CHR 0x00)" using country unfolding list_all_iff by blast
    then show False by simp
  qed
  then show ?thesis using Probe_success(2) [OF assms] country by simp
qed

lemma tick_country_letters:
  assumes "\<forall>r \<in> set results. pb_Err r = None \<longrightarrow> res_ok r \<and> CHR 0x00 \<notin> set (pb_Country r)"
  shows "CHR 0x00 \<notin> set (EgressCountry (Aggregate results previous seen))"
proof -
  have "CHR 0x00 \<notin> set (pb_Country r)" if "find P (good results) = Some r" for P r
  proof -
    have "r \<in> set (good results)" using that by (metis find_Some_iff nth_mem)
    then show ?thesis using assms by (auto simp: good_def res_ok_def dest: in_set_takeD)
  qed
  then show ?thesis using Aggregate_primary [of results previous seen] by (auto split: option.splits)
qed

lemma padded_country:
  assumes "CHR 0x00 \<notin> set c"
  shows "(c @ replicate (2 - length c) (CHR 0x00) = [CHR 0x00, CHR 0x00]) = (c = [])"
  using assms by (cases c) (auto simp: numeral_2_eq_2)


end
